(* ===== verification/Prelude.thy ===== *)
theory Prelude
  imports Complex_Main "HOL-Library.Word"
begin

text \<open>
  The ground the components stand on: identifiers, time, and tables as lists of rows.

  \<^item> \<open>uuid\<close> is Python's \<open>UUID\<close>, a 128-bit value, ordered by that value as PostgreSQL orders
    the \<open>uuid\<close> columns the repositories sort by; \<open>uuid_str\<close> is \<open>str(uuid)\<close>.
  \<^item> \<open>time\<close> is an aware UTC \<open>datetime\<close> in whole microseconds, the resolution of the type;
    \<open>timedelta_us\<close> is \<open>timedelta(seconds=s)\<close>, which rounds half to even.
  \<^item> \<open>seconds\<close> is a duration or a reading of \<open>monotonic()\<close>, an exact real: the rounding of
    binary floating point is not modelled.
  \<^item> \<open>find_row\<close>, \<open>replace_row\<close> and \<open>select_rows\<close> are the queries the repositories build, on
    a table given as the list of its rows.
\<close>

named_theorems tx_simps \<open>definitions that unfold a database transaction\<close>
named_theorems row_simps \<open>rewriting rows and tables\<close>

subsection \<open>Identifiers\<close>

datatype uuid = UUID (uuid_int: "128 word")

instantiation uuid :: linorder
begin

definition less_eq_uuid :: "uuid \<Rightarrow> uuid \<Rightarrow> bool" where
  "less_eq_uuid a b \<longleftrightarrow> uuid_int a \<le> uuid_int b"

definition less_uuid :: "uuid \<Rightarrow> uuid \<Rightarrow> bool" where
  "less_uuid a b \<longleftrightarrow> uuid_int a < uuid_int b"

instance
  by standard (auto simp: less_eq_uuid_def less_uuid_def uuid.expand)

end

definition hex_digit :: "nat \<Rightarrow> char" where
  "hex_digit n = ''0123456789abcdef'' ! (n mod 16)"

definition nibble :: "uuid \<Rightarrow> nat \<Rightarrow> char" where
  "nibble u i = hex_digit (unat (uuid_int u) div 16 ^ (31 - i))"

definition uuid_str :: "uuid \<Rightarrow> string" where
  "uuid_str u =
     map (nibble u) [0..<8] @ ''-'' @ map (nibble u) [8..<12] @ ''-'' @
     map (nibble u) [12..<16] @ ''-'' @ map (nibble u) [16..<20] @ ''-'' @
     map (nibble u) [20..<32]"

subsection \<open>Time\<close>

type_synonym time = int
type_synonym seconds = real

definition round_half_even :: "real \<Rightarrow> int" where
  "round_half_even x =
     (let f = \<lfloor>x\<rfloor>; r = x - of_int f
      in if r < 1 / 2 then f
         else if r > 1 / 2 then f + 1
         else if even f then f else f + 1)"

definition timedelta_us :: "seconds \<Rightarrow> time" where
  "timedelta_us s = round_half_even (s * 1000000)"

lemma round_half_even_nonneg: "0 \<le> x \<Longrightarrow> 0 \<le> round_half_even x"
  by (auto simp: round_half_even_def Let_def)

lemma round_half_even_pos:
  assumes "1 \<le> x"
  shows "0 < round_half_even x"
proof -
  from assms have "1 \<le> \<lfloor>x\<rfloor>" by simp
  then show ?thesis by (auto simp: round_half_even_def Let_def)
qed

lemma timedelta_us_nonneg: "0 \<le> s \<Longrightarrow> 0 \<le> timedelta_us s"
  by (simp add: timedelta_us_def round_half_even_nonneg)

lemma timedelta_us_pos: "1 / 1000000 \<le> s \<Longrightarrow> 0 < timedelta_us s"
  by (simp add: timedelta_us_def round_half_even_pos)

subsection \<open>Tables as lists of rows\<close>

definition find_row :: "('r \<Rightarrow> 'k) \<Rightarrow> 'k \<Rightarrow> 'r list \<Rightarrow> 'r option" where
  "find_row key k rows = find (\<lambda>r. key r = k) rows"

definition replace_row :: "('r \<Rightarrow> 'k) \<Rightarrow> 'r \<Rightarrow> 'r list \<Rightarrow> 'r list" where
  "replace_row key r rows = map (\<lambda>x. if key x = key r then r else x) rows"

text \<open>\<open>SELECT ... WHERE p ORDER BY key LIMIT n\<close>: PostgreSQL returns the first \<open>n\<close> of the
  matching rows in key order.\<close>

definition select_rows :: "('r \<Rightarrow> bool) \<Rightarrow> ('r \<Rightarrow> 'k::linorder) \<Rightarrow> nat \<Rightarrow> 'r list \<Rightarrow> 'r list" where
  "select_rows p key n rows = take n (sort_key key (filter p rows))"

lemma find_row_Some: "find_row key k rows = Some r \<Longrightarrow> r \<in> set rows \<and> key r = k"
  by (auto simp: find_row_def find_Some_iff)

lemma find_row_None: "find_row key k rows = None \<longleftrightarrow> k \<notin> key ` set rows"
  by (auto simp: find_row_def find_None_iff)

lemma find_row_unique:
  assumes "distinct (map key rows)" and "r \<in> set rows"
  shows "find_row key (key r) rows = Some r"
proof (cases "find_row key (key r) rows")
  case None
  with assms(2) show ?thesis by (auto simp: find_row_None)
next
  case (Some x)
  from find_row_Some [OF Some] assms show ?thesis
    using Some by (auto simp: distinct_map dest: inj_onD)
qed

lemma find_row_append:
  "find_row key k (rows @ [r]) =
     (case find_row key k rows of Some x \<Rightarrow> Some x | None \<Rightarrow> if key r = k then Some r else None)"
  by (induction rows) (auto simp: find_row_def)

lemma map_key_replace_row [simp]: "map key (replace_row key r rows) = map key rows"
  by (auto simp: replace_row_def)

lemma key_set_replace_row [simp]: "key ` set (replace_row key r rows) = key ` set rows"
  by (metis map_key_replace_row set_map)

lemma length_replace_row [simp]: "length (replace_row key r rows) = length rows"
  by (simp add: replace_row_def)

lemma find_row_replace_row:
  "find_row key k (replace_row key r rows) =
     (if k = key r \<and> k \<in> key ` set rows then Some r else find_row key k rows)"
  by (induction rows) (auto simp: find_row_def replace_row_def)

lemma set_replace_row:
  "x \<in> set (replace_row key r rows) \<longleftrightarrow>
     (x = r \<and> key r \<in> key ` set rows) \<or> (x \<in> set rows \<and> key x \<noteq> key r)"
  by (auto simp: replace_row_def image_iff split: if_splits) metis+

lemma replace_row_cong_map:
  "(\<And>x. x \<in> set rows \<Longrightarrow> key x = key r \<Longrightarrow> f x = f r) \<Longrightarrow> map f (replace_row key r rows) = map f rows"
  by (simp add: replace_row_def)

lemma set_select_rows: "r \<in> set (select_rows p key n rows) \<Longrightarrow> r \<in> set rows \<and> p r"
  using set_take_subset [of n "sort_key key (filter p rows)"]
  by (auto simp: select_rows_def)

lemma length_select_rows: "length (select_rows p key n rows) \<le> n"
  by (simp add: select_rows_def)

lemma sorted_select_rows: "sorted (map key (select_rows p key n rows))"
  by (simp add: select_rows_def take_map [symmetric] sorted_wrt_take)

lemma distinct_select_rows:
  assumes "distinct (map k rows)"
  shows "distinct (map k (select_rows p key n rows))"
proof -
  have "distinct (map k (filter p rows))"
    using assms by (rule distinct_map_filter)
  then have "inj_on k (set (filter p rows)) \<and> distinct (filter p rows)"
    by (simp add: distinct_map)
  then have "distinct (map k (sort_key key (filter p rows)))"
    by (simp add: distinct_map)
  then show ?thesis
    by (simp add: select_rows_def take_map [symmetric])
qed

text \<open>Nothing that matches is passed over: a matching row the query leaves out comes, in key
  order, after every row the query returns, and the query then returned \<open>n\<close> rows.\<close>

lemma select_rows_first:
  assumes "x \<in> set rows" and "p x" and "x \<notin> set (select_rows p key n rows)"
  shows "length (select_rows p key n rows) = n"
    and "\<And>y. y \<in> set (select_rows p key n rows) \<Longrightarrow> key y \<le> key x"
proof -
  let ?s = "sort_key key (filter p rows)"
  have mem: "x \<in> set ?s" using assms(1,2) by simp
  have split: "x \<in> set (drop n ?s)"
    using mem assms(3) by (metis Un_iff append_take_drop_id select_rows_def set_append)
  then have "n < length ?s"
    by (metis drop_all empty_iff empty_set linorder_not_less)
  then show "length (select_rows p key n rows) = n"
    by (simp add: select_rows_def)
  fix y assume y: "y \<in> set (select_rows p key n rows)"
  have "sorted (map key (take n ?s @ drop n ?s))"
    by simp
  then have "\<forall>a \<in> set (take n ?s). \<forall>b \<in> set (drop n ?s). key a \<le> key b"
    by (simp only: map_append sorted_append) auto
  then show "key y \<le> key x"
    using y split by (auto simp: select_rows_def)
qed

lemma select_rows_all:
  "length (filter p rows) \<le> n \<Longrightarrow> set (select_rows p key n rows) = {r \<in> set rows. p r}"
  by (simp add: select_rows_def)

lemmas find_row_simps [row_simps] =
  find_row_append find_row_replace_row map_key_replace_row length_replace_row

subsection \<open>Wire formats\<close>

text \<open>
  The contract of an encoding: what is encoded is decoded to itself. An exact one also
  decodes nothing else, so that decoding is the inverse of encoding.
\<close>

locale codec =
  fixes encode :: "'a \<Rightarrow> 'w" and decode :: "'w \<Rightarrow> 'a option" and valid :: "'a \<Rightarrow> bool"
  assumes decode_encode: "valid a \<Longrightarrow> decode (encode a) = Some a"
begin

lemma encode_eq_iff: "valid a \<Longrightarrow> valid b \<Longrightarrow> encode a = encode b \<longleftrightarrow> a = b"
  by (metis decode_encode option.inject)

lemma encode_inj_on: "inj_on encode {a. valid a}"
  by (auto simp: inj_on_def encode_eq_iff)

end

locale exact_codec = codec +
  assumes encode_decode: "decode w = Some a \<Longrightarrow> valid a \<and> encode a = w"
begin

lemma decode_Some_iff: "decode w = Some a \<longleftrightarrow> valid a \<and> encode a = w"
  using decode_encode encode_decode by blast

lemma decode_None_iff: "decode w = None \<longleftrightarrow> w \<notin> encode ` {a. valid a}"
proof (cases "decode w")
  case None
  have "w \<notin> encode ` {a. valid a}"
  proof
    assume "w \<in> encode ` {a. valid a}"
    then obtain a where "valid a" and "w = encode a" by auto
    with None show False by (simp add: decode_encode)
  qed
  with None show ?thesis by simp
next
  case (Some a)
  then have "w \<in> encode ` {a. valid a}" using encode_decode [OF Some] by auto
  with Some show ?thesis by simp
qed

lemma encode_bij: "bij_betw encode {a. valid a} {w. decode w \<noteq> None}"
  using encode_inj_on by (auto simp: bij_betw_def decode_None_iff)

end

text \<open>A \<open>StrEnum\<close>: a list of members with distinct string values. Calling the class looks a
  member up by its value and raises \<open>ValueError\<close> (here \<open>None\<close>) when there is none.\<close>

definition enum_lookup :: "'a list \<Rightarrow> ('a \<Rightarrow> string) \<Rightarrow> string \<Rightarrow> 'a option" where
  "enum_lookup members member_value s = find (\<lambda>m. member_value m = s) members"

locale str_enum =
  fixes members :: "'a list" and member_value :: "'a \<Rightarrow> string"
  assumes all_members: "m \<in> set members" and values_distinct: "distinct (map member_value members)"
begin

lemma value_eq_iff: "member_value a = member_value b \<longleftrightarrow> a = b"
  using values_distinct all_members by (auto simp: distinct_map dest: inj_onD)

lemma lookup_Some_iff: "enum_lookup members member_value s = Some m \<longleftrightarrow> member_value m = s"
proof
  assume "enum_lookup members member_value s = Some m"
  then show "member_value m = s" by (auto simp: enum_lookup_def find_Some_iff)
next
  assume m: "member_value m = s"
  then have "enum_lookup members member_value s \<noteq> None"
    using all_members by (auto simp: enum_lookup_def find_None_iff)
  then obtain x where x: "enum_lookup members member_value s = Some x" by blast
  then have "member_value x = s" by (auto simp: enum_lookup_def find_Some_iff)
  with m x show "enum_lookup members member_value s = Some m" by (simp add: value_eq_iff [symmetric])
qed

end

sublocale str_enum \<subseteq> exact_codec member_value "enum_lookup members member_value" "\<lambda>_. True"
  by unfold_locales (simp_all add: lookup_Some_iff)

end
