(* ===== verification/Errors.thy ===== *)
theory Errors
  imports Prelude
begin

text \<open>
  The exceptions of the program as values. Each module's own exceptions are a datatype of
  their own; \<open>exn\<close> is whatever a call may raise. A call that may raise returns
  \<open>exn + 'a\<close>, with \<open>Inl\<close> for the exception. \<open>CancelledError\<close> and the other direct
  subclasses of \<open>BaseException\<close> are not caught by \<open>except Exception\<close>.
\<close>

datatype provider_error =
    ProviderPermanentError "int option"
  | ProviderUnavailableError
  | ProviderAmbiguousOutcomeError

datatype webhook_error =
    WebhookRetryableError "int option"
  | WebhookPermanentError int

datatype event_error =
    RetryableEventError string
  | PermanentEventError string

datatype exn =
    Provider_exn provider_error
  | CircuitBreakerOpenError
  | Webhook_exn webhook_error
  | Event_exn event_error
  | IdempotencyConflictError
  | IntegrityError
  | ValueError string
  | RuntimeError string
  | OtherException string
  | CancelledError
  | OtherBaseException string

type_synonym 'a outcome = "exn + 'a"

text \<open>What \<open>except Exception\<close> catches.\<close>

fun is_exception :: "exn \<Rightarrow> bool" where
  "is_exception CancelledError = False"
| "is_exception (OtherBaseException _) = False"
| "is_exception _ = True"

abbreviation raise_permanent :: "string \<Rightarrow> 'a outcome" where
  "raise_permanent msg \<equiv> Inl (Event_exn (PermanentEventError msg))"

abbreviation raise_retryable :: "string \<Rightarrow> 'a outcome" where
  "raise_retryable msg \<equiv> Inl (Event_exn (RetryableEventError msg))"

lemma is_exception_iff:
  "is_exception e \<longleftrightarrow> e \<noteq> CancelledError \<and> (\<forall>s. e \<noteq> OtherBaseException s)"
  by (cases e) auto

text \<open>Calls made one after the other, each with how it ends: one that raises skips the rest.\<close>

fun perform :: "('a \<times> unit outcome) list \<Rightarrow> 'a list \<times> unit outcome" where
  "perform [] = ([], Inr ())"
| "perform ((a, Inl e) # rest) = ([a], Inl e)"
| "perform ((a, Inr _) # rest) = (case perform rest of (as, r) \<Rightarrow> (a # as, r))"

lemma perform_append:
  "perform (xs @ ys) =
     (case perform xs of
        (as, Inl e) \<Rightarrow> (as, Inl e)
      | (as, Inr _) \<Rightarrow> (case perform ys of (bs, r) \<Rightarrow> (as @ bs, r)))"
  by (induction xs rule: perform.induct) (auto split: prod.splits sum.splits)

lemma perform_single: "perform [(a, r)] = ([a], r)"
  by (cases r) auto

lemma perform_prefix: "\<exists>ys. map fst xs = fst (perform xs) @ ys"
  by (induction xs rule: perform.induct) (auto split: prod.splits)

lemma perform_all: "list_all (\<lambda>(a, r). r = Inr ()) xs \<Longrightarrow> perform xs = (map fst xs, Inr ())"
  by (induction xs rule: perform.induct) auto

end
