(* ===== verification/Values.thy ===== *)
theory Values
  imports Errors "HOL-Library.Char_ord" "HOL-Library.List_Lexorder"
begin

text \<open>
  The values the payloads carry: decimals, JSON documents and URLs.

  \<^item> \<open>decimal\<close> is a finite Python \<open>Decimal\<close>: a signed coefficient and an exponent.
  \<^item> \<open>json\<close> is a parsed JSON document. A string is the list of its UTF-8 bytes, so \<open>char\<close>
    stands for a byte. A float carries its \<open>repr\<close>, the text \<open>json.dumps\<close> writes for it;
    \<open>JNonFinite\<close> is a NaN or an infinity.
  \<^item> \<open>url\<close> is pydantic's \<open>AnyHttpUrl\<close>: its string form and the credentials found in it.
\<close>

subsection \<open>Decimals\<close>

datatype decimal = Decimal (coefficient: int) (exponent: int)

definition decimal_value :: "decimal \<Rightarrow> real" where
  "decimal_value d = of_int (coefficient d) * 10 powi exponent d"

definition div_half_even :: "int \<Rightarrow> int \<Rightarrow> int" where
  "div_half_even c m =
     (let q = c div m; r = c mod m
      in if 2 * r < m then q
         else if 2 * r > m then q + 1
         else if even q then q else q + 1)"

text \<open>\<open>d.quantize(Decimal("0.01"))\<close>, as the number of hundredths: the default context rounds
  half to even. (Quantising beyond 28 digits raises; an amount has at most 18.)\<close>

definition quantize_cents :: "decimal \<Rightarrow> int" where
  "quantize_cents d =
     (if exponent d \<ge> -2 then coefficient d * 10 ^ nat (exponent d + 2)
      else div_half_even (coefficient d) (10 ^ nat (- 2 - exponent d)))"

text \<open>The hundredths of a decimal that has at most two decimal places, trailing zeros apart.\<close>

definition exact_cents :: "decimal \<Rightarrow> int option" where
  "exact_cents d =
     (if exponent d \<ge> -2 then Some (coefficient d * 10 ^ nat (exponent d + 2))
      else if 10 ^ nat (- 2 - exponent d) dvd coefficient d
      then Some (coefficient d div 10 ^ nat (- 2 - exponent d))
      else None)"

text \<open>Two decimals compare equal when their values do.\<close>

definition decimal_eq :: "decimal \<Rightarrow> decimal \<Rightarrow> bool" where
  "decimal_eq a b \<longleftrightarrow>
     coefficient a * 10 ^ nat (exponent a - min (exponent a) (exponent b)) =
     coefficient b * 10 ^ nat (exponent b - min (exponent a) (exponent b))"

lemma quantize_exact: "exact_cents d = Some n \<Longrightarrow> quantize_cents d = n"
  by (auto simp: exact_cents_def quantize_cents_def div_half_even_def Let_def split: if_splits)

lemma exact_cents_value: "exact_cents d = Some n \<Longrightarrow> decimal_value d = of_int n / 100"
proof -
  assume n: "exact_cents d = Some n"
  obtain c e where d: "d = Decimal c e" by (cases d)
  show ?thesis
  proof (cases "e \<ge> -2")
    case True
    have "(10::real) ^ nat (e + 2) = 10 powi e * 100"
      using True by (simp add: power_int_def [symmetric] flip: power_int_of_nat)
        (simp add: power_int_add)
    with True n d show ?thesis
      by (auto simp: exact_cents_def decimal_value_def)
  next
    case False
    let ?k = "nat (- 2 - e)"
    from False n d have dvd: "10 ^ ?k dvd c" and n': "n = c div 10 ^ ?k"
      by (auto simp: exact_cents_def split: if_splits)
    then have c: "c = n * 10 ^ ?k" by simp
    have e: "e = - int (?k + 2)" using False by simp
    have "(10::real) powi e = 1 / (10 ^ ?k * 100)"
      by (subst e) (simp only: power_int_minus power_int_of_nat power_add, simp add: field_simps)
    with c d show ?thesis by (simp add: decimal_value_def)
  qed
qed

subsection \<open>JSON\<close>

datatype json =
    JNull
  | JBool bool
  | JInt int
  | JFloat string
  | JNonFinite
  | JStr string
  | JArr "json list"
  | JObj "(string \<times> json) list"

text \<open>A Python dict with string keys, in insertion order.\<close>

type_synonym dict = "(string \<times> json) list"

subsection \<open>Integers in decimal\<close>

fun dec_digits :: "nat \<Rightarrow> string" where
  "dec_digits n =
     (if n < 10 then [''0123456789'' ! n]
      else dec_digits (n div 10) @ [''0123456789'' ! (n mod 10)])"

declare dec_digits.simps [simp del]

definition int_str :: "int \<Rightarrow> string" where
  "int_str i = (if i < 0 then CHR ''-'' # dec_digits (nat (- i)) else dec_digits (nat i))"

subsection \<open>URLs\<close>

record url =
  url_text :: string
  url_username :: "string option"
  url_password :: "string option"

text \<open>\<open>str.strip()\<close>, on the characters below 256.\<close>

definition is_blank :: "char \<Rightarrow> bool" where
  "is_blank c \<longleftrightarrow> (of_char c :: nat) \<in> {9, 10, 11, 12, 13, 28, 29, 30, 31, 32, 133, 160}"

definition strip :: "string \<Rightarrow> string" where
  "strip s = rev (dropWhile is_blank (rev (dropWhile is_blank s)))"

end
