(* ===== verification/Schemas.thy ===== *)
theory Schemas
  imports Values
begin

text \<open>
  The enumerations and message schemas of \<open>app/schemas\<close> and \<open>app/models/payment.py\<close>.

  A \<open>StrEnum\<close> is a datatype with its \<open>value\<close> and the lookup by value that calling the class
  does. A pydantic model is a record; its validation is written out as far as the source
  declares it (required fields, defaults, \<open>Literal\<close>, enum membership, bounds, validators). The
  parsing of one scalar (a UUID, a timestamp, an integer) is pydantic's: a field of an incoming
  document is \<open>Absent\<close>, \<open>Malformed\<close> for its declared type, or \<open>Given\<close> the parsed value.
\<close>

subsection \<open>Enumerations\<close>

datatype payment_status = PENDING | SUCCEEDED | FAILED | UNKNOWN

fun payment_status_value :: "payment_status \<Rightarrow> string" where
  "payment_status_value PENDING = ''pending''"
| "payment_status_value SUCCEEDED = ''succeeded''"
| "payment_status_value FAILED = ''failed''"
| "payment_status_value UNKNOWN = ''unknown''"

definition PaymentStatus :: "string \<Rightarrow> payment_status option" where
  "PaymentStatus = enum_lookup [PENDING, SUCCEEDED, FAILED, UNKNOWN] payment_status_value"

datatype public_payment_status = PUBLIC_PENDING | PUBLIC_SUCCEEDED | PUBLIC_FAILED

fun public_payment_status_value :: "public_payment_status \<Rightarrow> string" where
  "public_payment_status_value PUBLIC_PENDING = ''pending''"
| "public_payment_status_value PUBLIC_SUCCEEDED = ''succeeded''"
| "public_payment_status_value PUBLIC_FAILED = ''failed''"

definition PublicPaymentStatus :: "string \<Rightarrow> public_payment_status option" where
  "PublicPaymentStatus =
     enum_lookup [PUBLIC_PENDING, PUBLIC_SUCCEEDED, PUBLIC_FAILED] public_payment_status_value"

datatype currency = RUB | USD | EUR

fun currency_value :: "currency \<Rightarrow> string" where
  "currency_value RUB = ''RUB''"
| "currency_value USD = ''USD''"
| "currency_value EUR = ''EUR''"

definition Currency :: "string \<Rightarrow> currency option" where
  "Currency = enum_lookup [RUB, USD, EUR] currency_value"

datatype event_type = PAYMENT_PROCESS_REQUESTED | WEBHOOK_DELIVERY_REQUESTED

fun event_type_value :: "event_type \<Rightarrow> string" where
  "event_type_value PAYMENT_PROCESS_REQUESTED = ''payment.process_requested''"
| "event_type_value WEBHOOK_DELIVERY_REQUESTED = ''webhook.delivery_requested''"

definition EventType :: "string \<Rightarrow> event_type option" where
  "EventType = enum_lookup [PAYMENT_PROCESS_REQUESTED, WEBHOOK_DELIVERY_REQUESTED] event_type_value"

datatype provider_status = APPROVED | DECLINED

fun provider_status_value :: "provider_status \<Rightarrow> string" where
  "provider_status_value APPROVED = ''approved''"
| "provider_status_value DECLINED = ''declined''"

definition ProviderPaymentStatus :: "string \<Rightarrow> provider_status option" where
  "ProviderPaymentStatus = enum_lookup [APPROVED, DECLINED] provider_status_value"

datatype webhook_event_type = PAYMENT_SUCCEEDED | PAYMENT_FAILED

fun webhook_event_type_value :: "webhook_event_type \<Rightarrow> string" where
  "webhook_event_type_value PAYMENT_SUCCEEDED = ''payment.succeeded''"
| "webhook_event_type_value PAYMENT_FAILED = ''payment.failed''"

lemma str_enum_payment_status:
  "str_enum [PENDING, SUCCEEDED, FAILED, UNKNOWN] payment_status_value"
proof
  show "m \<in> set [PENDING, SUCCEEDED, FAILED, UNKNOWN]" for m by (cases m) auto
qed simp

interpretation payment_status_enum:
  str_enum "[PENDING, SUCCEEDED, FAILED, UNKNOWN]" payment_status_value
  by (rule str_enum_payment_status)

interpretation public_payment_status_enum:
  str_enum "[PUBLIC_PENDING, PUBLIC_SUCCEEDED, PUBLIC_FAILED]" public_payment_status_value
proof
  show "m \<in> set [PUBLIC_PENDING, PUBLIC_SUCCEEDED, PUBLIC_FAILED]" for m by (cases m) auto
qed simp

interpretation currency_enum: str_enum "[RUB, USD, EUR]" currency_value
proof
  show "m \<in> set [RUB, USD, EUR]" for m by (cases m) auto
qed simp

interpretation event_type_enum:
  str_enum "[PAYMENT_PROCESS_REQUESTED, WEBHOOK_DELIVERY_REQUESTED]" event_type_value
proof
  show "m \<in> set [PAYMENT_PROCESS_REQUESTED, WEBHOOK_DELIVERY_REQUESTED]" for m by (cases m) auto
qed simp

interpretation provider_status_enum: str_enum "[APPROVED, DECLINED]" provider_status_value
proof
  show "m \<in> set [APPROVED, DECLINED]" for m by (cases m) auto
qed simp

lemma PaymentStatus_Some_iff: "PaymentStatus s = Some st \<longleftrightarrow> payment_status_value st = s"
  by (simp add: PaymentStatus_def payment_status_enum.lookup_Some_iff)

lemma PublicPaymentStatus_Some_iff:
  "PublicPaymentStatus s = Some st \<longleftrightarrow> public_payment_status_value st = s"
  by (simp add: PublicPaymentStatus_def public_payment_status_enum.lookup_Some_iff)

lemma Currency_Some_iff: "Currency s = Some c \<longleftrightarrow> currency_value c = s"
  by (simp add: Currency_def currency_enum.lookup_Some_iff)

lemma EventType_Some_iff: "EventType s = Some t \<longleftrightarrow> event_type_value t = s"
  by (simp add: EventType_def event_type_enum.lookup_Some_iff)

lemma ProviderPaymentStatus_Some_iff:
  "ProviderPaymentStatus s = Some t \<longleftrightarrow> provider_status_value t = s"
  by (simp add: ProviderPaymentStatus_def provider_status_enum.lookup_Some_iff)

lemma enum_lookup_value [simp]:
  "ProviderPaymentStatus (provider_status_value p) = Some p"
  "PaymentStatus (payment_status_value st) = Some st"
  "Currency (currency_value c) = Some c"
  "EventType (event_type_value t) = Some t"
  by (simp_all add: PaymentStatus_Some_iff Currency_Some_iff EventType_Some_iff
      ProviderPaymentStatus_Some_iff)

subsection \<open>The public status\<close>

definition to_public_payment_status :: "string \<Rightarrow> public_payment_status option" where
  "to_public_payment_status status =
     (case PaymentStatus status of
        None \<Rightarrow> None
      | Some internal_status \<Rightarrow>
          if internal_status = UNKNOWN then Some PUBLIC_PENDING
          else PublicPaymentStatus (payment_status_value internal_status))"

lemma to_public_status:
  "to_public_payment_status (payment_status_value st) =
     Some (case st of SUCCEEDED \<Rightarrow> PUBLIC_SUCCEEDED | FAILED \<Rightarrow> PUBLIC_FAILED | _ \<Rightarrow> PUBLIC_PENDING)"
  by (cases st)
    (simp_all add: to_public_payment_status_def PublicPaymentStatus_Some_iff
      flip: payment_status_value.simps)

subsection \<open>Event envelopes\<close>

datatype 'a field = Absent | Malformed | Given 'a

record event_envelope =
  e_event_id :: uuid
  e_event_type :: event_type
  e_schema_version :: int
  e_payment_id :: uuid
  e_attempt :: int
  e_occurred_at :: time

record raw_event =
  r_event_id :: "uuid field"
  r_event_type :: "string field"
  r_schema_version :: "int field"
  r_payment_id :: "uuid field"
  r_attempt :: "int field"
  r_occurred_at :: "time field"

fun required :: "'a field \<Rightarrow> 'a option" where
  "required (Given a) = Some a"
| "required _ = None"

fun optional :: "'a \<Rightarrow> 'a field \<Rightarrow> 'a option" where
  "optional d Absent = Some d"
| "optional _ (Given a) = Some a"
| "optional _ Malformed = None"

text \<open>The declared constraints: \<open>Literal[1]\<close> on the version, \<open>ge=1\<close> on the attempt.\<close>

definition EventEnvelope :: "uuid \<Rightarrow> event_type \<Rightarrow> int \<Rightarrow> uuid \<Rightarrow> int \<Rightarrow> time \<Rightarrow> event_envelope option" where
  "EventEnvelope event_id event_type schema_version payment_id attempt occurred_at =
     (if schema_version = 1 \<and> attempt \<ge> 1
      then Some \<lparr>e_event_id = event_id, e_event_type = event_type,
                 e_schema_version = schema_version, e_payment_id = payment_id,
                 e_attempt = attempt, e_occurred_at = occurred_at\<rparr>
      else None)"

definition envelope_validate :: "raw_event \<Rightarrow> event_envelope option" where
  "envelope_validate r =
     (case (required (r_event_id r), required (r_event_type r), optional 1 (r_schema_version r),
            required (r_payment_id r), optional 1 (r_attempt r), required (r_occurred_at r)) of
        (Some i, Some t, Some v, Some p, Some a, Some o') \<Rightarrow>
          (case EventType t of
             None \<Rightarrow> None
           | Some t' \<Rightarrow> EventEnvelope i t' v p a o')
      | _ \<Rightarrow> None)"

definition envelope_dump :: "event_envelope \<Rightarrow> raw_event" where
  "envelope_dump e =
     \<lparr>r_event_id = Given (e_event_id e), r_event_type = Given (event_type_value (e_event_type e)),
      r_schema_version = Given (e_schema_version e), r_payment_id = Given (e_payment_id e),
      r_attempt = Given (e_attempt e), r_occurred_at = Given (e_occurred_at e)\<rparr>"

definition envelope_ok :: "event_envelope \<Rightarrow> bool" where
  "envelope_ok e \<longleftrightarrow> e_schema_version e = 1 \<and> e_attempt e \<ge> 1"

lemma envelope_validate_dump:
  "envelope_validate (envelope_dump e) = (if envelope_ok e then Some e else None)"
  by (simp add: envelope_validate_def envelope_dump_def EventEnvelope_def envelope_ok_def)

lemma envelope_validate_ok: "envelope_validate r = Some e \<Longrightarrow> envelope_ok e"
  by (auto simp: envelope_validate_def EventEnvelope_def envelope_ok_def
      split: option.splits if_splits)

interpretation envelope: codec envelope_dump envelope_validate envelope_ok
  by unfold_locales (simp add: envelope_validate_dump)

subsection \<open>Payment requests\<close>

record payment_create =
  c_amount :: decimal
  c_currency :: currency
  c_description :: "string option"
  c_metadata :: dict
  c_webhook_url :: url

text \<open>\<open>gt=0, max_digits=18, decimal_places=2\<close>: positive, at most two decimal places and at most
  sixteen digits before the point, not counting trailing zeros.\<close>

definition amount_field_ok :: "decimal \<Rightarrow> bool" where
  "amount_field_ok d =
     (case exact_cents d of None \<Rightarrow> False | Some n \<Rightarrow> 0 < n \<and> n < 10 ^ 18)"

definition validate_webhook_url :: "url \<Rightarrow> bool" where
  "validate_webhook_url u \<longleftrightarrow> url_username u = None \<and> url_password u = None"

definition payment_create_ok :: "payment_create \<Rightarrow> bool" where
  "payment_create_ok d \<longleftrightarrow> amount_field_ok (c_amount d) \<and> validate_webhook_url (c_webhook_url d)"

subsection \<open>Provider messages\<close>

record provider_request =
  q_payment_id :: uuid
  q_amount :: decimal
  q_currency :: currency

record provider_response =
  s_provider_payment_id :: uuid
  s_status :: provider_status

record raw_provider_response =
  w_provider_payment_id :: "uuid field"
  w_status :: "string field"

definition provider_response_validate :: "raw_provider_response \<Rightarrow> provider_response option" where
  "provider_response_validate r =
     (case (required (w_provider_payment_id r), required (w_status r)) of
        (Some i, Some s) \<Rightarrow>
          (case ProviderPaymentStatus s of
             None \<Rightarrow> None
           | Some st \<Rightarrow> Some \<lparr>s_provider_payment_id = i, s_status = st\<rparr>)
      | _ \<Rightarrow> None)"

definition provider_response_dump :: "provider_response \<Rightarrow> raw_provider_response" where
  "provider_response_dump r =
     \<lparr>w_provider_payment_id = Given (s_provider_payment_id r),
      w_status = Given (provider_status_value (s_status r))\<rparr>"

interpretation provider_response: codec
  provider_response_dump provider_response_validate "\<lambda>_. True"
  by unfold_locales
    (simp add: provider_response_dump_def provider_response_validate_def)

subsection \<open>Webhook payloads\<close>

record webhook_payload =
  h_event_id :: uuid
  h_event_type :: webhook_event_type
  h_payment_id :: uuid
  h_status :: payment_status
  h_amount :: decimal
  h_currency :: currency
  h_processed_at :: time
  h_metadata :: dict

definition expected_event_type :: "payment_status \<Rightarrow> webhook_event_type option" where
  "expected_event_type st =
     (case st of SUCCEEDED \<Rightarrow> Some PAYMENT_SUCCEEDED | FAILED \<Rightarrow> Some PAYMENT_FAILED | _ \<Rightarrow> None)"

definition validate_terminal_status :: "webhook_payload \<Rightarrow> bool" where
  "validate_terminal_status p =
     (case expected_event_type (h_status p) of
        None \<Rightarrow> False
      | Some t \<Rightarrow> h_event_type p = t)"

text \<open>Constructing the model: the amount field's constraint, then the validator. A failure is
  pydantic's \<open>ValidationError\<close>, a \<open>ValueError\<close>.\<close>

definition WebhookPayload :: "webhook_payload \<Rightarrow> webhook_payload outcome" where
  "WebhookPayload p =
     (if amount_field_ok (h_amount p) \<and> validate_terminal_status p then Inr p
      else Inl (ValueError ''ValidationError''))"

definition ProviderPaymentRequest :: "provider_request \<Rightarrow> provider_request outcome" where
  "ProviderPaymentRequest q =
     (if amount_field_ok (q_amount q) then Inr q else Inl (ValueError ''ValidationError''))"

end
