(* ===== verification/Models.thy ===== *)
theory Models
  imports Schemas
begin

text \<open>
  \<open>app/models\<close>: the two tables, as the lists of their rows, with the constraints PostgreSQL
  enforces on them.

  \<^item> A row is a record with one field per column. The check constraints on \<open>currency\<close> and
    \<open>status\<close> make the columns' texts members of the two enumerations, so the columns have the
    enumerations' types.
  \<^item> \<open>insert_payment\<close>, \<open>update_payment\<close> and \<open>insert_outbox_event\<close> are the statements the ORM
    emits at a flush. A row that breaks the primary key or a unique constraint is refused with
    \<open>IntegrityError\<close>; a null never conflicts. An \<open>UPDATE\<close> is emitted only for a row that
    changed, and then \<open>onupdate=func.now()\<close> sets \<open>updated_at\<close>.
\<close>

record payment =
  p_id :: uuid
  p_amount :: decimal
  p_currency :: currency
  p_description :: "string option"
  p_metadata :: dict
  p_status :: payment_status
  p_idempotency_key :: string
  p_request_fingerprint :: string
  p_webhook_url :: string
  p_webhook_event_id :: "uuid option"
  p_webhook_sent_at :: "time option"
  p_provider_payment_id :: "uuid option"
  p_created_at :: time
  p_updated_at :: time
  p_processed_at :: "time option"
  p_reconciliation_attempts :: int
  p_requires_manual_review :: bool
  p_reconciliation_lease_token :: "uuid option"
  p_reconciliation_lease_until :: "time option"

record outbox_event =
  o_id :: uuid
  o_event_type :: event_type
  o_payment_id :: uuid
  o_payload :: raw_event
  o_created_at :: time
  o_published_at :: "time option"

record database =
  payments :: "payment list"
  outbox_events :: "outbox_event list"

subsection \<open>Constraints\<close>

text \<open>Another row holds a value of one of the row's unique columns.\<close>

definition same_unique :: "payment \<Rightarrow> payment \<Rightarrow> bool" where
  "same_unique p q \<longleftrightarrow>
     p_idempotency_key q = p_idempotency_key p \<or>
     (p_provider_payment_id p \<noteq> None \<and> p_provider_payment_id q = p_provider_payment_id p) \<or>
     (p_webhook_event_id p \<noteq> None \<and> p_webhook_event_id q = p_webhook_event_id p)"

definition conflicts :: "payment \<Rightarrow> payment list \<Rightarrow> bool" where
  "conflicts p ps \<longleftrightarrow> list_ex (\<lambda>q. p_id q \<noteq> p_id p \<and> same_unique p q) ps"

definition insert_payment :: "payment \<Rightarrow> database \<Rightarrow> database outcome" where
  "insert_payment p d =
     (if p_id p \<in> p_id ` set (payments d) \<or> conflicts p (payments d) then Inl IntegrityError
      else Inr (d\<lparr>payments := payments d @ [p]\<rparr>))"

definition update_payment :: "time \<Rightarrow> payment \<Rightarrow> database \<Rightarrow> database outcome" where
  "update_payment now p d =
     (if find_row p_id (p_id p) (payments d) = Some p then Inr d
      else if conflicts p (payments d) then Inl IntegrityError
      else Inr (d\<lparr>payments := replace_row p_id (p\<lparr>p_updated_at := now\<rparr>) (payments d)\<rparr>))"

definition insert_outbox_event :: "outbox_event \<Rightarrow> database \<Rightarrow> database outcome" where
  "insert_outbox_event ev d =
     (if o_id ev \<in> o_id ` set (outbox_events d) then Inl IntegrityError
      else Inr (d\<lparr>outbox_events := outbox_events d @ [ev]\<rparr>))"

definition update_outbox_event :: "outbox_event \<Rightarrow> database \<Rightarrow> database" where
  "update_outbox_event ev d = d\<lparr>outbox_events := replace_row o_id ev (outbox_events d)\<rparr>"

text \<open>The tables satisfy their constraints.\<close>

definition constraints_ok :: "database \<Rightarrow> bool" where
  "constraints_ok d \<longleftrightarrow>
     distinct (map p_id (payments d)) \<and>
     (\<forall>p \<in> set (payments d). \<not> conflicts p (payments d)) \<and>
     distinct (map o_id (outbox_events d))"

lemma conflicts_iff: "conflicts p ps \<longleftrightarrow> (\<exists>q \<in> set ps. p_id q \<noteq> p_id p \<and> same_unique p q)"
  by (auto simp: conflicts_def list_ex_iff)

lemma same_unique_sym: "same_unique p q \<longleftrightarrow> same_unique q p"
  by (auto simp: same_unique_def)

lemma same_unique_updated_at [simp]:
  "same_unique (p\<lparr>p_updated_at := t\<rparr>) q = same_unique p q"
  "same_unique q (p\<lparr>p_updated_at := t\<rparr>) = same_unique q p"
  by (simp_all add: same_unique_def)

lemma constraints_ok_iff:
  "constraints_ok d \<longleftrightarrow>
     distinct (map p_id (payments d)) \<and>
     (\<forall>p \<in> set (payments d). \<forall>q \<in> set (payments d). same_unique p q \<longrightarrow> p_id q = p_id p) \<and>
     distinct (map o_id (outbox_events d))"
  by (auto simp: constraints_ok_def conflicts_iff)

lemma constraints_unique:
  "constraints_ok d \<Longrightarrow> p \<in> set (payments d) \<Longrightarrow> q \<in> set (payments d) \<Longrightarrow> same_unique p q \<Longrightarrow> p = q"
  unfolding constraints_ok_iff distinct_map inj_on_def by metis

lemma constraints_insert_payment:
  assumes "constraints_ok d" and "insert_payment p d = Inr d'"
  shows "constraints_ok d'"
proof -
  from assms(2) have new: "p_id p \<notin> p_id ` set (payments d)"
    and nc': "\<not> conflicts p (payments d)"
    and d': "d' = d\<lparr>payments := payments d @ [p]\<rparr>"
    by (auto simp: insert_payment_def split: if_splits)
  have nc: "\<forall>q \<in> set (payments d). \<not> same_unique p q"
    using nc' new unfolding conflicts_iff by (metis imageI)
  have "\<forall>q \<in> set (payments d). \<not> same_unique q p"
    using nc same_unique_sym [of p] by blast
  with assms(1) new nc show ?thesis
    by (simp add: constraints_ok_iff d')
qed

lemma constraints_update_payment:
  assumes "constraints_ok d" and "update_payment now p d = Inr d'"
  shows "constraints_ok d'"
proof (cases "find_row p_id (p_id p) (payments d) = Some p")
  case True
  with assms show ?thesis by (simp add: update_payment_def)
next
  case False
  let ?p = "p\<lparr>p_updated_at := now\<rparr>"
  from False assms(2) have nc: "\<forall>q \<in> set (payments d). same_unique p q \<longrightarrow> p_id q = p_id p"
    and d': "d' = d\<lparr>payments := replace_row p_id ?p (payments d)\<rparr>"
    by (auto simp: update_payment_def conflicts_iff split: if_splits)
  have nc': "\<forall>q \<in> set (payments d). same_unique q p \<longrightarrow> p_id q = p_id p"
    using nc same_unique_sym [of p] by blast
  have old: "\<forall>x \<in> set (payments d). \<forall>y \<in> set (payments d). same_unique x y \<longrightarrow> p_id y = p_id x"
    using assms(1) by (simp add: constraints_ok_iff)
  have "same_unique x y \<longrightarrow> p_id y = p_id x"
    if "x \<in> set (payments d')" and "y \<in> set (payments d')" for x y
  proof -
    from that have "x = ?p \<or> x \<in> set (payments d)" and "y = ?p \<or> y \<in> set (payments d)"
      by (auto simp: d' set_replace_row)
    then show ?thesis using nc nc' old by (elim disjE) simp_all
  qed
  moreover have "distinct (map p_id (payments d'))"
    using assms(1) map_key_replace_row [of p_id ?p] by (simp add: d' constraints_ok_def)
  ultimately show ?thesis using assms(1) by (simp add: d' constraints_ok_iff)
qed

lemma constraints_insert_outbox:
  "constraints_ok d \<Longrightarrow> insert_outbox_event ev d = Inr d' \<Longrightarrow> constraints_ok d'"
  by (auto simp: constraints_ok_def insert_outbox_event_def split: if_splits)

lemma constraints_update_outbox: "constraints_ok d \<Longrightarrow> constraints_ok (update_outbox_event ev d)"
  by (simp add: constraints_ok_def update_outbox_event_def)

lemma unique_key:
  assumes "constraints_ok d" and "p \<in> set (payments d)" and "q \<in> set (payments d)"
    and "p_idempotency_key p = p_idempotency_key q"
  shows "p = q"
  using constraints_unique [OF assms(1-3)] assms(4) by (simp add: same_unique_def)

lemmas constraints_intros =
  constraints_insert_payment constraints_update_payment constraints_insert_outbox
  constraints_update_outbox

end
