(* ===== verification/Session.thy ===== *)
theory Session
  imports Models
begin

text \<open>
  An \<open>AsyncSession\<close> and its transaction, as a state monad with exceptions.

  A session sees \<open>working\<close>, the committed database with its own flushed writes, and
  \<open>commit\<close> publishes it; \<open>rollback\<close> and the end of the session drop what was not committed.
  Every statement and every commit may fail: \<open>replies\<close> is the schedule of what the connection
  answers. \<open>Reply_error e\<close> raises \<open>e\<close> and nothing happened; \<open>Reply_lost e\<close> raises \<open>e\<close> after
  the server has done the work, which matters for a commit. When the schedule is used up every
  further call is answered. \<open>tx_now\<close> is the database's \<open>now()\<close>, constant in a transaction;
  \<open>locked_rows\<close> are the rows other transactions hold, which \<open>skip_locked\<close> passes over.

  A transaction that locks its row first reads and writes without interference on that row, so
  a transaction is one step from the committed database to the next; what other transactions do
  between two transactions of one handler is a parameter of the handlers.
\<close>

datatype db_reply = Reply_ok | Reply_error exn | Reply_lost exn

record session =
  committed :: database
  working :: database
  tx_now :: time
  locked_rows :: "uuid list"
  replies :: "db_reply list"

type_synonym 'a tx = "session \<Rightarrow> 'a outcome \<times> session"

subsection \<open>Combinators\<close>

definition tx_return :: "'a \<Rightarrow> 'a tx" where
  "tx_return x s = (Inr x, s)"

definition tx_raise :: "exn \<Rightarrow> 'a tx" where
  "tx_raise e s = (Inl e, s)"

definition tx_bind :: "'a tx \<Rightarrow> ('a \<Rightarrow> 'b tx) \<Rightarrow> 'b tx" where
  "tx_bind m f s = (case m s of (Inl e, s') \<Rightarrow> (Inl e, s') | (Inr x, s') \<Rightarrow> f x s')"

definition next_reply :: "session \<Rightarrow> db_reply \<times> session" where
  "next_reply s =
     (case replies s of [] \<Rightarrow> (Reply_ok, s) | r # rs \<Rightarrow> (r, s\<lparr>replies := rs\<rparr>))"

text \<open>A statement: a query or a flush of pending writes.\<close>

definition statement :: "(session \<Rightarrow> database \<Rightarrow> ('a \<times> database) outcome) \<Rightarrow> 'a tx" where
  "statement f s =
     (case next_reply s of
        (Reply_ok, s') \<Rightarrow>
          (case f s (working s) of
             Inl e \<Rightarrow> (Inl e, s')
           | Inr (x, d) \<Rightarrow> (Inr x, s'\<lparr>working := d\<rparr>))
      | (Reply_error e, s') \<Rightarrow> (Inl e, s')
      | (Reply_lost e, s') \<Rightarrow> (Inl e, s'))"

definition commit :: "unit tx" where
  "commit s =
     (case next_reply s of
        (Reply_ok, s') \<Rightarrow> (Inr (), s'\<lparr>committed := working s\<rparr>)
      | (Reply_error e, s') \<Rightarrow> (Inl e, s')
      | (Reply_lost e, s') \<Rightarrow> (Inl e, s'\<lparr>committed := working s\<rparr>))"

definition rollback :: "unit tx" where
  "rollback s = (Inr (), s\<lparr>working := committed s\<rparr>)"

text \<open>\<open>try: m / except Exception: await session.rollback(); raise\<close>\<close>

definition rollback_on_error :: "'a tx \<Rightarrow> 'a tx" where
  "rollback_on_error m s =
     (case m s of
        (Inl e, s') \<Rightarrow> if is_exception e then (Inl e, snd (rollback s')) else (Inl e, s')
      | (Inr x, s') \<Rightarrow> (Inr x, s'))"

text \<open>\<open>try: m / except ...\<close>: the handler names what it catches.\<close>

definition tx_catch :: "'a tx \<Rightarrow> (exn \<Rightarrow> 'a tx option) \<Rightarrow> 'a tx" where
  "tx_catch m h s =
     (case m s of
        (Inl e, s') \<Rightarrow> (case h e of None \<Rightarrow> (Inl e, s') | Some m' \<Rightarrow> m' s')
      | (Inr x, s') \<Rightarrow> (Inr x, s'))"

definition tx_lift :: "'a outcome \<Rightarrow> 'a tx" where
  "tx_lift r s = (r, s)"

text \<open>Other transactions commit while this one has written nothing.\<close>

definition others_commit :: "(database \<Rightarrow> database) \<Rightarrow> unit tx" where
  "others_commit f s = (Inr (), s\<lparr>committed := f (committed s), working := f (committed s)\<rparr>)"

text \<open>\<open>async with session_factory() as session\<close>: the connection's side of it.\<close>

record connection =
  conn_now :: time
  conn_locked :: "uuid list"
  conn_replies :: "db_reply list"

definition begin_session :: "database \<Rightarrow> connection \<Rightarrow> session" where
  "begin_session d c =
     \<lparr>committed = d, working = d, tx_now = conn_now c, locked_rows = conn_locked c,
      replies = conn_replies c\<rparr>"

definition in_session :: "'a tx \<Rightarrow> connection \<Rightarrow> database \<Rightarrow> 'a outcome \<times> database" where
  "in_session m c d = (case m (begin_session d c) of (r, s) \<Rightarrow> (r, committed s))"

definition healthy :: "time \<Rightarrow> connection" where
  "healthy now = \<lparr>conn_now = now, conn_locked = [], conn_replies = []\<rparr>"

subsection \<open>Weakest preconditions\<close>

text \<open>
  \<open>wp m Q E s\<close>: run from \<open>s\<close>, \<open>m\<close> returns a value and a session that satisfy \<open>Q\<close>, or
  raises an exception in a session that satisfies \<open>E\<close>. The equations push it through the
  combinators, so that a property of a whole handler becomes one condition per path.
\<close>

definition wp :: "'a tx \<Rightarrow> ('a \<Rightarrow> session \<Rightarrow> bool) \<Rightarrow> (exn \<Rightarrow> session \<Rightarrow> bool) \<Rightarrow> session \<Rightarrow> bool" where
  "wp m Q E s = (case m s of (Inl e, s') \<Rightarrow> E e s' | (Inr x, s') \<Rightarrow> Q x s')"

lemma wp_return [tx_simps]: "wp (tx_return x) Q E = Q x"
  by (simp add: wp_def tx_return_def fun_eq_iff)

lemma wp_raise [tx_simps]: "wp (tx_raise e) Q E = E e"
  by (simp add: wp_def tx_raise_def fun_eq_iff)

lemma wp_bind [tx_simps]: "wp (tx_bind m f) Q E = wp m (\<lambda>x. wp (f x) Q E) E"
  by (simp add: wp_def tx_bind_def fun_eq_iff split: prod.splits sum.splits)

lemma wp_rollback [tx_simps]: "wp rollback Q E = (\<lambda>s. Q () (s\<lparr>working := committed s\<rparr>))"
  by (simp add: wp_def rollback_def fun_eq_iff)

lemma wp_rollback_on_error [tx_simps]:
  "wp (rollback_on_error m) Q E =
     wp m Q (\<lambda>e s'. E e (if is_exception e then s'\<lparr>working := committed s'\<rparr> else s'))"
  by (simp add: wp_def rollback_on_error_def rollback_def fun_eq_iff split: prod.splits sum.splits)

lemma wp_catch [tx_simps]:
  "wp (tx_catch m h) Q E =
     wp m Q (\<lambda>e. case h e of None \<Rightarrow> E e | Some m' \<Rightarrow> wp m' Q E)"
  by (simp add: wp_def tx_catch_def fun_eq_iff split: prod.splits sum.splits option.splits)

lemma wp_lift [tx_simps]: "wp (tx_lift r) Q E = (case r of Inl e \<Rightarrow> E e | Inr x \<Rightarrow> Q x)"
  by (simp add: wp_def tx_lift_def fun_eq_iff split: sum.splits)

lemma wp_others_commit [tx_simps]:
  "wp (others_commit f) Q E =
     (\<lambda>s. Q () (s\<lparr>committed := f (committed s), working := f (committed s)\<rparr>))"
  by (simp add: wp_def others_commit_def fun_eq_iff)

text \<open>For a statement and a commit the schedule is forgotten: whatever it says, the call
  succeeds, or it raises something.\<close>

lemma wp_statementI:
  assumes "\<And>e rs. E e (s\<lparr>replies := rs\<rparr>)"
    and "\<And>x d rs. f s (working s) = Inr (x, d) \<Longrightarrow> Q x (s\<lparr>replies := rs, working := d\<rparr>)"
  shows "wp (statement f) Q E s"
proof -
  obtain rs where "snd (next_reply s) = s\<lparr>replies := rs\<rparr>"
    by (cases "replies s") (auto simp: next_reply_def intro: that [of "replies s"])
  with assms show ?thesis
    by (auto simp: wp_def statement_def split: prod.splits db_reply.splits sum.splits)
qed

lemma wp_commitI:
  assumes "\<And>e rs. E e (s\<lparr>replies := rs\<rparr>)" and "\<And>e rs. E e (s\<lparr>replies := rs, committed := working s\<rparr>)"
    and "\<And>rs. Q () (s\<lparr>replies := rs, committed := working s\<rparr>)"
  shows "wp commit Q E s"
proof -
  obtain rs where "snd (next_reply s) = s\<lparr>replies := rs\<rparr>"
    by (cases "replies s") (auto simp: next_reply_def intro: that [of "replies s"])
  with assms show ?thesis
    by (auto simp: wp_def commit_def split: prod.splits db_reply.splits)
qed

lemmas wp_intros = wp_statementI wp_commitI

lemma wp_mono:
  "wp m Q E s \<Longrightarrow> (\<And>x s'. Q x s' \<Longrightarrow> Q' x s') \<Longrightarrow> (\<And>e s'. E e s' \<Longrightarrow> E' e s') \<Longrightarrow> wp m Q' E' s"
  by (auto simp: wp_def split: prod.splits sum.splits)

text \<open>What holds of the committed database on every path holds of the result of the session.\<close>

lemma in_sessionI:
  assumes "wp m (\<lambda>x s. P (Inr x) (committed s)) (\<lambda>e s. P (Inl e) (committed s)) (begin_session d c)"
  shows "P (fst (in_session m c d)) (snd (in_session m c d))"
  using assms by (auto simp: wp_def in_session_def split: prod.splits sum.splits)

lemma begin_session_simps [simp]:
  "committed (begin_session d c) = d" "working (begin_session d c) = d"
  "tx_now (begin_session d c) = conn_now c" "locked_rows (begin_session d c) = conn_locked c"
  "replies (begin_session d c) = conn_replies c"
  by (simp_all add: begin_session_def)

lemma healthy_simps [simp]:
  "conn_now (healthy t) = t" "conn_locked (healthy t) = []" "conn_replies (healthy t) = []"
  by (simp_all add: healthy_def)

text \<open>With a connection that answers, a handler runs through: these equations evaluate it.\<close>

lemma statement_answered:
  "replies s = [] \<Longrightarrow> statement f s =
     (case f s (working s) of Inl e \<Rightarrow> (Inl e, s) | Inr (x, d) \<Rightarrow> (Inr x, s\<lparr>working := d\<rparr>))"
  by (simp add: statement_def next_reply_def)

lemma commit_answered: "replies s = [] \<Longrightarrow> commit s = (Inr (), s\<lparr>committed := working s\<rparr>)"
  by (simp add: commit_def next_reply_def)

lemmas tx_run =
  in_session_def statement_answered commit_answered tx_bind_def tx_return_def tx_raise_def
  rollback_on_error_def rollback_def tx_catch_def tx_lift_def others_commit_def

end
