(* ===== verification/Repositories.thy ===== *)
theory Repositories
  imports Session "HOL-Library.Product_Lexorder"
begin

text \<open>
  \<open>app/repositories\<close>: the queries and updates of \<open>PaymentRepository\<close> and
  \<open>OutboxRepository\<close>, as statements of a session. \<open>FOR UPDATE\<close> makes the transaction wait for
  the row, which the step-by-step reading of transactions already expresses;
  \<open>skip_locked\<close> leaves out the rows of \<open>locked_rows\<close>. The
  lemmas show that under the table constraints each query by key has at most one answer.
\<close>

fun scalar_one_or_none :: "'a list \<Rightarrow> 'a option outcome" where
  "scalar_one_or_none [] = Inr None"
| "scalar_one_or_none [x] = Inr (Some x)"
| "scalar_one_or_none _ = Inl (OtherException ''MultipleResultsFound'')"

definition select_payment :: "(payment \<Rightarrow> bool) \<Rightarrow> payment option tx" where
  "select_payment p =
     statement (\<lambda>_ d. case scalar_one_or_none (filter p (payments d)) of
                        Inl e \<Rightarrow> Inl e
                      | Inr r \<Rightarrow> Inr (r, d))"

subsection \<open>Payments\<close>

definition get_by_idempotency_key :: "string \<Rightarrow> payment option tx" where
  "get_by_idempotency_key key = select_payment (\<lambda>p. p_idempotency_key p = key)"

definition get_by_id :: "uuid \<Rightarrow> payment option tx" where
  "get_by_id payment_id = select_payment (\<lambda>p. p_id p = payment_id)"

definition get_by_id_for_update :: "uuid \<Rightarrow> payment option tx" where
  "get_by_id_for_update payment_id = select_payment (\<lambda>p. p_id p = payment_id)"

text \<open>\<open>session.add(payment)\<close> and the flush: the \<open>INSERT\<close> fills in the server defaults.\<close>

definition add_payment :: "payment \<Rightarrow> payment tx" where
  "add_payment payment =
     statement (\<lambda>s d.
       let row = payment\<lparr>p_created_at := tx_now s, p_updated_at := tx_now s\<rparr>
       in case insert_payment row d of Inl e \<Rightarrow> Inl e | Inr d' \<Rightarrow> Inr (row, d'))"

text \<open>The flush of a loaded row whose attributes were assigned.\<close>

definition flush_payment :: "payment \<Rightarrow> unit tx" where
  "flush_payment p =
     statement (\<lambda>s d. case update_payment (tx_now s) p d of Inl e \<Rightarrow> Inl e | Inr d' \<Rightarrow> Inr ((), d'))"

fun update_payments :: "time \<Rightarrow> payment list \<Rightarrow> database \<Rightarrow> database outcome" where
  "update_payments now [] d = Inr d"
| "update_payments now (p # ps) d =
     (case update_payment now p d of Inl e \<Rightarrow> Inl e | Inr d' \<Rightarrow> update_payments now ps d')"

definition flush_payments :: "payment list \<Rightarrow> unit tx" where
  "flush_payments ps =
     statement (\<lambda>s d. case update_payments (tx_now s) ps d of Inl e \<Rightarrow> Inl e | Inr d' \<Rightarrow> Inr ((), d'))"

definition lease_expired :: "time \<Rightarrow> payment \<Rightarrow> bool" where
  "lease_expired lease_expired_before p =
     (case p_reconciliation_lease_until p of None \<Rightarrow> True | Some t \<Rightarrow> t \<le> lease_expired_before)"

definition claimable :: "time \<Rightarrow> time \<Rightarrow> payment \<Rightarrow> bool" where
  "claimable stale_before lease_expired_before p \<longleftrightarrow>
     p_status p = UNKNOWN \<and> \<not> p_requires_manual_review p \<and> p_updated_at p \<le> stale_before \<and>
     lease_expired lease_expired_before p"

definition set_lease :: "uuid \<Rightarrow> time \<Rightarrow> payment \<Rightarrow> payment" where
  "set_lease lease_token lease_until p =
     p\<lparr>p_reconciliation_lease_token := Some lease_token,
       p_reconciliation_lease_until := Some lease_until\<rparr>"

definition select_claimable :: "time \<Rightarrow> time \<Rightarrow> int \<Rightarrow> uuid list \<Rightarrow> database \<Rightarrow> payment list" where
  "select_claimable stale_before lease_expired_before batch_size locked d =
     select_rows
       (\<lambda>p. claimable stale_before lease_expired_before p \<and> p_id p \<notin> set locked)
       (\<lambda>p. (p_updated_at p, p_id p)) (nat batch_size) (payments d)"

definition claim_reconciliation_batch ::
  "time \<Rightarrow> time \<Rightarrow> uuid \<Rightarrow> time \<Rightarrow> int \<Rightarrow> uuid list tx" where
  "claim_reconciliation_batch stale_before lease_expired_before lease_token lease_until batch_size =
     tx_bind
       (statement (\<lambda>s d.
          Inr (select_claimable stale_before lease_expired_before batch_size (locked_rows s) d, d)))
       (\<lambda>ps. tx_bind (flush_payments (map (set_lease lease_token lease_until) ps))
               (\<lambda>_. tx_return (map p_id ps)))"

definition lease_held :: "uuid \<Rightarrow> uuid \<Rightarrow> time \<Rightarrow> payment \<Rightarrow> bool" where
  "lease_held payment_id lease_token now p \<longleftrightarrow>
     p_id p = payment_id \<and> p_status p = UNKNOWN \<and> \<not> p_requires_manual_review p \<and>
     p_reconciliation_lease_token p = Some lease_token \<and>
     (case p_reconciliation_lease_until p of None \<Rightarrow> False | Some t \<Rightarrow> t > now)"

text \<open>\<open>UPDATE ... RETURNING id\<close>; \<open>onupdate\<close> applies to this statement too.\<close>

definition renew_reconciliation_lease :: "uuid \<Rightarrow> uuid \<Rightarrow> time \<Rightarrow> time \<Rightarrow> bool tx" where
  "renew_reconciliation_lease payment_id lease_token now lease_until =
     statement (\<lambda>s d.
       case scalar_one_or_none (filter (lease_held payment_id lease_token now) (payments d)) of
         Inl e \<Rightarrow> Inl e
       | Inr r \<Rightarrow>
           Inr (r \<noteq> None,
                d\<lparr>payments := map (\<lambda>p. if lease_held payment_id lease_token now p
                    then p\<lparr>p_reconciliation_lease_until := Some lease_until,
                           p_updated_at := tx_now s\<rparr>
                    else p) (payments d)\<rparr>))"

definition get_claimed_payment_for_update :: "uuid \<Rightarrow> uuid \<Rightarrow> time \<Rightarrow> payment option tx" where
  "get_claimed_payment_for_update payment_id lease_token now =
     select_payment (lease_held payment_id lease_token now)"

subsection \<open>Outbox\<close>

text \<open>\<open>add\<close>: an event given no \<open>created_at\<close> gets the server default.\<close>

definition add_outbox_event :: "time option \<Rightarrow> outbox_event \<Rightarrow> outbox_event tx" where
  "add_outbox_event created_at event =
     statement (\<lambda>s d.
       let row = event\<lparr>o_created_at := (case created_at of None \<Rightarrow> tx_now s | Some t \<Rightarrow> t)\<rparr>
       in case insert_outbox_event row d of Inl e \<Rightarrow> Inl e | Inr d' \<Rightarrow> Inr (row, d'))"

definition select_unpublished :: "int \<Rightarrow> uuid list \<Rightarrow> database \<Rightarrow> outbox_event list" where
  "select_unpublished batch_size locked d =
     select_rows (\<lambda>ev. o_published_at ev = None \<and> o_id ev \<notin> set locked)
       (\<lambda>ev. (o_created_at ev, o_id ev)) (nat batch_size) (outbox_events d)"

definition get_unpublished_batch :: "int \<Rightarrow> outbox_event list tx" where
  "get_unpublished_batch batch_size =
     (if batch_size < 1 then tx_raise (ValueError ''batch_size must be at least 1'')
      else statement (\<lambda>s d. Inr (select_unpublished batch_size (locked_rows s) d, d)))"

definition mark_published :: "time \<Rightarrow> outbox_event \<Rightarrow> outbox_event" where
  "mark_published now event = event\<lparr>o_published_at := Some now\<rparr>"

definition flush_outbox :: "outbox_event list \<Rightarrow> unit tx" where
  "flush_outbox evs = statement (\<lambda>_ d. Inr ((), fold update_outbox_event evs d))"

subsection \<open>Queries by key\<close>

lemma scalar_one_or_none_Some:
  "scalar_one_or_none xs = Inr (Some x) \<longleftrightarrow> xs = [x]"
  by (cases xs rule: scalar_one_or_none.cases) auto

lemma scalar_one_or_none_None: "scalar_one_or_none xs = Inr None \<longleftrightarrow> xs = []"
  by (cases xs rule: scalar_one_or_none.cases) auto

lemma scalar_filter_SomeD:
  "scalar_one_or_none (filter p xs) = Inr (Some x) \<Longrightarrow> x \<in> set xs \<and> p x"
  by (auto simp: scalar_one_or_none_Some filter_eq_Cons_iff)

lemma scalar_filter_unique:
  assumes "\<And>x y. x \<in> set xs \<Longrightarrow> y \<in> set xs \<Longrightarrow> p x \<Longrightarrow> p y \<Longrightarrow> x = y" and "distinct xs"
  shows "scalar_one_or_none (filter p xs) = Inr (find p xs)"
  using assms
proof (induction xs)
  case (Cons a xs)
  show ?case
  proof (cases "p a")
    case True
    have "filter p xs = []"
      using Cons.prems True by (metis distinct.simps(2) filter_False list.set_intros)
    with True show ?thesis by simp
  next
    case False
    have "scalar_one_or_none (filter p xs) = Inr (find p xs)"
      by (rule Cons.IH) (use Cons.prems in auto)
    with False show ?thesis by simp
  qed
qed simp

lemma select_by_id:
  "distinct (map p_id ps) \<Longrightarrow>
     scalar_one_or_none (filter (\<lambda>p. p_id p = i) ps) = Inr (find_row p_id i ps)"
  unfolding find_row_def
  by (rule scalar_filter_unique) (auto simp: distinct_map dest: inj_onD)

lemma select_by_key:
  "constraints_ok d \<Longrightarrow>
     scalar_one_or_none (filter (\<lambda>p. p_idempotency_key p = k) (payments d)) =
     Inr (find_row p_idempotency_key k (payments d))"
  unfolding find_row_def
  by (rule scalar_filter_unique) (auto intro: unique_key simp: constraints_ok_def distinct_map)

lemma select_id_run:
  assumes "constraints_ok (working s)" and "replies s = []"
  shows "select_payment (\<lambda>p. p_id p = i) s = (Inr (find_row p_id i (payments (working s))), s)"
  using assms
  by (simp add: select_payment_def statement_answered select_by_id constraints_ok_def)

lemma lease_held_props:
  "lease_held i k t p \<Longrightarrow>
     p_id p = i \<and> p_status p = UNKNOWN \<and> \<not> p_requires_manual_review p \<and>
     p_reconciliation_lease_token p = Some k"
  by (simp add: lease_held_def)

lemma select_claimable_props:
  assumes "p \<in> set (select_claimable a b n l d)"
  shows "p \<in> set (payments d)" and "claimable a b p" and "p_id p \<notin> set l"
  using set_select_rows [OF assms [unfolded select_claimable_def]] by auto

lemma select_unpublished_props:
  assumes "ev \<in> set (select_unpublished n l d)"
  shows "ev \<in> set (outbox_events d)" and "o_published_at ev = None" and "o_id ev \<notin> set l"
  using set_select_rows [OF assms [unfolded select_unpublished_def]] by auto

lemmas repository_defs =
  get_by_idempotency_key_def get_by_id_def get_by_id_for_update_def select_payment_def
  add_payment_def flush_payment_def add_outbox_event_def get_claimed_payment_for_update_def

end
