(* ===== verification/Lifecycle.thy ===== *)
theory Lifecycle
  imports Repositories
begin

text \<open>
  The abstract specification of the database: the life of a payment and of its events.

  \<open>db_step\<close> says which single changes the database may go through: a payment is created
  together with its processing event, becomes \<open>UNKNOWN\<close>, is resolved together with its webhook
  event, has its webhook recorded as sent, is leased, loses a lease with a failed attempt, and
  an event is marked as published. \<open>db_inv\<close> is the invariant of these steps and \<open>history_le\<close>
  what they keep of the past. The locale \<open>transaction\<close> is the contract of the program's
  transactions: whatever the connection answers, what a session leaves in the database is
  reached by such steps. Each transaction of the program is an instance of it, in the theory of
  its component.
\<close>

definition terminal :: "payment_status \<Rightarrow> bool" where
  "terminal st \<longleftrightarrow> st = SUCCEEDED \<or> st = FAILED"

lemma terminal_simps [simp]:
  "terminal SUCCEEDED" "terminal FAILED" "\<not> terminal PENDING" "\<not> terminal UNKNOWN"
  by (simp_all add: terminal_def)

subsection \<open>Steps\<close>

definition fresh_payment :: "payment \<Rightarrow> bool" where
  "fresh_payment p \<longleftrightarrow>
     p_status p = PENDING \<and> p_webhook_event_id p = None \<and> p_webhook_sent_at p = None \<and>
     p_provider_payment_id p = None \<and> p_processed_at p = None \<and>
     p_reconciliation_attempts p = 0 \<and> \<not> p_requires_manual_review p \<and>
     p_reconciliation_lease_token p = None \<and> p_reconciliation_lease_until p = None"

text \<open>An unpublished event about a payment whose payload validates to a first-attempt envelope
  that agrees with the columns.\<close>

definition payload_of :: "outbox_event \<Rightarrow> bool" where
  "payload_of ev \<longleftrightarrow>
     (case envelope_validate (o_payload ev) of
        None \<Rightarrow> False
      | Some e \<Rightarrow> e_event_id e = o_id ev \<and> e_event_type e = o_event_type ev \<and>
          e_payment_id e = o_payment_id ev \<and> e_attempt e = 1)"

definition new_event :: "event_type \<Rightarrow> uuid \<Rightarrow> outbox_event \<Rightarrow> bool" where
  "new_event t payment_id ev \<longleftrightarrow>
     o_event_type ev = t \<and> o_payment_id ev = payment_id \<and> o_published_at ev = None \<and> payload_of ev"

inductive row_step :: "payment \<Rightarrow> payment \<Rightarrow> bool" where
  ambiguous: "p_status p = PENDING \<Longrightarrow>
     row_step p (p\<lparr>p_status := UNKNOWN, p_updated_at := t\<rparr>)"
| sent: "terminal (p_status p) \<Longrightarrow> p_webhook_sent_at p = None \<Longrightarrow>
     row_step p (p\<lparr>p_webhook_sent_at := Some w, p_updated_at := t\<rparr>)"
| leased: "p_status p = UNKNOWN \<Longrightarrow> \<not> p_requires_manual_review p \<Longrightarrow>
     row_step p (p\<lparr>p_reconciliation_lease_token := Some k, p_reconciliation_lease_until := Some u,
                   p_updated_at := t\<rparr>)"
| unanswered: "p_status p = UNKNOWN \<Longrightarrow> \<not> p_requires_manual_review p \<Longrightarrow>
     row_step p (p\<lparr>p_reconciliation_attempts := p_reconciliation_attempts p + 1,
                   p_requires_manual_review := m, p_reconciliation_lease_token := None,
                   p_reconciliation_lease_until := None, p_updated_at := t\<rparr>)"

definition resolved :: "payment_status \<Rightarrow> uuid \<Rightarrow> time \<Rightarrow> uuid \<Rightarrow> time \<Rightarrow> payment \<Rightarrow> payment" where
  "resolved st provider_id processed event_id t p =
     p\<lparr>p_status := st, p_provider_payment_id := Some provider_id, p_processed_at := Some processed,
       p_webhook_event_id := Some event_id, p_reconciliation_lease_token := None,
       p_reconciliation_lease_until := None, p_updated_at := t\<rparr>"

inductive db_step :: "database \<Rightarrow> database \<Rightarrow> bool" where
  create: "fresh_payment p \<Longrightarrow> new_event PAYMENT_PROCESS_REQUESTED (p_id p) ev \<Longrightarrow>
     insert_payment p d = Inr d1 \<Longrightarrow> insert_outbox_event ev d1 = Inr d2 \<Longrightarrow> db_step d d2"
| change: "p \<in> set (payments d) \<Longrightarrow> row_step p p' \<Longrightarrow>
     db_step d (d\<lparr>payments := replace_row p_id p' (payments d)\<rparr>)"
| resolve: "p \<in> set (payments d) \<Longrightarrow> p_status p = PENDING \<or> p_status p = UNKNOWN \<Longrightarrow>
     \<not> p_requires_manual_review p \<Longrightarrow> terminal st \<Longrightarrow>
     p' = resolved st provider_id processed (o_id ev) t p \<Longrightarrow>
     \<not> conflicts p' (payments d) \<Longrightarrow>
     new_event WEBHOOK_DELIVERY_REQUESTED (p_id p) ev \<Longrightarrow>
     insert_outbox_event ev (d\<lparr>payments := replace_row p_id p' (payments d)\<rparr>) = Inr d2 \<Longrightarrow>
     db_step d d2"
| publish: "ev \<in> set (outbox_events d) \<Longrightarrow> o_published_at ev = None \<Longrightarrow>
     db_step d (update_outbox_event (ev\<lparr>o_published_at := Some t\<rparr>) d)"

inductive_cases row_stepE: "row_step p p'"
inductive_cases db_stepE: "db_step d d'"

subsection \<open>The invariant\<close>

definition row_ok :: "payment \<Rightarrow> bool" where
  "row_ok p \<longleftrightarrow>
     (terminal (p_status p) \<longleftrightarrow> p_webhook_event_id p \<noteq> None) \<and>
     (terminal (p_status p) \<longleftrightarrow> p_provider_payment_id p \<noteq> None) \<and>
     (terminal (p_status p) \<longleftrightarrow> p_processed_at p \<noteq> None) \<and>
     (p_webhook_sent_at p \<noteq> None \<longrightarrow> terminal (p_status p)) \<and>
     (p_requires_manual_review p \<longrightarrow> p_status p = UNKNOWN) \<and>
     (p_reconciliation_lease_token p = None \<longleftrightarrow> p_reconciliation_lease_until p = None) \<and>
     (p_reconciliation_lease_token p \<noteq> None \<longrightarrow>
        p_status p = UNKNOWN \<and> \<not> p_requires_manual_review p) \<and>
     0 \<le> p_reconciliation_attempts p \<and>
     (p_status p = PENDING \<longrightarrow> p_reconciliation_attempts p = 0)"

text \<open>An event belongs to a payment; a webhook event is the one its payment names.\<close>

definition event_of :: "outbox_event \<Rightarrow> payment \<Rightarrow> bool" where
  "event_of ev p \<longleftrightarrow>
     o_payment_id ev = p_id p \<and>
     (o_event_type ev = WEBHOOK_DELIVERY_REQUESTED \<longrightarrow> p_webhook_event_id p = Some (o_id ev))"

definition requested_by :: "payment \<Rightarrow> outbox_event \<Rightarrow> bool" where
  "requested_by p ev \<longleftrightarrow> o_event_type ev = PAYMENT_PROCESS_REQUESTED \<and> o_payment_id ev = p_id p"

definition outbox_ok :: "database \<Rightarrow> bool" where
  "outbox_ok d \<longleftrightarrow>
     (\<forall>ev \<in> set (outbox_events d). payload_of ev \<and> (\<exists>p \<in> set (payments d). event_of ev p)) \<and>
     (\<forall>p \<in> set (payments d).
        (\<exists>ev \<in> set (outbox_events d). requested_by p ev) \<and>
        (\<forall>ev \<in> set (outbox_events d). \<forall>ev' \<in> set (outbox_events d).
           requested_by p ev \<longrightarrow> requested_by p ev' \<longrightarrow> o_id ev = o_id ev') \<and>
        (\<forall>w. p_webhook_event_id p = Some w \<longrightarrow>
           (\<exists>ev \<in> set (outbox_events d). o_id ev = w \<and> o_event_type ev = WEBHOOK_DELIVERY_REQUESTED \<and>
              o_payment_id ev = p_id p)))"

definition db_inv :: "database \<Rightarrow> bool" where
  "db_inv d \<longleftrightarrow> constraints_ok d \<and> (\<forall>p \<in> set (payments d). row_ok p) \<and> outbox_ok d"

definition empty_database :: database where
  "empty_database = \<lparr>payments = [], outbox_events = []\<rparr>"

lemma empty_database_inv: "db_inv empty_database"
  by (simp add: db_inv_def empty_database_def constraints_ok_def outbox_ok_def)

lemma fresh_payment_ok: "fresh_payment p \<Longrightarrow> row_ok p"
  by (simp add: fresh_payment_def row_ok_def)

lemma row_step_ok: "row_step p p' \<Longrightarrow> row_ok p \<Longrightarrow> row_ok p'"
  by (induction rule: row_step.induct) (auto simp: row_ok_def terminal_def)

lemma resolved_ok: "row_ok p \<Longrightarrow> \<not> p_requires_manual_review p \<Longrightarrow> terminal st \<Longrightarrow> row_ok (resolved st i c w t p)"
  by (auto simp: row_ok_def resolved_def terminal_def)

text \<open>What a row step leaves alone.\<close>

lemma row_step_frame:
  "row_step p p' \<Longrightarrow>
     p_id p' = p_id p \<and> p_idempotency_key p' = p_idempotency_key p \<and>
     p_provider_payment_id p' = p_provider_payment_id p \<and>
     p_webhook_event_id p' = p_webhook_event_id p"
  by (induction rule: row_step.induct) simp_all

lemma row_step_same_unique:
  "row_step p p' \<Longrightarrow> same_unique p' q = same_unique p q \<and> same_unique q p' = same_unique q p"
  using row_step_frame [of p p'] by (simp add: same_unique_def)

subsection \<open>Every step keeps the invariant\<close>

lemma payments_replace:
  assumes "p \<in> set ps" and "p_id p' = p_id p"
  shows "q \<in> set (replace_row p_id p' ps) \<longleftrightarrow> q = p' \<or> (q \<in> set ps \<and> p_id q \<noteq> p_id p)"
  using assms by (auto simp: set_replace_row)

lemma constraints_replace:
  assumes c: "constraints_ok d" and p: "p \<in> set (payments d)" and id: "p_id p' = p_id p"
    and u: "\<And>q. q \<in> set (payments d) \<Longrightarrow> p_id q \<noteq> p_id p \<Longrightarrow> \<not> same_unique p' q"
  shows "constraints_ok (d\<lparr>payments := replace_row p_id p' (payments d)\<rparr>)"
proof -
  have "same_unique x y \<longrightarrow> p_id y = p_id x"
    if "x \<in> set (replace_row p_id p' (payments d))" "y \<in> set (replace_row p_id p' (payments d))" for x y
    using that u u [THEN contrapos_nn, OF _ _ same_unique_sym [THEN iffD1]] c id
    unfolding payments_replace [OF p id] constraints_ok_iff by metis
  with c show ?thesis by (simp add: constraints_ok_iff)
qed

lemma constraints_change:
  assumes "constraints_ok d" and "p \<in> set (payments d)" and "row_step p p'"
  shows "constraints_ok (d\<lparr>payments := replace_row p_id p' (payments d)\<rparr>)"
proof (rule constraints_replace [OF assms(1,2)])
  show "p_id p' = p_id p" using row_step_frame [OF assms(3)] by simp
  show "\<not> same_unique p' q" if "q \<in> set (payments d)" "p_id q \<noteq> p_id p" for q
    using that constraints_unique [OF assms(1,2) that(1)] row_step_same_unique [OF assms(3)] by auto
qed

lemma constraints_resolve:
  assumes "constraints_ok d" and "p \<in> set (payments d)" and "p_id p' = p_id p"
    and "\<not> conflicts p' (payments d)"
  shows "constraints_ok (d\<lparr>payments := replace_row p_id p' (payments d)\<rparr>)"
  by (rule constraints_replace [OF assms(1-3)]) (use assms(3,4) in \<open>auto simp: conflicts_iff\<close>)

lemma insert_outbox_event_Inr:
  "insert_outbox_event ev d = Inr d' \<longleftrightarrow>
     o_id ev \<notin> o_id ` set (outbox_events d) \<and> d' = d\<lparr>outbox_events := outbox_events d @ [ev]\<rparr>"
  by (auto simp: insert_outbox_event_def)

lemma insert_payment_Inr:
  "insert_payment p d = Inr d' \<longleftrightarrow>
     p_id p \<notin> p_id ` set (payments d) \<and> \<not> conflicts p (payments d) \<and>
     d' = d\<lparr>payments := payments d @ [p]\<rparr>"
  by (auto simp: insert_payment_def)

text \<open>
  The outbox conditions look at a payment's id and webhook event and at an event's columns other
  than the time of publication only: they are conditions on these two views.
\<close>

definition payment_view :: "database \<Rightarrow> (uuid \<times> uuid option) set" where
  "payment_view d = (\<lambda>p. (p_id p, p_webhook_event_id p)) ` set (payments d)"

definition event_view :: "database \<Rightarrow> (uuid \<times> event_type \<times> uuid \<times> bool) set" where
  "event_view d =
     (\<lambda>ev. (o_id ev, o_event_type ev, o_payment_id ev, payload_of ev)) ` set (outbox_events d)"

definition events_owned :: "(uuid \<times> uuid option) set \<Rightarrow> (uuid \<times> event_type \<times> uuid \<times> bool) set \<Rightarrow> bool" where
  "events_owned P E \<longleftrightarrow>
     (\<forall>(i, t, q, ok) \<in> E. ok \<and>
        (\<exists>(q', w) \<in> P. q = q' \<and> (t = WEBHOOK_DELIVERY_REQUESTED \<longrightarrow> w = Some i)))"

definition covered :: "uuid \<Rightarrow> uuid option \<Rightarrow> (uuid \<times> event_type \<times> uuid \<times> bool) set \<Rightarrow> bool" where
  "covered q w E \<longleftrightarrow>
     (\<exists>(i, t, q', ok) \<in> E. t = PAYMENT_PROCESS_REQUESTED \<and> q' = q) \<and>
     (\<forall>(i, t, q', ok) \<in> E. \<forall>(i', t', q'', ok') \<in> E.
        t = PAYMENT_PROCESS_REQUESTED \<and> q' = q \<longrightarrow>
        t' = PAYMENT_PROCESS_REQUESTED \<and> q'' = q \<longrightarrow> i = i') \<and>
     (\<forall>v. w = Some v \<longrightarrow>
        (\<exists>(i, t, q', ok) \<in> E. i = v \<and> t = WEBHOOK_DELIVERY_REQUESTED \<and> q' = q))"

definition payments_covered :: "(uuid \<times> uuid option) set \<Rightarrow> (uuid \<times> event_type \<times> uuid \<times> bool) set \<Rightarrow> bool" where
  "payments_covered P E \<longleftrightarrow> (\<forall>(q, w) \<in> P. covered q w E)"

lemma covered_other:
  assumes "covered q w E" and "q' \<noteq> q"
  shows "covered q w (insert (i, t, q', ok) E)"
  using assms unfolding covered_def by auto

lemma covered_first:
  assumes "\<And>i t q' ok. (i, t, q', ok) \<in> E \<Longrightarrow> q' \<noteq> q"
  shows "covered q None (insert (i, PAYMENT_PROCESS_REQUESTED, q, ok) E)"
  using assms unfolding covered_def by auto

lemma covered_webhook:
  assumes "covered q None E"
  shows "covered q (Some i) (insert (i, WEBHOOK_DELIVERY_REQUESTED, q, ok) E)"
  using assms unfolding covered_def by auto

lemma outbox_ok_views:
  "outbox_ok d \<longleftrightarrow> events_owned (payment_view d) (event_view d) \<and>
     payments_covered (payment_view d) (event_view d)"
  by (simp add: outbox_ok_def events_owned_def payments_covered_def covered_def payment_view_def
      event_view_def event_of_def requested_by_def)

lemma payment_view_replace:
  assumes "p \<in> set (payments d)" and "p_id p' = p_id p" and "constraints_ok d"
  shows "payment_view (d\<lparr>payments := replace_row p_id p' (payments d)\<rparr>) =
     insert (p_id p, p_webhook_event_id p') {v \<in> payment_view d. fst v \<noteq> p_id p}"
proof -
  have "set (replace_row p_id p' (payments d)) = insert p' {q \<in> set (payments d). p_id q \<noteq> p_id p}"
    using payments_replace [OF assms(1,2)] by blast
  then show ?thesis by (auto simp: payment_view_def assms(2))
qed

lemma payment_view_same:
  assumes "p \<in> set (payments d)" and "p_id p' = p_id p" and "constraints_ok d"
    and "p_webhook_event_id p' = p_webhook_event_id p"
  shows "payment_view (d\<lparr>payments := replace_row p_id p' (payments d)\<rparr>) = payment_view d"
proof -
  have "p_webhook_event_id q = p_webhook_event_id p"
    if "q \<in> set (payments d)" "p_id q = p_id p" for q
    using that assms(1,3) inj_onD [of p_id "set (payments d)" q p]
    by (simp add: constraints_ok_iff distinct_map)
  then have "v = (p_id p, p_webhook_event_id p)" if "v \<in> payment_view d" "fst v = p_id p" for v
    using that by (auto simp: payment_view_def)
  moreover have "(p_id p, p_webhook_event_id p) \<in> payment_view d"
    using assms(1) by (simp add: payment_view_def)
  ultimately show ?thesis
    unfolding payment_view_replace [OF assms(1-3)] assms(4) by blast
qed

lemma event_view_payments [simp]: "event_view (d\<lparr>payments := ps\<rparr>) = event_view d"
  by (simp add: event_view_def)

lemma payment_view_outbox [simp]: "payment_view (d\<lparr>outbox_events := evs\<rparr>) = payment_view d"
  by (simp add: payment_view_def)

lemma payload_of_published [simp]: "payload_of (ev\<lparr>o_published_at := t\<rparr>) = payload_of ev"
  by (simp add: payload_of_def cong: option.case_cong)

lemma event_view_published:
  assumes "ev \<in> set (outbox_events d)" and "constraints_ok d"
  shows "event_view (update_outbox_event (ev\<lparr>o_published_at := t\<rparr>) d) = event_view d"
proof -
  let ?f = "\<lambda>ev. (o_id ev, o_event_type ev, o_payment_id ev, payload_of ev)"
  have "?f (if o_id x = o_id ev then ev\<lparr>o_published_at := t\<rparr> else x) = ?f x"
    if "x \<in> set (outbox_events d)" for x
    using that assms inj_onD [of o_id "set (outbox_events d)" x ev]
    by (auto simp: constraints_ok_def distinct_map)
  then have "map ?f (replace_row o_id (ev\<lparr>o_published_at := t\<rparr>) (outbox_events d)) =
      map ?f (outbox_events d)"
    by (simp add: replace_row_def)
  then have "set (map ?f (replace_row o_id (ev\<lparr>o_published_at := t\<rparr>) (outbox_events d))) =
      set (map ?f (outbox_events d))"
    by (simp only:)
  then show ?thesis by (simp add: event_view_def update_outbox_event_def)
qed

text \<open>The four kinds of step.\<close>

lemma outbox_create:
  assumes "outbox_ok d" and "p_id p \<notin> p_id ` set (payments d)" and "p_webhook_event_id p = None"
    and "new_event PAYMENT_PROCESS_REQUESTED (p_id p) ev"
  shows "outbox_ok (d\<lparr>payments := payments d @ [p], outbox_events := outbox_events d @ [ev]\<rparr>)"
proof -
  let ?E = "event_view d" and ?P = "payment_view d" and ?i = "p_id p"
  let ?v = "(o_id ev, PAYMENT_PROCESS_REQUESTED, ?i, True)"
  have views: "event_view (d\<lparr>payments := payments d @ [p], outbox_events := outbox_events d @ [ev]\<rparr>) = insert ?v ?E"
    "payment_view (d\<lparr>payments := payments d @ [p], outbox_events := outbox_events d @ [ev]\<rparr>) = insert (?i, None) ?P"
    using assms(3,4) by (auto simp: event_view_def payment_view_def new_event_def)
  have old: "events_owned ?P ?E" "payments_covered ?P ?E" using assms(1) by (simp_all add: outbox_ok_views)
  have new: "?i \<notin> fst ` ?P" using assms(2) by (force simp: payment_view_def)
  have noev: "q \<noteq> ?i" if "(i, t, q, ok) \<in> ?E" for i t q ok
    using old(1) new that by (force simp: events_owned_def)
  have "events_owned (insert (?i, None) ?P) (insert ?v ?E)"
    using old(1) by (fastforce simp: events_owned_def)
  moreover have "payments_covered (insert (?i, None) ?P) (insert ?v ?E)"
    unfolding payments_covered_def
  proof (clarify)
    fix q w assume "(q, w) \<in> insert (?i, None) ?P"
    then consider "q = ?i" "w = None" | "(q, w) \<in> ?P" "q \<noteq> ?i"
      using new by (force simp: image_iff)
    then show "covered q w (insert ?v ?E)"
    proof cases
      case 1
      then show ?thesis using covered_first noev by blast
    next
      case 2
      with old(2) have "covered q w ?E" unfolding payments_covered_def by blast
      with \<open>q \<noteq> ?i\<close> show ?thesis by (intro covered_other) auto
    qed
  qed
  ultimately show ?thesis by (simp only: outbox_ok_views views)
qed

lemma outbox_resolve:
  assumes "outbox_ok d" and c: "constraints_ok d" and p: "p \<in> set (payments d)"
    and "p_webhook_event_id p = None" and id: "p_id p' = p_id p"
    and "p_webhook_event_id p' = Some (o_id ev)"
    and "new_event WEBHOOK_DELIVERY_REQUESTED (p_id p) ev"
  shows "outbox_ok (d\<lparr>payments := replace_row p_id p' (payments d),
                      outbox_events := outbox_events d @ [ev]\<rparr>)" (is "outbox_ok ?d")
proof -
  let ?E = "event_view d" and ?P = "payment_view d" and ?i = "p_id p"
  let ?v = "(o_id ev, WEBHOOK_DELIVERY_REQUESTED, ?i, True)"
  let ?P' = "insert (?i, Some (o_id ev)) {v \<in> ?P. fst v \<noteq> ?i}"
  have views: "event_view ?d = insert ?v ?E" "payment_view ?d = ?P'"
    using assms(7) payment_view_replace [OF p id c] assms(6)
    by (auto simp: event_view_def new_event_def payment_view_def)
  have old: "events_owned ?P ?E" "payments_covered ?P ?E" using assms(1) by (simp_all add: outbox_ok_views)
  have none: "w = None" if "(?i, w) \<in> ?P" for w
  proof -
    from that obtain q where "q \<in> set (payments d)" "p_id q = ?i" "w = p_webhook_event_id q"
      by (auto simp: payment_view_def)
    with p c have "q = p" using inj_onD [of p_id "set (payments d)" q p]
      by (simp add: constraints_ok_iff distinct_map)
    with \<open>w = p_webhook_event_id q\<close> assms(4) show ?thesis by simp
  qed
  have mem: "(?i, None) \<in> ?P" using p assms(4) by (force simp: payment_view_def)
  have "events_owned ?P' (insert ?v ?E)"
    using old(1) none by (fastforce simp: events_owned_def)
  moreover have "payments_covered ?P' (insert ?v ?E)"
    unfolding payments_covered_def
  proof (clarify)
    fix q w assume "(q, w) \<in> ?P'"
    then consider "q = ?i" "w = Some (o_id ev)" | "(q, w) \<in> ?P" "q \<noteq> ?i" by auto
    then show "covered q w (insert ?v ?E)"
    proof cases
      case 1
      then show ?thesis
        using old(2) mem covered_webhook unfolding payments_covered_def by blast
    next
      case 2
      with old(2) have "covered q w ?E" unfolding payments_covered_def by blast
      with \<open>q \<noteq> ?i\<close> show ?thesis by (intro covered_other) auto
    qed
  qed
  ultimately show ?thesis by (simp only: outbox_ok_views views)
qed

lemma db_step_inv:
  assumes "db_step d d'" and "db_inv d"
  shows "db_inv d'"
  using assms
proof (induction rule: db_step.induct)
  case (create p ev d d1 d2)
  then have "constraints_ok d2"
    by (auto simp: db_inv_def intro: constraints_insert_payment constraints_insert_outbox)
  moreover have "outbox_ok d2"
    using create outbox_create [of d p ev]
    by (auto simp: db_inv_def insert_payment_Inr insert_outbox_event_Inr fresh_payment_def)
  moreover have "\<forall>q \<in> set (payments d2). row_ok q"
    using create by (auto simp: db_inv_def insert_payment_Inr insert_outbox_event_Inr fresh_payment_ok)
  ultimately show ?case by (simp add: db_inv_def)
next
  case (change p d p')
  then have c: "constraints_ok d" and o: "outbox_ok d" and r: "row_ok p'"
    by (auto simp: db_inv_def intro: row_step_ok)
  note frame = row_step_frame [OF change(2)]
  have "outbox_ok (d\<lparr>payments := replace_row p_id p' (payments d)\<rparr>)"
    using o payment_view_same [OF change(1) _ c, of p'] frame by (simp add: outbox_ok_views)
  moreover have "\<forall>q \<in> set (replace_row p_id p' (payments d)). row_ok q"
    using change.prems r payments_replace [OF change(1), of p'] frame by (auto simp: db_inv_def)
  ultimately show ?case using constraints_change [OF c change(1,2)] by (simp add: db_inv_def)
next
  case (resolve p d st p' provider_id processed ev t d2)
  then have c: "constraints_ok d" and o: "outbox_ok d" and rp: "row_ok p" by (auto simp: db_inv_def)
  have id: "p_id p' = p_id p" and w: "p_webhook_event_id p' = Some (o_id ev)"
    using resolve(5) by (simp_all add: resolved_def)
  have none: "p_webhook_event_id p = None"
    using rp resolve(2) by (auto simp: row_ok_def)
  have r: "row_ok p'" using resolved_ok [OF rp resolve(3,4)] resolve(5) by simp
  have d2: "d2 = d\<lparr>payments := replace_row p_id p' (payments d), outbox_events := outbox_events d @ [ev]\<rparr>"
    using resolve(8) by (simp add: insert_outbox_event_Inr)
  have "outbox_ok d2"
    unfolding d2 by (rule outbox_resolve [OF o c resolve(1) none id w resolve(7)])
  moreover have "constraints_ok d2"
    using constraints_resolve [OF c resolve(1) id resolve(6)] resolve(8) by (rule constraints_insert_outbox)
  moreover have "\<forall>q \<in> set (payments d2). row_ok q"
    using resolve.prems r payments_replace [OF resolve(1) id] by (auto simp: db_inv_def d2)
  ultimately show ?case by (simp add: db_inv_def)
next
  case (publish ev d t)
  then have c: "constraints_ok d" and o: "outbox_ok d" by (simp_all add: db_inv_def)
  have pays: "payments (update_outbox_event (ev\<lparr>o_published_at := Some t\<rparr>) d) = payments d"
    by (simp add: update_outbox_event_def)
  have "payment_view (update_outbox_event (ev\<lparr>o_published_at := Some t\<rparr>) d) = payment_view d"
    by (simp add: payment_view_def pays)
  then have "outbox_ok (update_outbox_event (ev\<lparr>o_published_at := Some t\<rparr>) d)"
    using o event_view_published [OF publish(1) c] by (simp add: outbox_ok_views)
  then show ?case
    using publish.prems constraints_update_outbox [OF c] pays by (simp add: db_inv_def)
qed

lemma db_steps_inv: "db_step\<^sup>*\<^sup>* d d' \<Longrightarrow> db_inv d \<Longrightarrow> db_inv d'"
  by (induction rule: rtranclp_induct) (auto intro: db_step_inv)

subsection \<open>What the steps keep of the past\<close>

text \<open>A status only moves forward: out of \<open>PENDING\<close>, then out of \<open>UNKNOWN\<close> to a terminal one.\<close>

definition status_le :: "payment_status \<Rightarrow> payment_status \<Rightarrow> bool" where
  "status_le st st' \<longleftrightarrow> st = st' \<or> st = PENDING \<or> (st = UNKNOWN \<and> terminal st')"

text \<open>What the client ordered never changes.\<close>

definition same_order :: "payment \<Rightarrow> payment \<Rightarrow> bool" where
  "same_order p p' \<longleftrightarrow>
     p_id p' = p_id p \<and> p_amount p' = p_amount p \<and> p_currency p' = p_currency p \<and>
     p_description p' = p_description p \<and> p_metadata p' = p_metadata p \<and>
     p_idempotency_key p' = p_idempotency_key p \<and>
     p_request_fingerprint p' = p_request_fingerprint p \<and>
     p_webhook_url p' = p_webhook_url p \<and> p_created_at p' = p_created_at p"

definition same_outcome :: "payment \<Rightarrow> payment \<Rightarrow> bool" where
  "same_outcome p p' \<longleftrightarrow>
     p_status p' = p_status p \<and> p_provider_payment_id p' = p_provider_payment_id p \<and>
     p_processed_at p' = p_processed_at p \<and> p_webhook_event_id p' = p_webhook_event_id p"

definition row_le :: "payment \<Rightarrow> payment \<Rightarrow> bool" where
  "row_le p p' \<longleftrightarrow>
     same_order p p' \<and> status_le (p_status p) (p_status p') \<and>
     (terminal (p_status p) \<longrightarrow> same_outcome p p') \<and>
     (p_webhook_sent_at p \<noteq> None \<longrightarrow> p_webhook_sent_at p' = p_webhook_sent_at p) \<and>
     (p_requires_manual_review p \<longrightarrow> p_requires_manual_review p' \<and> p_status p' = p_status p) \<and>
     p_reconciliation_attempts p \<le> p_reconciliation_attempts p'"

definition event_le :: "outbox_event \<Rightarrow> outbox_event \<Rightarrow> bool" where
  "event_le ev ev' \<longleftrightarrow>
     o_id ev' = o_id ev \<and> o_event_type ev' = o_event_type ev \<and> o_payment_id ev' = o_payment_id ev \<and>
     o_payload ev' = o_payload ev \<and> o_created_at ev' = o_created_at ev \<and>
     (o_published_at ev \<noteq> None \<longrightarrow> o_published_at ev' = o_published_at ev)"

definition history_le :: "database \<Rightarrow> database \<Rightarrow> bool" where
  "history_le d d' \<longleftrightarrow>
     (\<forall>p \<in> set (payments d). \<exists>p' \<in> set (payments d'). row_le p p') \<and>
     (\<forall>ev \<in> set (outbox_events d). \<exists>ev' \<in> set (outbox_events d'). event_le ev ev')"

lemma status_le_refl [simp]: "status_le st st"
  by (simp add: status_le_def)

lemma status_le_trans: "status_le a b \<Longrightarrow> status_le b c \<Longrightarrow> status_le a c"
  by (cases a; cases b) (auto simp: status_le_def terminal_def)

lemma terminal_status_le: "terminal st \<Longrightarrow> status_le st st' \<Longrightarrow> st' = st"
  by (auto simp: status_le_def)

lemma row_le_refl [simp]: "row_le p p" and event_le_refl [simp]: "event_le ev ev"
  by (simp_all add: row_le_def event_le_def same_order_def same_outcome_def)

lemma same_order_trans: "same_order p q \<Longrightarrow> same_order q r \<Longrightarrow> same_order p r"
  by (simp add: same_order_def)

lemma same_outcome_trans: "same_outcome p q \<Longrightarrow> same_outcome q r \<Longrightarrow> same_outcome p r"
  by (simp add: same_outcome_def)

lemma same_outcome_status: "same_outcome p q \<Longrightarrow> p_status q = p_status p"
  by (simp add: same_outcome_def)

lemma row_le_trans: "row_le p q \<Longrightarrow> row_le q r \<Longrightarrow> row_le p r"
proof -
  assume pq: "row_le p q" and qr: "row_le q r"
  have "same_order p r" using pq qr same_order_trans by (auto simp: row_le_def)
  moreover have "status_le (p_status p) (p_status r)"
    using pq qr status_le_trans by (auto simp: row_le_def)
  moreover have "terminal (p_status p) \<longrightarrow> same_outcome p r"
    using pq qr same_outcome_trans [of p q r] same_outcome_status [of p q] by (simp add: row_le_def)
  moreover have "p_webhook_sent_at p \<noteq> None \<longrightarrow> p_webhook_sent_at r = p_webhook_sent_at p"
    "p_requires_manual_review p \<longrightarrow> p_requires_manual_review r \<and> p_status r = p_status p"
    "p_reconciliation_attempts p \<le> p_reconciliation_attempts r"
    using pq qr by (simp_all add: row_le_def)
  ultimately show "row_le p r" by (simp add: row_le_def)
qed

lemma event_le_trans: "event_le a b \<Longrightarrow> event_le b c \<Longrightarrow> event_le a c"
  by (auto simp: event_le_def)

lemma history_le_refl [simp]: "history_le d d"
  by (auto simp: history_le_def intro: row_le_refl event_le_refl)

lemma history_le_trans: "history_le a b \<Longrightarrow> history_le b c \<Longrightarrow> history_le a c"
  unfolding history_le_def by (meson row_le_trans event_le_trans)

lemma row_ok_open:
  "row_ok p \<Longrightarrow> \<not> terminal (p_status p) \<Longrightarrow> p_webhook_sent_at p = None"
  "row_ok p \<Longrightarrow> p_status p = PENDING \<Longrightarrow> \<not> p_requires_manual_review p"
  "row_ok p \<Longrightarrow> \<not> terminal (p_status p) \<Longrightarrow> p_webhook_event_id p = None"
  "row_ok p \<Longrightarrow> p_status p = PENDING \<Longrightarrow>
     p_reconciliation_lease_token p = None \<and> p_reconciliation_lease_until p = None"
  by (auto simp: row_ok_def)

lemma row_step_le: "row_step p p' \<Longrightarrow> row_ok p \<Longrightarrow> row_le p p'"
  by (induction rule: row_step.induct)
    (simp_all add: row_ok_open row_le_def same_order_def same_outcome_def status_le_def)

lemma resolved_le:
  "p_status p = PENDING \<or> p_status p = UNKNOWN \<Longrightarrow> \<not> p_requires_manual_review p \<Longrightarrow> row_ok p \<Longrightarrow>
     terminal st \<Longrightarrow> row_le p (resolved st i c w t p)"
  using row_ok_open(1) [of p]
  by (auto simp: row_le_def resolved_def status_le_def same_order_def)

lemma history_replace:
  assumes "constraints_ok d" and "p \<in> set (payments d)" and "row_le p p'"
  shows "history_le d (d\<lparr>payments := replace_row p_id p' (payments d)\<rparr>)"
proof -
  have id: "p_id p' = p_id p" using assms(3) by (simp add: row_le_def same_order_def)
  have "\<exists>x \<in> set (replace_row p_id p' (payments d)). row_le q x" if "q \<in> set (payments d)" for q
  proof (cases "p_id q = p_id p")
    case True
    with that assms(1,2) have "q = p"
      using inj_onD [of p_id "set (payments d)" q p] by (simp add: constraints_ok_iff distinct_map)
    with assms(3) show ?thesis using payments_replace [OF assms(2) id] by blast
  next
    case False
    with that show ?thesis using payments_replace [OF assms(2) id] row_le_refl by blast
  qed
  then show ?thesis by (auto simp: history_le_def intro: event_le_refl)
qed

lemma history_append: "history_le d d' \<Longrightarrow> history_le d (d'\<lparr>outbox_events := outbox_events d' @ [ev]\<rparr>)"
  by (auto simp: history_le_def)

lemma db_step_history: "db_step d d' \<Longrightarrow> db_inv d \<Longrightarrow> history_le d d'"
proof (induction rule: db_step.induct)
  case (create p ev d d1 d2)
  then show ?case
    by (auto simp: insert_payment_Inr insert_outbox_event_Inr history_le_def intro: row_le_refl event_le_refl)
next
  case (change p d p')
  then have "constraints_ok d" and "row_le p p'" by (auto simp: db_inv_def row_step_le)
  with change(1) show ?case by (intro history_replace)
next
  case (resolve p d st p' provider_id processed ev t d2)
  then have "constraints_ok d" and "row_le p p'" by (auto simp: db_inv_def resolved_le)
  with resolve(1,8) show ?case
    using history_append [OF history_replace] by (simp add: insert_outbox_event_Inr)
next
  case (publish ev d t)
  have "\<exists>y \<in> set (replace_row o_id (ev\<lparr>o_published_at := Some t\<rparr>) (outbox_events d)). event_le x y"
    if "x \<in> set (outbox_events d)" for x
  proof (cases "o_id x = o_id ev")
    case True
    with that publish have "x = ev"
      using inj_onD [of o_id "set (outbox_events d)" x ev]
      by (simp add: db_inv_def constraints_ok_def distinct_map)
    have "ev\<lparr>o_published_at := Some t\<rparr> \<in>
        set (replace_row o_id (ev\<lparr>o_published_at := Some t\<rparr>) (outbox_events d))"
      using publish(1) by (simp add: set_replace_row)
    moreover have "event_le x (ev\<lparr>o_published_at := Some t\<rparr>)"
      using \<open>x = ev\<close> publish(2) by (simp add: event_le_def)
    ultimately show ?thesis by blast
  next
    case False
    with that show ?thesis by (force simp: set_replace_row)
  qed
  then show ?case by (auto simp: history_le_def update_outbox_event_def intro: row_le_refl)
qed

lemma db_steps_history: "db_step\<^sup>*\<^sup>* d d' \<Longrightarrow> db_inv d \<Longrightarrow> history_le d d'"
proof (induction rule: rtranclp_induct)
  case (step y z)
  then have "history_le y z" by (blast intro: db_step_history db_steps_inv)
  with step show ?case by (blast intro: history_le_trans)
qed simp

text \<open>Other transactions, too, move the database by its steps.\<close>

definition others_ok :: "(database \<Rightarrow> database) \<Rightarrow> bool" where
  "others_ok f \<longleftrightarrow> (\<forall>d. db_inv d \<longrightarrow> db_step\<^sup>*\<^sup>* d (f d))"

lemma others_ok_id [simp]: "others_ok (\<lambda>d. d)"
  by (simp add: others_ok_def)

lemma others_okD:
  assumes "others_ok f" and "db_inv d"
  shows "db_step\<^sup>*\<^sup>* d (f d)" and "db_inv (f d)" and "history_le d (f d)"
  using assms db_steps_inv db_steps_history by (auto simp: others_ok_def)

text \<open>A payment is found again, further on, under its id.\<close>

lemma history_payment:
  assumes "history_le d d'" and "p \<in> set (payments d)"
  obtains p' where "p' \<in> set (payments d')" "row_le p p'" "p_id p' = p_id p"
  using assms unfolding history_le_def row_le_def same_order_def by blast

lemma same_payment:
  "constraints_ok d \<Longrightarrow> p \<in> set (payments d) \<Longrightarrow> q \<in> set (payments d) \<Longrightarrow> p_id p = p_id q \<Longrightarrow> p = q"
  using inj_onD [of p_id "set (payments d)" p q] by (simp add: constraints_ok_def distinct_map)

subsection \<open>The contract of a transaction\<close>

locale transaction =
  fixes run :: "'a \<Rightarrow> 'c \<Rightarrow> database \<Rightarrow> 'b outcome \<times> database"
    and admissible :: "'a \<Rightarrow> bool"
  assumes refines: "db_inv d \<Longrightarrow> admissible a \<Longrightarrow> db_step\<^sup>*\<^sup>* d (snd (run a c d))"
begin

lemma keeps_invariant: "db_inv d \<Longrightarrow> admissible a \<Longrightarrow> db_inv (snd (run a c d))"
  using refines db_steps_inv by blast

lemma keeps_history: "db_inv d \<Longrightarrow> admissible a \<Longrightarrow> history_le d (snd (run a c d))"
  using refines db_steps_history by blast

text \<open>A terminal payment stays as it is.\<close>

lemma terminal_kept:
  assumes "db_inv d" and "admissible a" and "p \<in> set (payments d)" and "terminal (p_status p)"
  shows "\<exists>p' \<in> set (payments (snd (run a c d))). same_order p p' \<and> same_outcome p p'"
  using keeps_history [OF assms(1,2), of c] assms(3,4) unfolding history_le_def row_le_def by blast

text \<open>The states a sequence of such transactions goes through, whatever is answered to each.\<close>

lemma run_many:
  assumes "db_inv d" and "\<And>a c. (a, c) \<in> set calls \<Longrightarrow> admissible a"
  shows "db_step\<^sup>*\<^sup>* d (fold (\<lambda>(a, c) d. snd (run a c d)) calls d)"
  using assms
proof (induction calls arbitrary: d)
  case (Cons x calls)
  obtain a c where x: "x = (a, c)" by (cases x)
  with Cons.prems have step: "db_step\<^sup>*\<^sup>* d (snd (run a c d))" by (intro refines) auto
  with Cons.prems(1) have "db_inv (snd (run a c d))" by (blast intro: db_steps_inv)
  with Cons x have "db_step\<^sup>*\<^sup>* (snd (run a c d)) (fold (\<lambda>(a, c) d. snd (run a c d)) calls (snd (run a c d)))"
    by auto
  with step x show ?case by simp
qed simp

end

end
