(* ===== verification/Canonical_Json.thy ===== *)
theory Canonical_Json
  imports Values
begin

text \<open>
  \<open>json.dumps(..., sort_keys=True, separators=(",", ":"), ensure_ascii=False, allow_nan=False)\<close>
  of the standard library, as \<open>build_request_fingerprint\<close> calls it. \<open>sort_keys\<close> orders the
  members of every object by key; \<open>render\<close> writes a document; \<open>json_dumps\<close> puts the two
  together and fails, as \<open>allow_nan=False\<close> makes the library, on a NaN or an infinity.

  The lemmas show that the text determines the document up to the order of object members
  (\<open>json_dumps_eq_iff\<close>): every value can be read back from the text that starts with it.
\<close>

subsection \<open>Rendering\<close>

abbreviation quote_char :: char where "quote_char \<equiv> CHR 0x22"
abbreviation backslash :: char where "backslash \<equiv> CHR 0x5C"

definition escape_char :: "char \<Rightarrow> string" where
  "escape_char c =
     (if c = quote_char then [backslash, quote_char]
      else if c = backslash then [backslash, backslash]
      else if c = CHR 0x08 then [backslash, CHR ''b'']
      else if c = CHR 0x0C then [backslash, CHR ''f'']
      else if c = CHR 0x0A then [backslash, CHR ''n'']
      else if c = CHR 0x0D then [backslash, CHR ''r'']
      else if c = CHR 0x09 then [backslash, CHR ''t'']
      else if (of_char c :: nat) < 32
      then [backslash, CHR ''u'', CHR ''0'', CHR ''0'', hex_digit (of_char c div 16),
            hex_digit (of_char c)]
      else [c])"

definition render_str :: "string \<Rightarrow> string" where
  "render_str s = quote_char # concat (map escape_char s) @ [quote_char]"

fun join_with :: "char \<Rightarrow> string list \<Rightarrow> string" where
  "join_with sep [] = []"
| "join_with sep [s] = s"
| "join_with sep (s # ss) = s @ sep # join_with sep ss"

fun render :: "json \<Rightarrow> string" where
  "render JNull = ''null''"
| "render (JBool b) = (if b then ''true'' else ''false'')"
| "render (JInt i) = int_str i"
| "render (JFloat r) = r"
| "render JNonFinite = ''NaN''"
| "render (JStr s) = render_str s"
| "render (JArr js) = CHR ''['' # join_with (CHR '','') (map render js) @ [CHR '']'']"
| "render (JObj fs) =
     CHR ''{'' # join_with (CHR '','') (map (\<lambda>(k, v). render_str k @ CHR '':'' # render v) fs) @
       [CHR ''}'']"

fun sort_keys :: "json \<Rightarrow> json" where
  "sort_keys (JArr js) = JArr (map sort_keys js)"
| "sort_keys (JObj fs) = JObj (sort_key fst (map (\<lambda>(k, v). (k, sort_keys v)) fs))"
| "sort_keys j = j"

fun all_finite :: "json \<Rightarrow> bool" where
  "all_finite JNonFinite = False"
| "all_finite (JArr js) = list_all all_finite js"
| "all_finite (JObj fs) = list_all (\<lambda>(k, v). all_finite v) fs"
| "all_finite _ = True"

definition json_dumps :: "json \<Rightarrow> string outcome" where
  "json_dumps j =
     (if all_finite j then Inr (render (sort_keys j))
      else Inl (ValueError ''Out of range float values are not JSON compliant''))"

text \<open>Documents a parser can have produced: a float's \<open>repr\<close> is made of digits, signs, a
  point and an exponent mark, and has a point or an exponent.\<close>

definition number_char :: "char \<Rightarrow> bool" where
  "number_char c \<longleftrightarrow> c \<in> set ''0123456789-+.e''"

definition float_repr :: "string \<Rightarrow> bool" where
  "float_repr r \<longleftrightarrow> r \<noteq> [] \<and> hd r \<in> set ''0123456789-'' \<and> list_all number_char r \<and>
     (CHR ''.'' \<in> set r \<or> CHR ''e'' \<in> set r)"

fun json_ok :: "json \<Rightarrow> bool" where
  "json_ok (JFloat r) = float_repr r"
| "json_ok JNonFinite = False"
| "json_ok (JArr js) = list_all json_ok js"
| "json_ok (JObj fs) = list_all (\<lambda>(k, v). json_ok v) fs"
| "json_ok _ = True"

lemma json_ok_finite: "json_ok j \<Longrightarrow> all_finite j"
  by (induction j rule: json_ok.induct) (auto simp: list_all_iff)

lemma json_ok_sort_keys [simp]: "json_ok (sort_keys j) = json_ok j"
  by (induction j rule: json_ok.induct) (auto simp: list_all_iff)

subsection \<open>Reading back\<close>

text \<open>What may follow a value inside a document.\<close>

definition delim :: "string \<Rightarrow> bool" where
  "delim r \<longleftrightarrow> r = [] \<or> hd r \<in> set '',]}''"

lemma delim_simps [simp]: "delim []" "delim (c # r) \<longleftrightarrow> c = CHR '','' \<or> c = CHR '']'' \<or> c = CHR ''}''"
  by (auto simp: delim_def)

lemma number_char_not_delim: "delim (c # r) \<Longrightarrow> \<not> number_char c"
  by (auto simp: number_char_def)

text \<open>Digits.\<close>

definition digit_char :: "char \<Rightarrow> bool" where
  "digit_char c \<longleftrightarrow> c \<in> set ''0123456789''"

definition digit_val :: "char \<Rightarrow> nat" where
  "digit_val c = of_char c - 48"

lemma digit_nth:
  assumes "n < 10"
  shows "digit_char (''0123456789'' ! n)" and "digit_val (''0123456789'' ! n) = n"
proof -
  from assms have "n \<in> {0, 1, 2, 3, 4, 5, 6, 7, 8, 9}" by auto
  then show "digit_char (''0123456789'' ! n)" and "digit_val (''0123456789'' ! n) = n"
    by (auto simp: digit_char_def digit_val_def)
qed

lemma dec_digits_digits: "list_all digit_char (dec_digits n)"
proof (induction n rule: dec_digits.induct)
  case (1 n)
  then show ?case by (subst dec_digits.simps) (simp add: digit_nth)
qed

lemma dec_digits_nonempty [simp]: "dec_digits n \<noteq> []"
  by (subst dec_digits.simps) simp

lemma dec_digits_val: "foldl (\<lambda>a c. 10 * a + digit_val c) 0 (dec_digits n) = n"
proof (induction n rule: dec_digits.induct)
  case (1 n)
  then show ?case by (subst dec_digits.simps) (simp add: digit_nth)
qed

lemma dec_digits_inj: "dec_digits m = dec_digits n \<longleftrightarrow> m = n"
  by (metis dec_digits_val)

lemma digit_char_props: "digit_char c \<Longrightarrow> number_char c \<and> c \<noteq> CHR ''-'' \<and> c \<noteq> CHR ''.'' \<and> c \<noteq> CHR ''e''"
  by (auto simp: digit_char_def number_char_def)

lemma int_str_chars:
  "c \<in> set (int_str i) \<Longrightarrow> number_char c \<and> c \<noteq> CHR ''.'' \<and> c \<noteq> CHR ''e''"
proof -
  assume "c \<in> set (int_str i)"
  then consider "c = CHR ''-''" | n where "c \<in> set (dec_digits n)"
    by (auto simp: int_str_def split: if_splits)
  then show ?thesis
  proof cases
    case 1
    then show ?thesis by (simp add: number_char_def)
  next
    case 2
    with dec_digits_digits [of n] show ?thesis by (auto simp: list_all_iff digit_char_props)
  qed
qed

lemma hd_dec_digits: "digit_char (hd (dec_digits n))"
  using dec_digits_digits [of n] by (cases "dec_digits n") auto

lemma int_str_nonempty [simp]: "int_str i \<noteq> []"
  by (simp add: int_str_def)

lemma hd_int_str: "hd (int_str i) \<in> set ''0123456789-''"
  using hd_dec_digits [of "nat i"] by (auto simp: int_str_def digit_char_def)

lemma int_str_inj: "int_str i = int_str j \<longleftrightarrow> i = j"
proof
  assume eq: "int_str i = int_str j"
  have pos: "dec_digits m \<noteq> CHR ''-'' # t" for m t
    using hd_dec_digits [of m] digit_char_props by (metis list.sel(1))
  show "i = j"
    using eq by (auto simp: int_str_def pos pos [symmetric] dec_digits_inj split: if_splits)
qed simp

lemma number_split:
  assumes "\<forall>c \<in> set s. number_char c" and "\<forall>c \<in> set t. number_char c"
    and "delim r" and "delim u" and "s @ r = t @ u"
  shows "s = t \<and> r = u"
proof -
  have tw: "takeWhile number_char (x @ y) = x" if "\<forall>c \<in> set x. number_char c" "delim y" for x y
    using that by (cases y) (auto simp: takeWhile_append takeWhile_eq_Nil_iff number_char_not_delim)
  have "s = t" using tw [OF assms(1,3)] tw [OF assms(2,4)] assms(5) by simp
  with assms(5) show ?thesis by simp
qed

text \<open>Strings: a decoder for one escaped character shows that the escapes form a prefix code.\<close>

definition hex_val :: "char \<Rightarrow> nat" where
  "hex_val c = (if (of_char c :: nat) < 58 then of_char c - 48 else of_char c - 87)"

definition unescape :: "string \<Rightarrow> (char \<times> string) option" where
  "unescape s =
     (case s of
        [] \<Rightarrow> None
      | c # r \<Rightarrow>
          if c = quote_char then None
          else if c \<noteq> backslash then Some (c, r)
          else (case r of
             [] \<Rightarrow> None
           | d # r' \<Rightarrow>
               if d = CHR ''b'' then Some (CHR 0x08, r')
               else if d = CHR ''f'' then Some (CHR 0x0C, r')
               else if d = CHR ''n'' then Some (CHR 0x0A, r')
               else if d = CHR ''r'' then Some (CHR 0x0D, r')
               else if d = CHR ''t'' then Some (CHR 0x09, r')
               else if d = CHR ''u''
               then Some (char_of (16 * hex_val (r' ! 2) + hex_val (r' ! 3)), drop 4 r')
               else Some (d, r')))"

lemma hex_val_digit: "hex_val (hex_digit n) = n mod 16"
proof -
  have "list_all (\<lambda>k. hex_val (''0123456789abcdef'' ! k) = k) [0..<16]"
    by code_simp
  then have "hex_val (''0123456789abcdef'' ! (n mod 16)) = n mod 16"
    by (simp add: list_all_iff del: upt_conv_Cons upt_rec_numeral)
  then show ?thesis by (simp add: hex_digit_def)
qed

lemma unescape_escape: "unescape (escape_char c @ r) = Some (c, r)"
proof (cases "c \<in> {quote_char, backslash, CHR 0x08, CHR 0x0C, CHR 0x0A, CHR 0x0D, CHR 0x09}")
  case True
  then show ?thesis by (auto simp: escape_char_def unescape_def)
next
  case False
  then have c: "escape_char c =
      (if (of_char c :: nat) < 32
       then [backslash, CHR ''u'', CHR ''0'', CHR ''0'', hex_digit (of_char c div 16), hex_digit (of_char c)]
       else [c])"
    by (simp add: escape_char_def)
  have "(16 * (of_char c div 16 mod 16) + of_char c mod 16 :: nat) = of_char c"
    by (cases "(of_char c :: nat) < 256") (auto simp: of_char_def div_mult_mod_eq mod_less)
  then show ?thesis
    using False by (auto simp: c unescape_def hex_val_digit)
qed

lemma unescape_quote: "unescape (quote_char # r) = None"
  by (simp add: unescape_def)

lemma escaped_split:
  "concat (map escape_char s) @ quote_char # r = concat (map escape_char t) @ quote_char # u \<Longrightarrow>
     s = t \<and> r = u"
proof (induction s arbitrary: t)
  case Nil
  then show ?case
    by (cases t) (auto dest: arg_cong [where f = unescape] simp: unescape_quote unescape_escape)
next
  case (Cons a s)
  then show ?case
    by (cases t) (fastforce dest: arg_cong [where f = unescape] simp: unescape_quote unescape_escape)+
qed

lemma render_str_split: "render_str s @ r = render_str t @ u \<Longrightarrow> s = t \<and> r = u"
  using escaped_split [of s r t u] by (simp add: render_str_def)

text \<open>
  A renderer is readable on a set of items when a text that starts with a rendered item and
  goes on with a delimiter determines the item and the rest. A list of such items between
  brackets is then readable too.
\<close>

definition readable :: "('a \<Rightarrow> string) \<Rightarrow> 'a \<Rightarrow> 'a set \<Rightarrow> bool" where
  "readable f x B \<longleftrightarrow>
     (\<forall>y \<in> B. \<forall>r u. delim r \<longrightarrow> delim u \<longrightarrow> f x @ r = f y @ u \<longrightarrow> x = y \<and> r = u)"

definition starts_item :: "string \<Rightarrow> bool" where
  "starts_item s \<longleftrightarrow> s \<noteq> [] \<and> \<not> delim s"

lemma readable_mono: "readable f x B \<Longrightarrow> A \<subseteq> B \<Longrightarrow> readable f x A"
  unfolding readable_def by blast

lemma join_with_Cons: "join_with c (s # ss) = s @ (if ss = [] then [] else c # join_with c ss)"
  by (cases ss) auto

lemma join_with_split:
  assumes "c \<in> set '']}''"
    and "\<And>x. x \<in> set xs \<Longrightarrow> readable f x (set ys)"
    and "\<And>x. x \<in> set xs \<union> set ys \<Longrightarrow> starts_item (f x)"
    and "join_with (CHR '','') (map f xs) @ c # r = join_with (CHR '','') (map f ys) @ c # u"
  shows "xs = ys \<and> r = u"
  using assms(2-)
proof (induction xs arbitrary: ys)
  case Nil
  show ?case
  proof (cases ys)
    case Nil
    with Nil.prems(3) show ?thesis by simp
  next
    case (Cons y ys')
    with Nil.prems(2) [of y] have "f y \<noteq> []" and "\<not> delim (f y)" by (auto simp: starts_item_def)
    with Nil.prems(3) Cons assms(1) show ?thesis
      by (cases "f y") (auto simp: join_with_Cons)
  qed
next
  case (Cons x xs)
  have fx: "f x \<noteq> []" "\<not> delim (f x)" using Cons.prems(2) [of x] by (auto simp: starts_item_def)
  show ?case
  proof (cases ys)
    case Nil
    with Cons.prems(3) assms(1) fx show ?thesis
      by (cases "f x") (auto simp: join_with_Cons)
  next
    case (Cons y ys')
    let ?tail = "\<lambda>zs w. (if zs = [] then [] else CHR '','' # join_with (CHR '','') (map f zs)) @ c # w"
    have eq: "f x @ ?tail xs r = f y @ ?tail ys' u"
      using Cons.prems(3) Cons by (simp add: join_with_Cons)
    have "delim (?tail xs r)" "delim (?tail ys' u)" using assms(1) by auto
    with eq Cons.prems(1) [of x] Cons have xy: "x = y" and tails: "?tail xs r = ?tail ys' u"
      unfolding readable_def by (metis list.set_intros(1))+
    have both: "xs = [] \<longleftrightarrow> ys' = []" using tails assms(1) by (auto split: if_splits)
    show ?thesis
    proof (cases "xs = []")
      case True
      with both tails xy Cons show ?thesis by simp
    next
      case False
      with both tails have j: "join_with (CHR '','') (map f xs) @ c # r =
          join_with (CHR '','') (map f ys') @ c # u" by simp
      have "xs = ys' \<and> r = u"
        by (rule Cons.IH [OF _ _ j])
          (use Cons.prems(1,2) Cons in \<open>auto intro: readable_mono [of f _ "set ys"]\<close>)
      with xy Cons show ?thesis by simp
    qed
  qed
qed

text \<open>How a rendered value starts tells which constructor it comes from.\<close>

fun shape :: "json \<Rightarrow> char" where
  "shape JNull = CHR ''n''"
| "shape (JBool b) = (if b then CHR ''t'' else CHR ''f'')"
| "shape (JInt _) = CHR ''0''"
| "shape (JFloat _) = CHR ''0''"
| "shape JNonFinite = CHR ''N''"
| "shape (JStr _) = quote_char"
| "shape (JArr _) = CHR ''[''"
| "shape (JObj _) = CHR ''{''"

definition first_shape :: "char \<Rightarrow> char" where
  "first_shape c = (if c \<in> set ''0123456789-'' then CHR ''0'' else c)"

lemma render_starts:
  assumes "json_ok j"
  shows "render j \<noteq> []" and "first_shape (hd (render j)) = shape j"
  using assms hd_int_str
  by (cases j; auto simp: first_shape_def render_str_def float_repr_def)+

lemma render_starts_item: "json_ok j \<Longrightarrow> starts_item (render j)"
proof -
  assume j: "json_ok j"
  have "first_shape (hd (render j)) \<notin> set '',]}''"
    using render_starts(2) [OF j] by (cases j) auto
  with render_starts(1) [OF j] show ?thesis
    by (auto simp: starts_item_def delim_def first_shape_def split: if_splits)
qed

lemma render_same_shape:
  assumes "json_ok i" and "json_ok j" and "render i @ r = render j @ u"
  shows "shape i = shape j"
proof -
  have "hd (render i) = hd (render j)"
    using render_starts(1) [OF assms(1)] render_starts(1) [OF assms(2)] assms(3)
    by (metis hd_append2)
  then show ?thesis using render_starts(2) assms(1,2) by metis
qed

text \<open>The characters of a number's text.\<close>

lemma number_text:
  assumes "json_ok j" and "shape j = CHR ''0''"
  shows "\<forall>c \<in> set (render j). number_char c"
    and "(\<exists>i. j = JInt i) \<longleftrightarrow> CHR ''.'' \<notin> set (render j) \<and> CHR ''e'' \<notin> set (render j)"
  using assms int_str_chars
  by (cases j; fastforce simp: float_repr_def list_all_iff split: if_splits)+

lemma number_readable:
  assumes "json_ok i" and "json_ok j" and "shape i = CHR ''0''" and "delim r" and "delim u"
    and "render i @ r = render j @ u"
  shows "i = j \<and> r = u"
proof -
  have sj: "shape j = CHR ''0''" using render_same_shape assms by metis
  from number_split [OF number_text(1) [OF assms(1,3)] number_text(1) [OF assms(2) sj] assms(4-6)]
  have eq: "render i = render j" and "r = u" by auto
  moreover have "i = j"
    using eq assms(1-3) sj number_text(2) [OF assms(1,3)] number_text(2) [OF assms(2) sj]
    by (cases i; cases j) (auto simp: int_str_inj split: if_splits)
  ultimately show ?thesis by simp
qed

text \<open>Every well-formed document is readable, by induction over it.\<close>

lemma readableD:
  "readable f x B \<Longrightarrow> y \<in> B \<Longrightarrow> delim r \<Longrightarrow> delim u \<Longrightarrow> f x @ r = f y @ u \<Longrightarrow> x = y \<and> r = u"
  unfolding readable_def by blast

lemma readable_arr:
  assumes "\<And>i. i \<in> set xs \<Longrightarrow> readable render i {j. json_ok j}"
    and "json_ok (JArr xs)" and "json_ok (JArr js)" and "render (JArr xs) @ r = render (JArr js) @ u"
  shows "xs = js \<and> r = u"
proof (rule join_with_split [where f = render and c = "CHR '']''"])
  show "readable render x (set js)" if "x \<in> set xs" for x
    using assms(3) by (intro readable_mono [OF assms(1) [OF that]]) (auto simp: list_all_iff)
  show "starts_item (render x)" if "x \<in> set xs \<union> set js" for x
    using that assms(2,3) by (auto simp: list_all_iff intro!: render_starts_item)
qed (use assms(4) in auto)

abbreviation render_member :: "string \<times> json \<Rightarrow> string" where
  "render_member \<equiv> \<lambda>(k, v). render_str k @ CHR '':'' # render v"

lemma render_member_starts: "starts_item (render_member m)"
  by (cases m) (simp add: starts_item_def delim_def render_str_def)

lemma readable_member:
  assumes "readable render v {j. json_ok j}"
  shows "readable render_member (k, v) {(k, w). json_ok w}"
  unfolding readable_def
proof (intro ballI allI impI)
  fix m r u
  assume m: "m \<in> {(k, w). json_ok w}" and d: "delim r" "delim u"
    and eq: "render_member (k, v) @ r = render_member m @ u"
  obtain k' w where kw: "m = (k', w)" by (cases m)
  with eq have "k = k'" and "render v @ r = render w @ u"
    using render_str_split [of k "CHR '':'' # render v @ r" k' "CHR '':'' # render w @ u"] by auto
  with readableD [OF assms _ d] m kw show "(k, v) = m \<and> r = u" by auto
qed

lemma readable_obj:
  assumes "\<And>k v. (k, v) \<in> set fs \<Longrightarrow> readable render v {j. json_ok j}"
    and "json_ok (JObj gs)" and "render (JObj fs) @ r = render (JObj gs) @ u"
  shows "fs = gs \<and> r = u"
proof (rule join_with_split [where f = render_member and c = "CHR ''}''"])
  show "readable render_member x (set gs)" if "x \<in> set fs" for x
  proof (cases x)
    case (Pair k v)
    with that assms(1) have "readable render_member (k, v) {(k, w). json_ok w}"
      by (blast intro: readable_member)
    with Pair show ?thesis
      using assms(2) by (auto simp: list_all_iff elim!: readable_mono split: prod.splits)
  qed
qed (use assms(3) render_member_starts in auto)

lemma readable_number: "json_ok i \<Longrightarrow> shape i = CHR ''0'' \<Longrightarrow> readable render i {j. json_ok j}"
  unfolding readable_def using number_readable by blast

lemma shape_literal:
  "shape j = CHR ''n'' \<longleftrightarrow> j = JNull"
  "shape j = (if b then CHR ''t'' else CHR ''f'') \<longleftrightarrow> j = JBool b"
  by (cases j; simp)+

lemma readable_literal:
  assumes "json_ok i" and "\<And>j. shape j = shape i \<Longrightarrow> j = i"
  shows "readable render i {j. json_ok j}"
  unfolding readable_def
proof (intro ballI allI impI)
  fix j r u
  assume j: "j \<in> {j. json_ok j}" and eq: "render i @ r = render j @ u"
  then have "j = i" using render_same_shape [OF assms(1) _ eq] assms(2) by auto
  with eq show "i = j \<and> r = u" by simp
qed

lemmas json_kinds = json_ok.induct
  [case_names Float Non_finite Arr Obj Null Bool Int Str]

lemma readable_json: "json_ok i \<Longrightarrow> readable render i {j. json_ok j}"
proof (induction i rule: json_kinds)
  case (Arr xs)
  then have IH: "\<And>i. i \<in> set xs \<Longrightarrow> readable render i {j. json_ok j}" by (auto simp: list_all_iff)
  show ?case
    unfolding readable_def
  proof (intro ballI allI impI)
    fix j r u
    assume j: "j \<in> {j. json_ok j}" and eq: "render (JArr xs) @ r = render j @ u"
    then obtain js where js: "j = JArr js"
      using render_same_shape [of "JArr xs" j r u] Arr.prems by (cases j) (auto split: if_splits)
    from readable_arr [OF IH Arr.prems] j eq js show "JArr xs = j \<and> r = u" by auto
  qed
next
  case (Obj fs)
  then have IH: "\<And>k v. (k, v) \<in> set fs \<Longrightarrow> readable render v {j. json_ok j}"
    by (auto simp: list_all_iff)
  show ?case
    unfolding readable_def
  proof (intro ballI allI impI)
    fix j r u
    assume j: "j \<in> {j. json_ok j}" and eq: "render (JObj fs) @ r = render j @ u"
    then obtain gs where gs: "j = JObj gs"
      using render_same_shape [of "JObj fs" j r u] Obj.prems by (cases j) (auto split: if_splits)
    from readable_obj [OF IH] j eq gs show "JObj fs = j \<and> r = u" by auto
  qed
next
  case (Str t)
  show ?case
    unfolding readable_def
  proof (intro ballI allI impI)
    fix j r u
    assume j: "j \<in> {j. json_ok j}" and eq: "render (JStr t) @ r = render j @ u"
    then obtain t' where t': "j = JStr t'"
      using render_same_shape [of "JStr t" j r u] by (cases j) (auto split: if_splits)
    with eq show "JStr t = j \<and> r = u" using render_str_split [of t r t' u] by simp
  qed
next
  case (Float t)
  then show ?case by (intro readable_number) simp_all
next
  case Null
  show ?case by (rule readable_literal) (simp_all add: shape_literal)
next
  case (Bool b)
  show ?case by (rule readable_literal) (simp_all add: shape_literal)
next
  case (Int n)
  show ?case by (rule readable_number) simp_all
qed simp

theorem render_inj: "json_ok i \<Longrightarrow> json_ok j \<Longrightarrow> render i = render j \<longleftrightarrow> i = j"
  using readableD [OF readable_json, of i j "[]" "[]"] by auto

text \<open>Two documents have the same canonical text exactly when they are equal up to the order of
  object members.\<close>

lemma json_dumps_eq_iff:
  assumes "json_ok i" and "json_ok j"
  shows "json_dumps i = json_dumps j \<longleftrightarrow> sort_keys i = sort_keys j"
  using assms render_inj [of "sort_keys i" "sort_keys j"]
  by (simp add: json_dumps_def json_ok_finite)

lemma json_dumps_ok: "json_ok j \<Longrightarrow> json_dumps j = Inr (render (sort_keys j))"
  by (simp add: json_dumps_def json_ok_finite)

end
