(* ===== verification/Idempotency.thy ===== *)
theory Idempotency
  imports Canonical_Json Schemas
begin

text \<open>
  \<open>app/services/idempotency.py\<close>: the fingerprint that decides whether two requests under one
  idempotency key are the same request. SHA-256 is the parameter \<open>sha256\<close>; what the service
  relies on is that the two texts at hand do not collide, which the comparison theorem names as
  its hypothesis.
\<close>

definition digit_of :: "nat \<Rightarrow> char" where
  "digit_of n = ''0123456789'' ! (n mod 10)"

text \<open>\<open>format(amount, "f")\<close> of an amount with two decimal places, given in hundredths.\<close>

definition format_cents :: "int \<Rightarrow> string" where
  "format_cents n =
     (let m = nat \<bar>n\<bar>
      in (if n < 0 then ''-'' else '''') @ dec_digits (m div 100) @
         [CHR ''.'', digit_of (m div 10), digit_of m])"

definition canonical_payload :: "payment_create \<Rightarrow> json" where
  "canonical_payload d =
     JObj [(''amount'', JStr (format_cents (quantize_cents (c_amount d)))),
           (''currency'', JStr (currency_value (c_currency d))),
           (''description'', case c_description d of None \<Rightarrow> JNull | Some s \<Rightarrow> JStr s),
           (''metadata'', JObj (c_metadata d)),
           (''webhook_url'', JStr (url_text (c_webhook_url d)))]"

definition build_request_fingerprint :: "(string \<Rightarrow> string) \<Rightarrow> payment_create \<Rightarrow> string outcome" where
  "build_request_fingerprint sha256 d =
     (case json_dumps (canonical_payload d) of
        Inl e \<Rightarrow> Inl e
      | Inr serialized \<Rightarrow> Inr (sha256 serialized))"

text \<open>What the fingerprint is to identify: the same amount of the same currency, with the same
  description, URL and metadata, the order of metadata keys apart.\<close>

definition same_request :: "payment_create \<Rightarrow> payment_create \<Rightarrow> bool" where
  "same_request d d' \<longleftrightarrow>
     decimal_value (c_amount d) = decimal_value (c_amount d') \<and>
     c_currency d = c_currency d' \<and> c_description d = c_description d' \<and>
     sort_keys (JObj (c_metadata d)) = sort_keys (JObj (c_metadata d')) \<and>
     url_text (c_webhook_url d) = url_text (c_webhook_url d')"

definition canonical_text :: "payment_create \<Rightarrow> string" where
  "canonical_text d = render (sort_keys (canonical_payload d))"

lemma digit_of_inj: "digit_of m = digit_of n \<longleftrightarrow> m mod 10 = n mod 10"
proof -
  have "digit_val (digit_of k) = k mod 10" for k
    by (simp only: digit_of_def) (rule digit_nth(2), simp)
  then show ?thesis by (metis digit_of_def)
qed

lemma append_three:
  "xs @ [a, b, c] = ys @ [a', b', c'] \<longleftrightarrow> xs = ys \<and> a = a' \<and> b = b' \<and> c = c'"
  by simp

lemma format_cents_inj:
  assumes "0 \<le> m" and "0 \<le> n"
  shows "format_cents m = format_cents n \<longleftrightarrow> m = n"
proof
  assume eq: "format_cents m = format_cents n"
  have fmt: "format_cents x = dec_digits (nat x div 100) @ [CHR ''.'', digit_of (nat x div 10), digit_of (nat x)]"
    if "0 \<le> x" for x
    using that by (simp add: format_cents_def Let_def)
  from eq have q: "nat m div 100 = nat n div 100"
    and t: "nat m div 10 mod 10 = nat n div 10 mod 10" and u: "nat m mod 10 = nat n mod 10"
    unfolding fmt [OF assms(1)] fmt [OF assms(2)] append_three dec_digits_inj digit_of_inj by blast+
  have hundreds: "x div 100 = x div 10 div 10" for x :: nat
    by (simp flip: div_mult2_eq)
  have "nat m div 10 = nat n div 10"
    using q t unfolding hundreds by (metis div_mult_mod_eq)
  then have "nat m = nat n"
    using u by (metis div_mult_mod_eq)
  with assms show "m = n" by simp
qed simp

lemma sort_keys_canonical:
  "sort_keys (canonical_payload d) =
     JObj [(''amount'', JStr (format_cents (quantize_cents (c_amount d)))),
           (''currency'', JStr (currency_value (c_currency d))),
           (''description'', case c_description d of None \<Rightarrow> JNull | Some s \<Rightarrow> JStr s),
           (''metadata'', sort_keys (JObj (c_metadata d))),
           (''webhook_url'', JStr (url_text (c_webhook_url d)))]"
  by (simp add: canonical_payload_def option.case_distrib [of sort_keys] 
      split: option.splits)

lemma canonical_payload_ok: "json_ok (canonical_payload d) \<longleftrightarrow> json_ok (JObj (c_metadata d))"
  by (simp add: canonical_payload_def split: option.splits)

lemma amount_values:
  assumes "amount_field_ok a" and "amount_field_ok b"
  shows "quantize_cents a = quantize_cents b \<longleftrightarrow> decimal_value a = decimal_value b"
    and "0 < quantize_cents a"
  using assms exact_cents_value [of a] exact_cents_value [of b] quantize_exact
  by (auto simp: amount_field_ok_def split: option.splits)

lemma canonical_text_eq_iff:
  assumes "payment_create_ok d" and "payment_create_ok d'"
    and "json_ok (JObj (c_metadata d))" and "json_ok (JObj (c_metadata d'))"
  shows "canonical_text d = canonical_text d' \<longleftrightarrow> same_request d d'"
proof -
  have amt: "amount_field_ok (c_amount d)" "amount_field_ok (c_amount d')"
    using assms(1,2) by (auto simp: payment_create_ok_def)
  have "canonical_text d = canonical_text d' \<longleftrightarrow>
      sort_keys (canonical_payload d) = sort_keys (canonical_payload d')"
    unfolding canonical_text_def using assms(3,4)
    by (intro render_inj) (simp_all add: canonical_payload_ok)
  also have "\<dots> \<longleftrightarrow> same_request d d'"
    using amount_values(1) [OF amt] amount_values(2) [OF amt]
      amount_values(2) [OF amt(2,1)]
    by (auto simp: sort_keys_canonical same_request_def format_cents_inj
        currency_enum.value_eq_iff split: option.splits)
  finally show ?thesis .
qed

lemma fingerprint_text:
  "json_ok (JObj (c_metadata d)) \<Longrightarrow>
     build_request_fingerprint sha256 d = Inr (sha256 (canonical_text d))"
  by (simp add: build_request_fingerprint_def json_dumps_ok canonical_payload_ok canonical_text_def)

text \<open>C26. The fingerprints of two valid requests are equal exactly when the requests are the
  same: equal amounts (1.5 and 1.50 are equal), currency, description, URL and metadata up to
  the order of keys, provided SHA-256 does not collide on the two canonical texts.\<close>

theorem fingerprint_identifies_request:
  assumes "payment_create_ok d" and "payment_create_ok d'"
    and "json_ok (JObj (c_metadata d))" and "json_ok (JObj (c_metadata d'))"
    and "inj_on sha256 {canonical_text d, canonical_text d'}"
  shows "build_request_fingerprint sha256 d = build_request_fingerprint sha256 d' \<longleftrightarrow>
         same_request d d'"
proof -
  have "build_request_fingerprint sha256 d = build_request_fingerprint sha256 d' \<longleftrightarrow>
      canonical_text d = canonical_text d'"
    unfolding fingerprint_text [OF assms(3)] fingerprint_text [OF assms(4)]
    using inj_on_eq_iff [OF assms(5), of "canonical_text d" "canonical_text d'"] by simp
  then show ?thesis using canonical_text_eq_iff [OF assms(1-4)] by simp
qed

definition sample_request :: payment_create where
  "sample_request =
     \<lparr>c_amount = Decimal 15 (-1), c_currency = RUB, c_description = Some ''Order 123'',
      c_metadata = [(''order_id'', JStr ''123''), (''a'', JInt 7)],
      c_webhook_url = \<lparr>url_text = ''https://example.com/webhook'', url_username = None,
                       url_password = None\<rparr>\<rparr>"

definition sample_request_reordered :: payment_create where
  "sample_request_reordered =
     sample_request\<lparr>c_amount := Decimal 150 (-2),
       c_metadata := [(''a'', JInt 7), (''order_id'', JStr ''123'')]\<rparr>"

lemma sample_requests_ok:
  "payment_create_ok sample_request" "payment_create_ok sample_request_reordered"
  "json_ok (JObj (c_metadata sample_request))" "json_ok (JObj (c_metadata sample_request_reordered))"
  by (simp_all add: sample_request_def sample_request_reordered_def payment_create_ok_def
      amount_field_ok_def exact_cents_def validate_webhook_url_def)

lemma sample_requests_same: "same_request sample_request sample_request_reordered"
  by (simp add: same_request_def sample_request_def sample_request_reordered_def decimal_value_def
      power_int_def power2_eq_square)

lemma fingerprint_identifies_request_witness:
  "build_request_fingerprint rev sample_request =
     build_request_fingerprint rev sample_request_reordered"
proof -
  have "inj_on rev {canonical_text sample_request, canonical_text sample_request_reordered}"
    by (simp add: inj_on_def)
  from fingerprint_identifies_request [OF sample_requests_ok this] sample_requests_same
  show ?thesis by simp
qed

end
