(* ===== verification/Payment_Service.thy ===== *)
theory Payment_Service
  imports Lifecycle Idempotency
begin

text \<open>
  \<open>app/services/payment.py\<close>: creating a payment under an idempotency key.

  \<open>create_payment\<close> is the whole coroutine as a session program. Its inputs that the code draws
  from the outside are in \<open>creation_env\<close>: the generated identifiers, the clock, and what other
  transactions commit after the first lookup (\<open>n_others\<close>) and before the second one
  (\<open>n_others_retry\<close>), which is how a concurrent request with the same key shows up.
\<close>

record creation_env =
  n_payment_id :: uuid
  n_event_id :: uuid
  n_occurred_at :: time
  n_others :: "database \<Rightarrow> database"
  n_others_retry :: "database \<Rightarrow> database"

record creation_result =
  cr_payment :: payment
  cr_created :: bool

definition resolve_existing_payment :: "payment \<Rightarrow> string \<Rightarrow> creation_result outcome" where
  "resolve_existing_payment payment request_fingerprint =
     (if p_request_fingerprint payment \<noteq> request_fingerprint then Inl IdempotencyConflictError
      else Inr \<lparr>cr_payment = payment, cr_created = False\<rparr>)"

definition process_requested_envelope :: "creation_env \<Rightarrow> payment \<Rightarrow> event_envelope" where
  "process_requested_envelope env payment =
     \<lparr>e_event_id = n_event_id env, e_event_type = PAYMENT_PROCESS_REQUESTED,
      e_schema_version = 1, e_payment_id = p_id payment, e_attempt = 1,
      e_occurred_at = n_occurred_at env\<rparr>"

definition build_process_requested_event :: "creation_env \<Rightarrow> payment \<Rightarrow> outbox_event" where
  "build_process_requested_event env payment =
     (let envelope = process_requested_envelope env payment
      in \<lparr>o_id = n_event_id env, o_event_type = e_event_type envelope, o_payment_id = p_id payment,
          o_payload = envelope_dump envelope, o_created_at = n_occurred_at env,
          o_published_at = None\<rparr>)"

text \<open>\<open>Payment(...)\<close>: the columns the service sets and the defaults of the others. The two
  timestamps are filled in by the server at the \<open>INSERT\<close>.\<close>

definition build_payment :: "creation_env \<Rightarrow> payment_create \<Rightarrow> string \<Rightarrow> string \<Rightarrow> payment" where
  "build_payment env data idempotency_key request_fingerprint =
     \<lparr>p_id = n_payment_id env, p_amount = c_amount data, p_currency = c_currency data,
      p_description = c_description data, p_metadata = c_metadata data, p_status = PENDING,
      p_idempotency_key = idempotency_key, p_request_fingerprint = request_fingerprint,
      p_webhook_url = url_text (c_webhook_url data), p_webhook_event_id = None,
      p_webhook_sent_at = None, p_provider_payment_id = None, p_created_at = 0, p_updated_at = 0,
      p_processed_at = None, p_reconciliation_attempts = 0, p_requires_manual_review = False,
      p_reconciliation_lease_token = None, p_reconciliation_lease_until = None\<rparr>"

definition refresh :: "payment \<Rightarrow> payment tx" where
  "refresh payment =
     tx_bind (get_by_id (p_id payment))
       (\<lambda>r. case r of
          None \<Rightarrow> tx_raise (OtherException ''InvalidRequestError'')
        | Some p \<Rightarrow> tx_return p)"

definition insert_with_event :: "creation_env \<Rightarrow> payment \<Rightarrow> payment tx" where
  "insert_with_event env payment =
     tx_bind (add_payment payment)
       (\<lambda>p. tx_bind (add_outbox_event (Some (n_occurred_at env)) (build_process_requested_event env p))
         (\<lambda>_. tx_bind commit (\<lambda>_. tx_return p)))"

text \<open>\<open>except IntegrityError\<close>: roll back, look the key up again, re-raise if there is none.\<close>

definition resolve_race :: "creation_env \<Rightarrow> string \<Rightarrow> string \<Rightarrow> creation_result tx" where
  "resolve_race env idempotency_key request_fingerprint =
     tx_bind rollback (\<lambda>_. tx_bind (others_commit (n_others_retry env))
       (\<lambda>_. tx_bind (get_by_idempotency_key idempotency_key)
         (\<lambda>existing. case existing of
            None \<Rightarrow> tx_raise IntegrityError
          | Some p \<Rightarrow> tx_lift (resolve_existing_payment p request_fingerprint))))"

text \<open>The \<open>try\<close> block and what follows it, once the first lookup found nothing.\<close>

definition insert_or_resolve ::
  "creation_env \<Rightarrow> payment_create \<Rightarrow> string \<Rightarrow> string \<Rightarrow> creation_result tx" where
  "insert_or_resolve env data idempotency_key request_fingerprint =
     tx_bind
       (tx_catch
          (tx_bind
             (insert_with_event env (build_payment env data idempotency_key request_fingerprint))
             (\<lambda>p. tx_return (Inl p)))
          (\<lambda>e. if e = IntegrityError
                then Some (tx_bind (resolve_race env idempotency_key request_fingerprint)
                             (\<lambda>r. tx_return (Inr r)))
                else if is_exception e then Some (tx_bind rollback (\<lambda>_. tx_raise e))
                else None))
       (\<lambda>inserted. case inserted of
          Inr result \<Rightarrow> tx_return result
        | Inl payment \<Rightarrow>
            tx_bind (refresh payment) (\<lambda>p. tx_return \<lparr>cr_payment = p, cr_created = True\<rparr>))"

definition create_payment ::
  "(string \<Rightarrow> string) \<Rightarrow> creation_env \<Rightarrow> payment_create \<Rightarrow> string \<Rightarrow> creation_result tx" where
  "create_payment sha256 env data idempotency_key =
     tx_bind (tx_lift (build_request_fingerprint sha256 data)) (\<lambda>request_fingerprint.
       tx_bind (get_by_idempotency_key idempotency_key) (\<lambda>existing_payment.
         case existing_payment of
           Some p \<Rightarrow> tx_lift (resolve_existing_payment p request_fingerprint)
         | None \<Rightarrow>
             tx_bind (others_commit (n_others env))
               (\<lambda>_. insert_or_resolve env data idempotency_key request_fingerprint)))"

subsection \<open>Lemmas on the pieces\<close>

lemma fresh_build_payment: "fresh_payment (build_payment env data k f\<lparr>p_created_at := t, p_updated_at := u\<rparr>)"
  by (simp add: fresh_payment_def build_payment_def)

lemma new_process_event:
  "new_event PAYMENT_PROCESS_REQUESTED (p_id p) (build_process_requested_event env p\<lparr>o_created_at := t\<rparr>)"
  by (simp add: new_event_def build_process_requested_event_def process_requested_envelope_def
      payload_of_def envelope_validate_dump envelope_ok_def Let_def)

text \<open>The row and the event one call may add.\<close>

definition new_row :: "creation_env \<Rightarrow> time \<Rightarrow> payment_create \<Rightarrow> string \<Rightarrow> string \<Rightarrow> payment" where
  "new_row env now data k f = build_payment env data k f\<lparr>p_created_at := now, p_updated_at := now\<rparr>"

definition with_payment :: "creation_env \<Rightarrow> payment \<Rightarrow> database \<Rightarrow> database" where
  "with_payment env p d =
     d\<lparr>payments := payments d @ [p],
       outbox_events := outbox_events d @ [build_process_requested_event env p]\<rparr>"

lemma event_created_at [simp]:
  "build_process_requested_event env p\<lparr>o_created_at := n_occurred_at env\<rparr> =
     build_process_requested_event env p"
  by (simp add: build_process_requested_event_def Let_def)

text \<open>Whatever happens, the insertion leaves the database as it was or adds both rows.\<close>

lemma wp_insert_with_event:
  assumes w: "working s = committed s"
    and E: "\<And>e s'. committed s' = committed s \<Longrightarrow> E e s'"
    and Q: "\<And>p s'. insert_payment p (committed s) = Inr (committed s\<lparr>payments := payments (committed s) @ [p]\<rparr>) \<Longrightarrow>
        p = payment\<lparr>p_created_at := tx_now s, p_updated_at := tx_now s\<rparr> \<Longrightarrow>
        o_id (build_process_requested_event env p) \<notin> o_id ` set (outbox_events (committed s)) \<Longrightarrow>
        committed s' = with_payment env p (committed s) \<Longrightarrow> working s' = committed s' \<Longrightarrow>
        (\<forall>e. E e s') \<and> Q p s'"
  shows "wp (insert_with_event env payment) Q E s"
  unfolding insert_with_event_def add_payment_def add_outbox_event_def tx_simps
proof (intro wp_statementI)
  show "E e (s\<lparr>replies := rs\<rparr>)" for e rs by (simp add: E)
next
  fix p d rs e rs'
  assume "(let row = payment\<lparr>p_created_at := tx_now s, p_updated_at := tx_now s\<rparr>
      in case insert_payment row (working s) of Inl e \<Rightarrow> Inl e | Inr d' \<Rightarrow> Inr (row, d')) = Inr (p, d)"
  show "E e (s\<lparr>replies := rs, working := d\<rparr>\<lparr>replies := rs'\<rparr>)" by (simp add: E)
next
  fix p d rs ev d' rs'
  assume 1: "(let row = payment\<lparr>p_created_at := tx_now s, p_updated_at := tx_now s\<rparr>
      in case insert_payment row (working s) of Inl e \<Rightarrow> Inl e | Inr d' \<Rightarrow> Inr (row, d')) = Inr (p, d)"
    and 2: "(let row = build_process_requested_event env p
           \<lparr>o_created_at := case Some (n_occurred_at env) of None \<Rightarrow> tx_now (s\<lparr>replies := rs, working := d\<rparr>) | Some t \<Rightarrow> t\<rparr>
      in case insert_outbox_event row (working (s\<lparr>replies := rs, working := d\<rparr>)) of
           Inl e \<Rightarrow> Inl e | Inr d' \<Rightarrow> Inr (row, d')) = Inr (ev, d')"
  from 1 w have p: "p = payment\<lparr>p_created_at := tx_now s, p_updated_at := tx_now s\<rparr>"
    and ins: "insert_payment p (committed s) = Inr d"
    by (auto simp: Let_def split: sum.splits)
  from ins have d: "d = committed s\<lparr>payments := payments (committed s) @ [p]\<rparr>"
    by (simp add: insert_payment_Inr)
  from 2 d have new: "o_id (build_process_requested_event env p) \<notin> o_id ` set (outbox_events (committed s))"
    and d': "d' = with_payment env p (committed s)"
    by (auto simp: Let_def insert_outbox_event_Inr with_payment_def split: sum.splits)
  show "wp commit (\<lambda>x. Q p) E (s\<lparr>replies := rs, working := d\<rparr>\<lparr>replies := rs', working := d'\<rparr>)"
    by (intro wp_commitI)
      (use Q [OF ins [unfolded d] p new] d' in \<open>simp_all add: E\<close>)
qed

lemma wp_select_payment:
  assumes "\<And>e rs. E e (s\<lparr>replies := rs\<rparr>)"
    and "\<And>r rs. scalar_one_or_none (filter p (payments (working s))) = Inr r \<Longrightarrow> Q r (s\<lparr>replies := rs\<rparr>)"
  shows "wp (select_payment p) Q E s"
  unfolding select_payment_def
proof (rule wp_statementI)
  fix x d rs
  assume "(case scalar_one_or_none (filter p (payments (working s))) of
      Inl e \<Rightarrow> Inl e | Inr r \<Rightarrow> Inr (r, working s)) = Inr (x, d)"
  then have "scalar_one_or_none (filter p (payments (working s))) = Inr x" and "d = working s"
    by (auto split: sum.splits)
  then show "Q x (s\<lparr>replies := rs, working := d\<rparr>)" using assms(2) by simp
qed (rule assms(1))

definition stored :: "string \<Rightarrow> string \<Rightarrow> creation_result \<Rightarrow> database \<Rightarrow> bool" where
  "stored k f r d \<longleftrightarrow>
     cr_payment r \<in> set (payments d) \<and> p_idempotency_key (cr_payment r) = k \<and>
     p_request_fingerprint (cr_payment r) = f"

lemma resolve_existing_stored:
  "resolve_existing_payment p f = Inr r \<Longrightarrow> p \<in> set (payments d) \<Longrightarrow> p_idempotency_key p = k \<Longrightarrow>
     stored k f r d"
  by (auto simp: resolve_existing_payment_def stored_def split: if_splits)

lemma wp_resolve_race:
  assumes "\<And>e s'. committed s' = n_others_retry env (committed s) \<Longrightarrow> E e s'"
    and "\<And>r s'. committed s' = n_others_retry env (committed s) \<Longrightarrow>
        stored k f r (n_others_retry env (committed s)) \<Longrightarrow> Q r s'"
  shows "wp (resolve_race env k f) Q E s"
  unfolding resolve_race_def get_by_idempotency_key_def tx_simps
proof (rule wp_select_payment)
  fix r rs
  assume "scalar_one_or_none (filter (\<lambda>p. p_idempotency_key p = k) (payments (working
      (s\<lparr>working := committed s\<rparr>
        \<lparr>committed := n_others_retry env (committed (s\<lparr>working := committed s\<rparr>)),
         working := n_others_retry env (committed (s\<lparr>working := committed s\<rparr>))\<rparr>)))) = Inr r"
  then show "wp (case r of None \<Rightarrow> tx_raise IntegrityError
      | Some p \<Rightarrow> tx_lift (resolve_existing_payment p f)) Q E
      (s\<lparr>working := committed s\<rparr>
        \<lparr>committed := n_others_retry env (committed (s\<lparr>working := committed s\<rparr>)),
         working := n_others_retry env (committed (s\<lparr>working := committed s\<rparr>))\<rparr>\<lparr>replies := rs\<rparr>)"
    by (cases r)
      (auto simp: tx_simps intro!: assms dest!: scalar_filter_SomeD intro: resolve_existing_stored
        split: sum.splits)
qed (simp add: assms)

text \<open>Where a call can leave the database: unchanged, or as the other transactions left it,
  with both new rows or without them.\<close>

definition creation_leaves ::
  "creation_env \<Rightarrow> time \<Rightarrow> payment_create \<Rightarrow> string \<Rightarrow> string \<Rightarrow> database \<Rightarrow> database \<Rightarrow> bool" where
  "creation_leaves env now data k f d d' \<longleftrightarrow>
     d' = d \<or>
     (let base = n_others env d; p = new_row env now data k f
      in d' = base \<or> d' = n_others_retry env base \<or>
         (insert_payment p base = Inr (base\<lparr>payments := payments base @ [p]\<rparr>) \<and>
          o_id (build_process_requested_event env p) \<notin> o_id ` set (outbox_events base) \<and>
          (d' = with_payment env p base \<or> d' = n_others_retry env (with_payment env p base))))"

lemma wp_insert_or_resolve:
  assumes w: "working s = committed s" and base: "committed s = n_others env d"
    and now: "tx_now s = now"
  shows "wp (insert_or_resolve env data k f)
     (\<lambda>r s'. creation_leaves env now data k f d (committed s') \<and> stored k f r (committed s'))
     (\<lambda>e s'. creation_leaves env now data k f d (committed s')) s"
    (is "wp _ ?Q ?E s")
proof -
  let ?race = "resolve_race env k f"
  let ?finish = "\<lambda>x. wp (case x of Inr result \<Rightarrow> tx_return result
     | Inl payment \<Rightarrow> tx_bind (refresh payment) (\<lambda>p. tx_return \<lparr>cr_payment = p, cr_created = True\<rparr>)) ?Q ?E"
  let ?handle = "\<lambda>e. case if e = IntegrityError then Some (tx_bind ?race (\<lambda>r. tx_return (Inr r)))
       else if is_exception e then Some (tx_bind rollback (\<lambda>_. tx_raise e)) else None of
     None \<Rightarrow> ?E e | Some m' \<Rightarrow> wp m' ?finish ?E"
  have handler: "?handle e s'"
    if s': "?E e s'" "creation_leaves env now data k f d (n_others_retry env (committed s'))"
    for e and s' :: session
  proof -
    have "wp ?race ?Q ?E s'"
      by (rule wp_resolve_race) (auto simp: that)
    then show ?thesis using that by (simp add: tx_simps)
  qed
  have other: "creation_leaves env now data k f d (committed s)"
    "creation_leaves env now data k f d (n_others_retry env (committed s))"
    by (auto simp: creation_leaves_def Let_def base)
  show ?thesis
    unfolding insert_or_resolve_def tx_simps
  proof (rule wp_insert_with_event [OF w])
  fix e and s' :: session
  assume "committed s' = committed s"
  then show "?handle e s'" using other by (intro handler) simp_all
next
  fix p and s' :: session
  assume ins: "insert_payment p (committed s) = Inr (committed s\<lparr>payments := payments (committed s) @ [p]\<rparr>)"
    and p: "p = build_payment env data k f\<lparr>p_created_at := tx_now s, p_updated_at := tx_now s\<rparr>"
    and new: "o_id (build_process_requested_event env p) \<notin> o_id ` set (outbox_events (committed s))"
    and s': "committed s' = with_payment env p (committed s)" and w': "working s' = committed s'"
  have row: "p = new_row env now data k f" by (simp add: p new_row_def now)
  have leaves: "creation_leaves env now data k f d (with_payment env p (committed s))"
    "creation_leaves env now data k f d (n_others_retry env (with_payment env p (committed s)))"
    using ins new by (auto simp: creation_leaves_def Let_def row base)
  have "q = p" if "q \<in> set (payments (with_payment env p (committed s)))" "p_id q = p_id p" for q
    using that ins by (auto simp: with_payment_def insert_payment_Inr) (metis imageI)
  moreover have "p \<in> set (payments (with_payment env p (committed s)))"
    "p_idempotency_key p = k" "p_request_fingerprint p = f"
    by (simp_all add: with_payment_def p build_payment_def)
  ultimately have "wp (refresh p) (\<lambda>q s'. ?Q \<lparr>cr_payment = q, cr_created = True\<rparr> s') ?E s'"
    unfolding refresh_def get_by_id_def tx_simps
    by (intro wp_select_payment)
      (auto simp: s' w' leaves tx_simps stored_def dest!: scalar_filter_SomeD split: option.splits)
  moreover have "?handle e s'" for e by (rule handler) (simp_all add: s' leaves)
  ultimately show "(\<forall>e. ?handle e s') \<and> ?finish (Inl p) s'"
    by (simp add: tx_simps)
qed
qed

lemma wp_create_payment:
  assumes f: "build_request_fingerprint sha256 data = Inr f" and w: "working s = committed s"
  shows "wp (create_payment sha256 env data k)
     (\<lambda>r s'. creation_leaves env (tx_now s) data k f (committed s) (committed s') \<and>
             stored k f r (committed s'))
     (\<lambda>e s'. creation_leaves env (tx_now s) data k f (committed s) (committed s')) s"
    (is "wp _ ?Q ?E s")
  unfolding create_payment_def get_by_idempotency_key_def tx_simps f sum.case
proof (rule wp_select_payment)
  fix r rs
  assume r: "scalar_one_or_none (filter (\<lambda>p. p_idempotency_key p = k) (payments (working s))) = Inr r"
  let ?s = "s\<lparr>replies := rs\<rparr>"
  have old: "creation_leaves env (tx_now s) data k f (committed s) (committed s)"
    by (simp add: creation_leaves_def)
  show "wp (case r of
          None \<Rightarrow> tx_bind (others_commit (n_others env)) (\<lambda>_. insert_or_resolve env data k f)
        | Some p \<Rightarrow> tx_lift (resolve_existing_payment p f)) ?Q ?E ?s"
  proof (cases r)
    case (Some p)
    with r have "p \<in> set (payments (committed s))" "p_idempotency_key p = k"
      using w by (auto dest: scalar_filter_SomeD)
    with old show ?thesis
      by (auto simp: Some tx_simps intro: resolve_existing_stored split: sum.splits)
  next
    case None
    show ?thesis
      unfolding None option.case tx_simps by (rule wp_insert_or_resolve) simp_all
  qed
qed (simp add: creation_leaves_def)

lemma create_payment_leaves:
  assumes "build_request_fingerprint sha256 data = Inr f"
    and "in_session (create_payment sha256 env data k) c d = (r, d')"
  shows "creation_leaves env (conn_now c) data k f d d' \<and> (\<forall>x. r = Inr x \<longrightarrow> stored k f x d')"
proof -
  let ?P = "\<lambda>r d'. creation_leaves env (conn_now c) data k f d d' \<and> (\<forall>x. r = Inr x \<longrightarrow> stored k f x d')"
  have "wp (create_payment sha256 env data k) (\<lambda>r s'. ?P (Inr r) (committed s'))
      (\<lambda>e s'. ?P (Inl e) (committed s')) (begin_session d c)"
    by (rule wp_mono [OF wp_create_payment [OF assms(1)]]) simp_all
  then show ?thesis using in_sessionI [of _ ?P] assms(2) by fastforce
qed

lemma create_payment_no_fingerprint:
  assumes "build_request_fingerprint sha256 data = Inl e"
  shows "in_session (create_payment sha256 env data k) c d = (Inl e, d)"
  by (simp add: tx_run create_payment_def assms)

lemma with_payment_step:
  assumes "insert_payment p d = Inr (d\<lparr>payments := payments d @ [p]\<rparr>)"
    and "o_id (build_process_requested_event env p) \<notin> o_id ` set (outbox_events d)"
    and "p = new_row env now data k f"
  shows "db_step d (with_payment env p d)"
proof (rule db_step.create)
  show "fresh_payment p" using assms(3) by (simp add: new_row_def fresh_build_payment)
  show "new_event PAYMENT_PROCESS_REQUESTED (p_id p) (build_process_requested_event env p)"
    using new_process_event [of p "n_occurred_at env" env] by simp
  show "insert_payment p d = Inr (d\<lparr>payments := payments d @ [p]\<rparr>)" by (rule assms(1))
  show "insert_outbox_event (build_process_requested_event env p) (d\<lparr>payments := payments d @ [p]\<rparr>) =
      Inr (with_payment env p d)"
    using assms(2) by (simp add: insert_outbox_event_def with_payment_def)
qed

definition creation_run ::
  "(string \<Rightarrow> string) \<times> creation_env \<times> payment_create \<times> string \<Rightarrow> connection \<Rightarrow> database \<Rightarrow>
     creation_result outcome \<times> database" where
  "creation_run = (\<lambda>(sha256, env, data, k). in_session (create_payment sha256 env data k))"

definition creation_admissible :: "(string \<Rightarrow> string) \<times> creation_env \<times> payment_create \<times> string \<Rightarrow> bool" where
  "creation_admissible = (\<lambda>(_, env, _, _). others_ok (n_others env) \<and> others_ok (n_others_retry env))"

interpretation creation: transaction creation_run creation_admissible
proof
  fix d a c
  assume inv: "db_inv d" and adm: "creation_admissible a"
  obtain sha256 env data k where a: "a = (sha256, env, data, k)" by (cases a)
  have ok: "others_ok (n_others env)" "others_ok (n_others_retry env)"
    using adm by (simp_all add: a creation_admissible_def)
  obtain r d' where run: "creation_run a c d = (r, d')" by (cases "creation_run a c d")
  show "db_step\<^sup>*\<^sup>* d (snd (creation_run a c d))"
  proof (cases "build_request_fingerprint sha256 data")
    case (Inl e)
    then show ?thesis by (simp add: a creation_run_def create_payment_no_fingerprint)
  next
    case (Inr f)
    let ?b = "n_others env d" and ?p = "new_row env (conn_now c) data k f"
    have b: "db_step\<^sup>*\<^sup>* d ?b" using ok(1) inv by (simp add: others_ok_def)
    then have invb: "db_inv ?b" using inv by (rule db_steps_inv)
    have retry: "db_step\<^sup>*\<^sup>* d x \<Longrightarrow> db_step\<^sup>*\<^sup>* d (n_others_retry env x)" for x
      using ok(2) inv db_steps_inv unfolding others_ok_def by (meson rtranclp_trans)
    have "creation_leaves env (conn_now c) data k f d d'"
      using create_payment_leaves [OF Inr] run by (simp add: a creation_run_def)
    then consider "d' = d" | "d' = ?b" | "d' = n_others_retry env ?b"
      | x where "db_step ?b x" "d' = x \<or> d' = n_others_retry env x"
      by (auto simp: creation_leaves_def Let_def intro: with_payment_step)
    then show ?thesis
    proof cases
      case (4 x)
      then have "db_step\<^sup>*\<^sup>* d x" using b by (simp add: rtranclp.rtrancl_into_rtrancl)
      with 4 retry run show ?thesis by auto
    qed (use b retry run in auto)
  qed
qed

subsection \<open>Runs with a connection that answers\<close>

lemma lookup_key_run:
  assumes "constraints_ok (working s)" and "replies s = []"
  shows "get_by_idempotency_key k s = (Inr (find_row p_idempotency_key k (payments (working s))), s)"
  using assms
  by (simp add: get_by_idempotency_key_def select_payment_def statement_answered select_by_key)

lemma insert_with_event_run:
  assumes "replies s = []" and "working s = committed s"
    and p: "p = payment\<lparr>p_created_at := tx_now s, p_updated_at := tx_now s\<rparr>"
  shows "insert_with_event env payment s =
    (case insert_payment p (committed s) of
       Inl e \<Rightarrow> (Inl e, s)
     | Inr d1 \<Rightarrow>
         (case insert_outbox_event (build_process_requested_event env p) d1 of
            Inl e \<Rightarrow> (Inl e, s\<lparr>working := d1\<rparr>)
          | Inr d2 \<Rightarrow> (Inr p, s\<lparr>working := d2, committed := d2\<rparr>)))"
  using assms(1,2)
  by (simp add: insert_with_event_def add_payment_def add_outbox_event_def tx_run p [symmetric] Let_def
      split: sum.splits)

lemma conflicts_fresh:
  assumes "p_provider_payment_id p = None" and "p_webhook_event_id p = None"
  shows "conflicts p ps \<longleftrightarrow> (\<exists>q \<in> set ps. p_id q \<noteq> p_id p \<and> p_idempotency_key q = p_idempotency_key p)"
  using assms by (auto simp: conflicts_iff same_unique_def)

lemma new_row_simps [simp]:
  "p_id (new_row env now data k f) = n_payment_id env"
  "p_idempotency_key (new_row env now data k f) = k"
  "p_request_fingerprint (new_row env now data k f) = f"
  "p_provider_payment_id (new_row env now data k f) = None"
  "p_webhook_event_id (new_row env now data k f) = None"
  by (simp_all add: new_row_def build_payment_def)

lemma insert_new_row:
  assumes "n_payment_id env \<notin> p_id ` set (payments d)"
  shows "insert_payment (new_row env now data k f) d =
    (if k \<in> p_idempotency_key ` set (payments d) then Inl IntegrityError
     else Inr (d\<lparr>payments := payments d @ [new_row env now data k f]\<rparr>))"
proof -
  have "p_id q \<noteq> n_payment_id env" if "q \<in> set (payments d)" for q
    using assms that by (metis imageI)
  then show ?thesis using assms by (auto simp: insert_payment_def conflicts_fresh)
qed

lemma event_id_simps [simp]: "o_id (build_process_requested_event env p) = n_event_id env"
  by (simp add: build_process_requested_event_def Let_def)

lemma find_new_row:
  "n_payment_id env \<notin> p_id ` set (payments d) \<Longrightarrow>
     find_row p_id (n_payment_id env) (payments d @ [new_row env now data k f]) =
       Some (new_row env now data k f)"
  by (simp add: find_row_append find_row_None [symmetric] split: option.splits)

text \<open>C10. Creating a payment is all or nothing: whatever the database answers to each statement
  and to the commit, afterwards it is unchanged, or it holds exactly one more payment and one more
  outbox event, the one that requests this payment's processing. (Without other transactions in
  between; with them, see the invariant.)\<close>

theorem create_payment_all_or_nothing:
  "\<exists>f. snd (in_session
        (create_payment sha256 (env\<lparr>n_others := \<lambda>d. d, n_others_retry := \<lambda>d. d\<rparr>) data k) c d)
      \<in> {d, with_payment env (new_row env (conn_now c) data k f) d}"
proof -
  let ?env = "env\<lparr>n_others := \<lambda>d. d, n_others_retry := \<lambda>d. d\<rparr>"
  have same: "new_row ?env = new_row env" "with_payment ?env = with_payment env"
    by (auto simp: fun_eq_iff new_row_def build_payment_def with_payment_def
        build_process_requested_event_def process_requested_envelope_def)
  show ?thesis
  proof (cases "build_request_fingerprint sha256 data")
    case (Inl e)
    then show ?thesis by (simp add: create_payment_no_fingerprint)
  next
    case (Inr f)
    obtain r d' where "in_session (create_payment sha256 ?env data k) c d = (r, d')"
      by (cases "in_session (create_payment sha256 ?env data k) c d")
    with create_payment_leaves [OF Inr this] show ?thesis
      by (auto simp: creation_leaves_def Let_def same)
  qed
qed

text \<open>A call that returns, returns a payment that is in the database, under the key of the
  request and with the request's fingerprint, whatever failed on the way and whatever other
  transactions committed meanwhile.\<close>

theorem create_payment_returns_stored:
  assumes "in_session (create_payment sha256 env data k) c d = (Inr r, d')"
  shows "cr_payment r \<in> set (payments d') \<and> p_idempotency_key (cr_payment r) = k \<and>
    build_request_fingerprint sha256 data = Inr (p_request_fingerprint (cr_payment r))"
proof (cases "build_request_fingerprint sha256 data")
  case (Inl e)
  with assms show ?thesis by (simp add: create_payment_no_fingerprint)
next
  case (Inr f)
  from create_payment_leaves [OF Inr assms] Inr show ?thesis by (simp add: stored_def)
qed

text \<open>What a call does when every statement is answered.\<close>

lemma first_run:
  assumes "constraints_ok d" and "build_request_fingerprint sha256 data = Inr f"
    and "k \<notin> p_idempotency_key ` set (payments d)"
    and "n_payment_id env \<notin> p_id ` set (payments d)"
    and "n_event_id env \<notin> o_id ` set (outbox_events d)" and "n_others env = (\<lambda>d. d)"
  shows "in_session (create_payment sha256 env data k) (healthy now) d =
    (Inr \<lparr>cr_payment = new_row env now data k f, cr_created = True\<rparr>,
     with_payment env (new_row env now data k f) d)"
proof -
  let ?p = "new_row env now data k f"
  have ins: "insert_payment ?p d = Inr (d\<lparr>payments := payments d @ [?p]\<rparr>)"
    using assms(3,4) by (simp add: insert_new_row)
  have out: "insert_outbox_event (build_process_requested_event env ?p)
      (d\<lparr>payments := payments d @ [?p]\<rparr>) = Inr (with_payment env ?p d)"
    using assms(5) by (simp add: insert_outbox_event_def with_payment_def)
  have c: "constraints_ok (with_payment env ?p d)"
    using constraints_insert_outbox [OF constraints_insert_payment [OF assms(1) ins] out] .
  have none: "find_row p_idempotency_key k (payments d) = None"
    using assms(3) by (simp add: find_row_None)
  have found: "find_row p_id (n_payment_id env) (payments (with_payment env ?p d)) = Some ?p"
    using assms(4) by (simp add: with_payment_def find_new_row)
  have run: "insert_with_event env (build_payment env data k f) s =
      (Inr ?p, s\<lparr>working := with_payment env ?p d, committed := with_payment env ?p d\<rparr>)"
    if "replies s = []" "working s = d" "committed s = d" "tx_now s = now" for s
    using that ins out
    by (simp add: insert_with_event_run [where p = ?p] new_row_def)
  show ?thesis
    using assms(1,2,6)
    by (simp add: in_session_def create_payment_def insert_or_resolve_def refresh_def get_by_id_def
        tx_bind_def tx_lift_def tx_catch_def tx_return_def others_commit_def lookup_key_run none run
        select_id_run c found)
qed

lemma replay_run:
  assumes "constraints_ok d" and "build_request_fingerprint sha256 data = Inr f"
    and "p \<in> set (payments d)" and "p_idempotency_key p = k"
  shows "in_session (create_payment sha256 env data k) (healthy now) d =
    ((if p_request_fingerprint p = f then Inr \<lparr>cr_payment = p, cr_created = False\<rparr>
      else Inl IdempotencyConflictError), d)"
proof -
  have "find_row p_idempotency_key k (payments d) = Some p"
  proof (cases "find_row p_idempotency_key k (payments d)")
    case None
    with assms(3,4) show ?thesis by (auto simp: find_row_None)
  next
    case (Some q)
    with find_row_Some [OF Some] unique_key [OF assms(1) _ assms(3), of q] assms(4) show ?thesis by simp
  qed
  then show ?thesis
    using assms(1,2)
    by (simp add: in_session_def create_payment_def tx_bind_def tx_lift_def lookup_key_run
        resolve_existing_payment_def)
qed

text \<open>A key seen for the first time, with fresh identifiers and a connection that answers:
  the call adds the payment, pending, with its processing event, and reports it as created.\<close>

theorem create_payment_first_use:
  assumes "constraints_ok d" and "build_request_fingerprint sha256 data = Inr f"
    and "k \<notin> p_idempotency_key ` set (payments d)"
    and "n_payment_id env \<notin> p_id ` set (payments d)"
    and "n_event_id env \<notin> o_id ` set (outbox_events d)" and "n_others env = (\<lambda>d. d)"
  shows "in_session (create_payment sha256 env data k) (healthy now) d =
    (Inr \<lparr>cr_payment = new_row env now data k f, cr_created = True\<rparr>,
     with_payment env (new_row env now data k f) d)"
  using assms by (rule first_run)

text \<open>A key used before, with a connection that answers: the call changes nothing; it returns
  the existing payment when the request is the one that created it, and reports a conflict
  otherwise.\<close>

theorem create_payment_replay:
  assumes "constraints_ok d" and "build_request_fingerprint sha256 data = Inr f"
    and "p \<in> set (payments d)" and "p_idempotency_key p = k"
  shows "in_session (create_payment sha256 env data k) (healthy now) d =
    ((if p_request_fingerprint p = f then Inr \<lparr>cr_payment = p, cr_created = False\<rparr>
      else Inl IdempotencyConflictError), d)"
  using assms by (rule replay_run)

text \<open>Two requests race for one key: another transaction commits a payment under the key
  between this request's lookup and its insertion. The unique constraint refuses the insertion,
  and the request is answered as a replay of the winner; the database stays as the winner left
  it.\<close>

theorem create_payment_lost_race:
  assumes "constraints_ok d" and "build_request_fingerprint sha256 data = Inr f"
    and "k \<notin> p_idempotency_key ` set (payments d)"
    and "constraints_ok (n_others env d)" and "p \<in> set (payments (n_others env d))"
    and "p_idempotency_key p = k" and "n_others_retry env = (\<lambda>d. d)"
  shows "in_session (create_payment sha256 env data k) (healthy now) d =
    ((if p_request_fingerprint p = f then Inr \<lparr>cr_payment = p, cr_created = False\<rparr>
      else Inl IdempotencyConflictError), n_others env d)"
proof -
  let ?b = "n_others env d" and ?p = "new_row env now data k f"
  have none: "find_row p_idempotency_key k (payments d) = None"
    using assms(3) by (simp add: find_row_None)
  have some: "find_row p_idempotency_key k (payments ?b) = Some p"
  proof (cases "find_row p_idempotency_key k (payments ?b)")
    case None
    with assms(5,6) show ?thesis by (auto simp: find_row_None)
  next
    case (Some q)
    with find_row_Some [OF Some] unique_key [OF assms(4) _ assms(5), of q] assms(6) show ?thesis by simp
  qed
  have refused: "insert_payment ?p ?b = Inl IntegrityError"
    using assms(5,6) by (auto simp: insert_payment_def conflicts_fresh image_iff) metis
  have run: "insert_with_event env (build_payment env data k f) s = (Inl IntegrityError, s)"
    if "replies s = []" "working s = ?b" "committed s = ?b" "tx_now s = now" for s
    using that refused by (simp add: insert_with_event_run [where p = ?p] new_row_def)
  show ?thesis
    using assms(1,2,4,7)
    by (simp add: in_session_def create_payment_def insert_or_resolve_def resolve_race_def
        tx_bind_def tx_lift_def tx_catch_def tx_return_def others_commit_def rollback_def
        lookup_key_run none some run resolve_existing_payment_def)
qed

text \<open>C7. Once a key is in use, no sequence of creation calls, under whatever faults and
  interleavings, ever puts a second payment under it, and the payment it names stays the one it
  was.\<close>

theorem idempotency_key_unique:
  assumes "db_inv d" and "\<And>a c. (a, c) \<in> set calls \<Longrightarrow> creation_admissible a"
    and "p \<in> set (payments d)" and "d' = fold (\<lambda>(a, c) d. snd (creation_run a c d)) calls d"
    and "q \<in> set (payments d')" and "p_idempotency_key q = p_idempotency_key p"
  shows "same_order p q"
proof -
  have steps: "db_step\<^sup>*\<^sup>* d d'" unfolding assms(4) using assms(1,2) by (rule creation.run_many)
  from db_steps_history [OF steps assms(1)] assms(3) obtain p' where
    p': "p' \<in> set (payments d')" "same_order p p'" unfolding history_le_def row_le_def by blast
  have "constraints_ok d'" using db_steps_inv [OF steps assms(1)] by (simp add: db_inv_def)
  then have "q = p'" using assms(5,6) p' by (intro unique_key) (auto simp: same_order_def)
  with p' show ?thesis by simp
qed

text \<open>C38. A request whose metadata holds a NaN or an infinity has no fingerprint: the call
  raises \<open>ValueError\<close> before it touches the database.\<close>

theorem create_payment_non_finite_metadata:
  assumes "\<not> all_finite (JObj (c_metadata data))"
  shows "\<exists>msg. in_session (create_payment sha256 env data k) c d = (Inl (ValueError msg), d)"
proof -
  have "\<not> all_finite (canonical_payload data)"
    using assms by (simp add: canonical_payload_def)
  then show ?thesis
    by (auto simp: build_request_fingerprint_def json_dumps_def intro!: exI create_payment_no_fingerprint)
qed

subsection \<open>Concrete runs\<close>

definition sample_env :: creation_env where
  "sample_env = \<lparr>n_payment_id = UUID 1, n_event_id = UUID 2, n_occurred_at = 50,
     n_others = (\<lambda>d. d), n_others_retry = (\<lambda>d. d)\<rparr>"

definition sample_fingerprint :: string where
  "sample_fingerprint = rev (canonical_text sample_request)"

definition sample_payment :: payment where
  "sample_payment = new_row sample_env 60 sample_request ''order-1'' sample_fingerprint"

definition sample_database :: database where
  "sample_database = with_payment sample_env sample_payment empty_database"

lemma sample_fingerprint_ok:
  "build_request_fingerprint rev sample_request = Inr sample_fingerprint"
  by (simp add: fingerprint_text [OF sample_requests_ok(3)] sample_fingerprint_def)

lemma empty_database_simps [simp]: "payments empty_database = []" "outbox_events empty_database = []"
  by (simp_all add: empty_database_def)

lemma empty_constraints [simp]: "constraints_ok empty_database"
  by (simp add: constraints_ok_def)

lemma sample_first_use:
  "in_session (create_payment rev sample_env sample_request ''order-1'') (healthy 60) empty_database =
     (Inr \<lparr>cr_payment = sample_payment, cr_created = True\<rparr>, sample_database)"
  unfolding sample_payment_def sample_database_def
  by (rule first_run [OF empty_constraints sample_fingerprint_ok]) (simp_all add: sample_env_def)

lemma create_payment_first_use_witness:
  "in_session (create_payment rev sample_env sample_request ''order-1'') (healthy 60) empty_database =
     (Inr \<lparr>cr_payment = sample_payment, cr_created = True\<rparr>, sample_database)"
  unfolding sample_payment_def sample_database_def
  by (rule create_payment_first_use [OF empty_constraints sample_fingerprint_ok])
    (simp_all add: sample_env_def)

lemma sample_database_step: "db_step empty_database sample_database"
  unfolding sample_database_def sample_payment_def
  by (rule with_payment_step [OF _ _ refl]) (simp_all add: insert_payment_def conflicts_iff)

lemma sample_database_inv: "db_inv sample_database"
  using db_step_inv [OF sample_database_step empty_database_inv] .

lemma sample_database_simps [simp]:
  "payments sample_database = [sample_payment]"
  "outbox_events sample_database = [build_process_requested_event sample_env sample_payment]"
  by (simp_all add: sample_database_def with_payment_def)

lemma sample_constraints: "constraints_ok sample_database"
  using sample_database_inv by (simp add: db_inv_def)

lemma sample_payment_simps [simp]:
  "p_id sample_payment = UUID 1" "p_idempotency_key sample_payment = ''order-1''"
  "p_request_fingerprint sample_payment = sample_fingerprint" "p_status sample_payment = PENDING"
  by (simp_all add: sample_payment_def sample_env_def) (simp add: new_row_def build_payment_def)

lemma create_payment_replay_witness:
  "in_session (create_payment rev sample_env sample_request ''order-1'') (healthy 70) sample_database =
     (Inr \<lparr>cr_payment = sample_payment, cr_created = False\<rparr>, sample_database)"
  using create_payment_replay [OF sample_constraints sample_fingerprint_ok, of sample_payment "''order-1''"]
  by simp

lemma create_payment_returns_stored_witness:
  "cr_payment \<lparr>cr_payment = sample_payment, cr_created = True\<rparr> \<in> set (payments sample_database) \<and>
   build_request_fingerprint rev sample_request =
     Inr (p_request_fingerprint (cr_payment \<lparr>cr_payment = sample_payment, cr_created = True\<rparr>))"
  using create_payment_returns_stored [OF sample_first_use] by simp

definition racing_env :: creation_env where
  "racing_env = sample_env\<lparr>n_payment_id := UUID 7, n_event_id := UUID 8, n_others := (\<lambda>_. sample_database)\<rparr>"

lemma sample_replay:
  "in_session (create_payment rev env sample_request ''order-1'') (healthy 70) sample_database =
     (Inr \<lparr>cr_payment = sample_payment, cr_created = False\<rparr>, sample_database)"
  using replay_run [OF sample_constraints sample_fingerprint_ok, of sample_payment "''order-1''"]
  by simp

lemma create_payment_lost_race_witness:
  "in_session (create_payment rev racing_env sample_request ''order-1'') (healthy 70) empty_database =
     (Inr \<lparr>cr_payment = sample_payment, cr_created = False\<rparr>, sample_database)"
  using create_payment_lost_race [OF empty_constraints sample_fingerprint_ok,
      of "''order-1''" racing_env sample_payment 70] sample_constraints
  by (simp add: racing_env_def sample_env_def)

lemma idempotency_key_unique_witness:
  "same_order sample_payment sample_payment"
proof (rule idempotency_key_unique [where calls = "[((rev, racing_env\<lparr>n_others := \<lambda>d. d\<rparr>, sample_request, ''order-1''), healthy 70)]"])
  show "db_inv sample_database" by (rule sample_database_inv)
  show "creation_admissible a"
    if "(a, c) \<in> set [((rev, racing_env\<lparr>n_others := \<lambda>d. d\<rparr>, sample_request, ''order-1''), healthy 70)]" for a c
    using that by (simp add: creation_admissible_def racing_env_def sample_env_def)
  show "sample_database = fold (\<lambda>(a, c) d. snd (creation_run a c d))
      [((rev, racing_env\<lparr>n_others := \<lambda>d. d\<rparr>, sample_request, ''order-1''), healthy 70)] sample_database"
    by (simp add: creation_run_def sample_replay)
qed simp_all

lemma create_payment_non_finite_metadata_witness:
  "\<exists>msg. in_session (create_payment rev sample_env (sample_request\<lparr>c_metadata := [(''x'', JNonFinite)]\<rparr>) ''k'')
     (healthy 60) empty_database = (Inl (ValueError msg), empty_database)"
  by (rule create_payment_non_finite_metadata) simp

end
