(* ===== verification/Http_Api.thy ===== *)
theory Http_Api
  imports Payment_Service
begin

text \<open>
  The HTTP side: \<open>app/api\<close>, \<open>app/core/middleware.py\<close> and \<open>app/services/payment_query.py\<close>.

  A request carries its headers and what the framework parsed of its path and body. The order of
  the checks is FastAPI's: a body that is no JSON is refused before anything else, then come the
  dependencies (the API key), then the validation of headers, path and body, then the endpoint. An
  \<open>HTTPException\<close> becomes a response; any other \<open>Exception\<close> leaves the middleware as it is and is
  answered 500 by the server.
\<close>

datatype api_exn = HTTPException int string | Internal exn

type_synonym 'a api = "api_exn + 'a"

subsection \<open>Dependencies\<close>

text \<open>\<open>secrets.compare_digest\<close> on texts: only ASCII is allowed.\<close>

definition is_ascii :: "string \<Rightarrow> bool" where
  "is_ascii s \<longleftrightarrow> list_all (\<lambda>c. (of_char c :: nat) < 128) s"

definition compare_digest :: "string \<Rightarrow> string \<Rightarrow> bool outcome" where
  "compare_digest a b =
     (if is_ascii a \<and> is_ascii b then Inr (a = b) else Inl (OtherException ''TypeError''))"

definition verify_api_key :: "string \<Rightarrow> string option \<Rightarrow> unit api" where
  "verify_api_key expected_api_key x_api_key =
     (case x_api_key of
        None \<Rightarrow> Inl (HTTPException 401 ''Invalid or missing API key'')
      | Some key \<Rightarrow>
          (case compare_digest key expected_api_key of
             Inl e \<Rightarrow> Inl (Internal e)
           | Inr same \<Rightarrow>
               if same then Inr () else Inl (HTTPException 401 ''Invalid or missing API key'')))"

subsection \<open>Payments\<close>

record payment_accepted =
  pa_payment_id :: uuid
  pa_status :: public_payment_status
  pa_created_at :: time

record payment_detail =
  pd_payment_id :: uuid
  pd_amount :: decimal
  pd_currency :: currency
  pd_description :: "string option"
  pd_metadata :: dict
  pd_status :: public_payment_status
  pd_idempotency_key :: string
  pd_webhook_url :: url
  pd_created_at :: time
  pd_processed_at :: "time option"

datatype api_body =
    Accepted payment_accepted | Detailed payment_detail | Checks "(string \<times> string) list" | Error_detail string

record api_response =
  ar_status_code :: int
  ar_body :: api_body
  ar_request_id :: "string option"

text \<open>\<open>None\<close> for a status the schema does not know; the columns hold no such status.\<close>

definition public_status :: "payment_status \<Rightarrow> public_payment_status api" where
  "public_status st =
     (case to_public_payment_status (payment_status_value st) of
        None \<Rightarrow> Inl (Internal (ValueError ''PaymentStatus''))
      | Some s \<Rightarrow> Inr s)"

definition create_payment_endpoint ::
  "(string \<Rightarrow> string) \<Rightarrow> creation_env \<Rightarrow> payment_create \<Rightarrow> string \<Rightarrow> connection \<Rightarrow> database \<Rightarrow>
     payment_accepted api \<times> database" where
  "create_payment_endpoint sha256 env data idempotency_key c d =
     (let normalized_idempotency_key = strip idempotency_key
      in if normalized_idempotency_key = [] then
           (Inl (HTTPException 422 ''Idempotency-Key must not be blank''), d)
         else
           (case in_session (create_payment sha256 env data normalized_idempotency_key) c d of
              (Inl IdempotencyConflictError, d') \<Rightarrow>
                (Inl (HTTPException 409 ''Idempotency-Key was already used with a different request''), d')
            | (Inl e, d') \<Rightarrow> (Inl (Internal e), d')
            | (Inr result, d') \<Rightarrow>
                (map_sum id
                   (\<lambda>st. \<lparr>pa_payment_id = p_id (cr_payment result), pa_status = st,
                          pa_created_at = p_created_at (cr_payment result)\<rparr>)
                   (public_status (p_status (cr_payment result))), d')))"

text \<open>\<open>AnyHttpUrl(text)\<close> is pydantic's parser, a parameter.\<close>

definition query_payment :: "uuid \<Rightarrow> payment option tx" where
  "query_payment payment_id = get_by_id payment_id"

definition get_payment_endpoint ::
  "(string \<Rightarrow> url option) \<Rightarrow> uuid \<Rightarrow> connection \<Rightarrow> database \<Rightarrow> payment_detail api \<times> database" where
  "get_payment_endpoint parse_url payment_id c d =
     (case in_session (query_payment payment_id) c d of
        (Inl e, d') \<Rightarrow> (Inl (Internal e), d')
      | (Inr None, d') \<Rightarrow> (Inl (HTTPException 404 ''Payment not found''), d')
      | (Inr (Some payment), d') \<Rightarrow>
          (case (public_status (p_status payment), parse_url (p_webhook_url payment)) of
             (Inr st, Some url) \<Rightarrow>
               (Inr \<lparr>pd_payment_id = p_id payment, pd_amount = p_amount payment,
                     pd_currency = p_currency payment, pd_description = p_description payment,
                     pd_metadata = p_metadata payment, pd_status = st,
                     pd_idempotency_key = p_idempotency_key payment, pd_webhook_url = url,
                     pd_created_at = p_created_at payment, pd_processed_at = p_processed_at payment\<rparr>, d')
           | (Inl e, _) \<Rightarrow> (Inl e, d')
           | (_, None) \<Rightarrow> (Inl (Internal (ValueError ''AnyHttpUrl'')), d')))"

subsection \<open>Health\<close>

definition live :: "(string \<times> string) list" where
  "live = [(''status'', ''ok'')]"

text \<open>\<open>check_connection\<close>: how \<open>SELECT 1\<close> ends; \<open>caught\<close> are \<open>SQLAlchemyError\<close>, \<open>RuntimeError\<close> and
  \<open>OSError\<close>.\<close>

definition ready :: "(exn \<Rightarrow> bool) \<Rightarrow> unit outcome \<Rightarrow> (int \<times> (string \<times> string) list) outcome" where
  "ready caught check_connection =
     (case check_connection of
        Inr _ \<Rightarrow> Inr (200, [(''postgres'', ''ok'')])
      | Inl e \<Rightarrow> if caught e then Inr (503, [(''postgres'', ''unavailable'')]) else Inl e)"

subsection \<open>Routes and middleware\<close>

definition response :: "int \<Rightarrow> ('a \<Rightarrow> api_body) \<Rightarrow> 'a api \<Rightarrow> api_response outcome" where
  "response status_code body r =
     (case r of
        Inr a \<Rightarrow> Inr \<lparr>ar_status_code = status_code, ar_body = body a, ar_request_id = None\<rparr>
      | Inl (HTTPException n detail) \<Rightarrow>
          Inr \<lparr>ar_status_code = n, ar_body = Error_detail detail, ar_request_id = None\<rparr>
      | Inl (Internal e) \<Rightarrow> Inl e)"

definition refuse_validation :: "api_response outcome" where
  "refuse_validation = Inr \<lparr>ar_status_code = 422, ar_body = Error_detail ''validation'', ar_request_id = None\<rparr>"

text \<open>The body: no JSON, or JSON of which the fields were read (or not).\<close>

datatype request_body = Not_json | Json "payment_create option"

record create_request =
  g_api_key :: "string option"
  g_idempotency_key :: "string option"
  g_body :: request_body

definition idempotency_header_ok :: "string \<Rightarrow> bool" where
  "idempotency_header_ok key \<longleftrightarrow> 1 \<le> length key \<and> length key \<le> 255"

definition post_payments ::
  "(string \<Rightarrow> string) \<Rightarrow> string \<Rightarrow> creation_env \<Rightarrow> create_request \<Rightarrow> connection \<Rightarrow> database \<Rightarrow>
     api_response outcome \<times> database" where
  "post_payments sha256 expected_api_key env request c d =
     (case g_body request of
        Not_json \<Rightarrow> (refuse_validation, d)
      | Json parsed \<Rightarrow>
          (case verify_api_key expected_api_key (g_api_key request) of
             Inl e \<Rightarrow> (response 202 Accepted (Inl e), d)
           | Inr _ \<Rightarrow>
               (case (parsed, g_idempotency_key request) of
                  (Some data, Some key) \<Rightarrow>
                    if payment_create_ok data \<and> idempotency_header_ok key
                    then map_prod (response 202 Accepted) id (create_payment_endpoint sha256 env data key c d)
                    else (refuse_validation, d)
                | _ \<Rightarrow> (refuse_validation, d))))"

definition get_payments ::
  "(string \<Rightarrow> url option) \<Rightarrow> string \<Rightarrow> string option \<Rightarrow> uuid option \<Rightarrow> connection \<Rightarrow> database \<Rightarrow>
     api_response outcome \<times> database" where
  "get_payments parse_url expected_api_key api_key payment_id c d =
     (case verify_api_key expected_api_key api_key of
        Inl e \<Rightarrow> (response 200 Detailed (Inl e), d)
      | Inr _ \<Rightarrow>
          (case payment_id of
             None \<Rightarrow> (refuse_validation, d)
           | Some i \<Rightarrow> map_prod (response 200 Detailed) id (get_payment_endpoint parse_url i c d)))"

definition request_id_middleware :: "string option \<Rightarrow> uuid \<Rightarrow> api_response outcome \<Rightarrow> api_response outcome" where
  "request_id_middleware x_request_id new_id r =
     (let request_id = (case x_request_id of Some s \<Rightarrow> if s = [] then uuid_str new_id else s | None \<Rightarrow> uuid_str new_id)
      in case r of
           Inl e \<Rightarrow> Inl e
         | Inr resp \<Rightarrow> Inr (resp\<lparr>ar_request_id := Some request_id\<rparr>))"

text \<open>What the client sees: an \<open>Exception\<close> that left the application is answered 500; on anything
  else the connection ends without an answer.\<close>

definition served_response :: "string option \<Rightarrow> uuid \<Rightarrow> api_response outcome \<Rightarrow> api_response option" where
  "served_response x_request_id new_id r =
     (case request_id_middleware x_request_id new_id r of
        Inr resp \<Rightarrow> Some resp
      | Inl e \<Rightarrow>
          if is_exception e
          then Some \<lparr>ar_status_code = 500, ar_body = Error_detail ''Internal Server Error'', ar_request_id = None\<rparr>
          else None)"

definition get_live :: "string \<Rightarrow> string option \<Rightarrow> api_response outcome" where
  "get_live expected_api_key api_key =
     response 200 Checks (map_sum id (\<lambda>_. live) (verify_api_key expected_api_key api_key))"

definition get_ready :: "(exn \<Rightarrow> bool) \<Rightarrow> string \<Rightarrow> string option \<Rightarrow> unit outcome \<Rightarrow> api_response outcome" where
  "get_ready caught expected_api_key api_key check_connection =
     (case verify_api_key expected_api_key api_key of
        Inl e \<Rightarrow> response 200 Checks (Inl e)
      | Inr _ \<Rightarrow>
          (case ready caught check_connection of
             Inl e \<Rightarrow> Inl e
           | Inr (status_code, checks) \<Rightarrow> response status_code Checks (Inr checks)))"

subsection \<open>Lemmas\<close>

lemma public_status_run:
  "public_status st = Inr (case st of SUCCEEDED \<Rightarrow> PUBLIC_SUCCEEDED | FAILED \<Rightarrow> PUBLIC_FAILED | _ \<Rightarrow> PUBLIC_PENDING)"
  by (simp add: public_status_def to_public_status)

text \<open>How the header is checked.\<close>

lemma verify_cases:
  obtains (ok) "api_key = Some expected" "verify_api_key expected api_key = Inr ()"
  | (refused) "verify_api_key expected api_key = Inl (HTTPException 401 ''Invalid or missing API key'')"
  | (failed) k where "api_key = Some k" "\<not> (is_ascii k \<and> is_ascii expected)"
      "verify_api_key expected api_key = Inl (Internal (OtherException ''TypeError''))"
proof (cases api_key)
  case None
  then show ?thesis by (intro refused) (simp add: verify_api_key_def)
next
  case (Some k)
  show ?thesis
  proof (cases "is_ascii k \<and> is_ascii expected")
    case True
    with Some show ?thesis
      using ok refused by (cases "k = expected") (simp_all add: verify_api_key_def compare_digest_def)
  next
    case False
    with Some show ?thesis by (intro failed [of k]) (auto simp: verify_api_key_def compare_digest_def)
  qed
qed

lemma verify_expected: "is_ascii expected \<Longrightarrow> verify_api_key expected (Some expected) = Inr ()"
  by (simp add: verify_api_key_def compare_digest_def)

lemma response_simps [simp]:
  "response n f (Inr a) = Inr \<lparr>ar_status_code = n, ar_body = f a, ar_request_id = None\<rparr>"
  "response n f (Inl (HTTPException m t)) = Inr \<lparr>ar_status_code = m, ar_body = Error_detail t, ar_request_id = None\<rparr>"
  "response n f (Inl (Internal e)) = Inl e"
  by (simp_all add: response_def)

lemma length_strip: "length (strip s) \<le> length s"
  unfolding strip_def using length_dropWhile_le le_trans by (metis length_rev)

text \<open>The endpoint, by how the service ends.\<close>

lemma create_endpoint_cases:
  assumes "strip key \<noteq> []"
    and "in_session (create_payment sha256 env data (strip key)) c d = (r, d')"
  shows "create_payment_endpoint sha256 env data key c d =
    (case r of
       Inr x \<Rightarrow> Inr \<lparr>pa_payment_id = p_id (cr_payment x),
           pa_status = (case p_status (cr_payment x) of SUCCEEDED \<Rightarrow> PUBLIC_SUCCEEDED | FAILED \<Rightarrow> PUBLIC_FAILED
             | _ \<Rightarrow> PUBLIC_PENDING),
           pa_created_at = p_created_at (cr_payment x)\<rparr>
     | Inl e \<Rightarrow>
         if e = IdempotencyConflictError
         then Inl (HTTPException 409 ''Idempotency-Key was already used with a different request'')
         else Inl (Internal e), d')"
  using assms by (cases r) (auto simp: create_payment_endpoint_def public_status_run Let_def split: exn.splits)

text \<open>A request that is refused before the service runs touches nothing; any other runs it.\<close>

lemma post_payments_cases:
  obtains (refused) e where "post_payments sha256 expected env req c d = (e, d)"
      "(\<exists>resp. e = Inr resp \<and> ar_status_code resp \<in> {401, 422}) \<or> e = Inl (OtherException ''TypeError'')"
  | (run) data key r d' where "g_api_key req = Some expected" "g_body req = Json (Some data)"
      "g_idempotency_key req = Some key" "payment_create_ok data" "idempotency_header_ok key" "strip key \<noteq> []"
      "in_session (create_payment sha256 env data (strip key)) c d = (r, d')"
      "post_payments sha256 expected env req c d =
         map_prod (response 202 Accepted) id (create_payment_endpoint sha256 env data key c d)"
proof (cases "g_body req")
  case Not_json
  then show ?thesis by (intro refused) (auto simp: post_payments_def refuse_validation_def)
next
  case (Json parsed)
  show ?thesis
  proof (cases rule: verify_cases [of "g_api_key req" expected])
    case ok
    show ?thesis
    proof (cases "\<exists>data key. parsed = Some data \<and> g_idempotency_key req = Some key \<and>
        payment_create_ok data \<and> idempotency_header_ok key")
      case True
      then obtain data key where req: "parsed = Some data" "g_idempotency_key req = Some key"
        "payment_create_ok data" "idempotency_header_ok key" by blast
      have post: "post_payments sha256 expected env req c d =
          map_prod (response 202 Accepted) id (create_payment_endpoint sha256 env data key c d)"
        using Json ok req by (simp add: post_payments_def)
      show ?thesis
      proof (cases "strip key = []")
        case True
        with post show ?thesis by (intro refused) (auto simp: create_payment_endpoint_def)
      next
        case False
        obtain r d' where "in_session (create_payment sha256 env data (strip key)) c d = (r, d')"
          by (cases "in_session (create_payment sha256 env data (strip key)) c d")
        with Json ok req post False show ?thesis by (intro run) simp_all
      qed
    next
      case False
      with Json ok show ?thesis
        by (intro refused) (auto simp: post_payments_def refuse_validation_def split: option.splits)
    qed
  next
    case refused
    with Json show ?thesis by (intro that(1)) (auto simp: post_payments_def)
  next
    case (failed k)
    with Json show ?thesis by (intro that(1)) (auto simp: post_payments_def)
  qed
qed

subsection \<open>The contract of the API\<close>

text \<open>What a response to \<open>POST /payments\<close> says: 401 and 422 leave the database as it was; 202
  comes only for a request with the right API key and names a payment that is stored under the
  trimmed key, of 1 to 255 characters, which is what the column holds; the only other answers are
  409 and an exception.\<close>

theorem post_payments_contract:
  assumes "post_payments sha256 expected env req c d = (r, d')"
  shows "(\<exists>e. r = Inl e) \<or>
    (\<exists>resp. r = Inr resp \<and> ar_status_code resp \<in> {202, 401, 409, 422} \<and>
       (ar_status_code resp \<in> {401, 422} \<longrightarrow> d' = d) \<and>
       (ar_status_code resp = 202 \<longrightarrow>
          (\<exists>key. g_api_key req = Some expected \<and> g_idempotency_key req = Some key \<and>
             1 \<le> length (strip key) \<and> length (strip key) \<le> 255 \<and>
             (\<exists>p \<in> set (payments d'). p_idempotency_key p = strip key \<and>
                (\<exists>a. ar_body resp = Accepted a \<and> pa_payment_id a = p_id p \<and> pa_created_at a = p_created_at p)))))"
proof (cases rule: post_payments_cases [of sha256 expected env req c d])
  case (refused e)
  with assms show ?thesis by auto
next
  case (run data key x d1)
  have len: "1 \<le> length (strip key)" "length (strip key) \<le> 255"
    using run(5,6) length_strip [of key] by (auto simp: idempotency_header_ok_def Suc_leI)
  have stored: "cr_payment a \<in> set (payments d1) \<and> p_idempotency_key (cr_payment a) = strip key" if "x = Inr a" for a
    using run(7) that create_payment_leaves [of sha256 data _ env "strip key" c d x d1]
      create_payment_no_fingerprint [of sha256 data]
    by (cases "build_request_fingerprint sha256 data") (auto simp: stored_def)
  show ?thesis
    using assms run(1,3) len stored unfolding run(8) create_endpoint_cases [OF run(6,7)]
    by (cases x) (auto split: if_splits)
qed

lemma post_payments_run:
  assumes "is_ascii expected" and "g_api_key req = Some expected" and "g_body req = Json (Some data)"
    and "g_idempotency_key req = Some key" and "payment_create_ok data" and "idempotency_header_ok key"
  shows "post_payments sha256 expected env req c d =
    map_prod (response 202 Accepted) id (create_payment_endpoint sha256 env data key c d)"
  using assms by (simp add: post_payments_def verify_expected)

text \<open>C8. \<open>POST /payments\<close> is idempotent. Once a request has been answered 202, sending an equal
  request again, under a key that is the same once trimmed, is answered 202 with the same payment
  and creation time, and changes nothing, whatever other transactions committed in between.\<close>

theorem post_payments_idempotent:
  assumes "db_inv d" and "creation_admissible (sha256, env, data, strip key)"
    and "is_ascii expected" and "req = \<lparr>g_api_key = Some expected, g_idempotency_key = Some key, g_body = Json (Some data)\<rparr>"
    and "post_payments sha256 expected env req c d = (Inr resp, d1)" and "ar_status_code resp = 202"
    and "ar_body resp = Accepted a" and "others_ok f"
    and "strip key' = strip key" and "idempotency_header_ok key'" and "payment_create_ok data'"
    and "build_request_fingerprint sha256 data' = build_request_fingerprint sha256 data"
  shows "\<exists>a' resp'. post_payments sha256 expected env'
      \<lparr>g_api_key = Some expected, g_idempotency_key = Some key', g_body = Json (Some data')\<rparr> (healthy now) (f d1) =
        (Inr resp', f d1) \<and>
    ar_status_code resp' = 202 \<and> ar_body resp' = Accepted a' \<and>
    pa_payment_id a' = pa_payment_id a \<and> pa_created_at a' = pa_created_at a"
proof (cases rule: post_payments_cases [of sha256 expected env req c d])
  case (refused e)
  with assms(5,6) show ?thesis by auto
next
  case (run data1 key1 x d2)
  from run(2,3) assms(4) have same: "data1 = data" "key1 = key" by simp_all
  note run = run [unfolded same]
  have post: "map_prod (response 202 Accepted) id (create_payment_endpoint sha256 env data key c d) = (Inr resp, d1)"
    using assms(5) run(8) by simp
  obtain r where x: "x = Inr r" and d2: "d2 = d1"
    and a: "pa_payment_id a = p_id (cr_payment r)" "pa_created_at a = p_created_at (cr_payment r)"
    using post assms(6,7) unfolding create_endpoint_cases [OF run(6,7)] by (cases x) (auto split: if_splits)
  obtain fp where fp: "build_request_fingerprint sha256 data = Inr fp"
    using run(7) create_payment_no_fingerprint [of sha256 data _ env "strip key" c d] x
    by (cases "build_request_fingerprint sha256 data") auto
  with create_payment_leaves [OF fp run(7)] x
  have p: "cr_payment r \<in> set (payments d1)" "p_idempotency_key (cr_payment r) = strip key"
    "p_request_fingerprint (cr_payment r) = fp" by (simp_all add: stored_def d2)
  have "db_step\<^sup>*\<^sup>* d d1"
    using creation.refines [OF assms(1,2), of c] run(7) by (simp add: creation_run_def d2)
  then have inv: "db_inv d1" using assms(1) db_steps_inv by blast
  note later = others_okD [OF assms(8) inv]
  obtain q where q: "q \<in> set (payments (f d1))" "row_le (cr_payment r) q"
    by (rule history_payment [OF later(3) p(1)])
  have keep: "p_id q = p_id (cr_payment r)" "p_created_at q = p_created_at (cr_payment r)"
    "p_idempotency_key q = strip key" "p_request_fingerprint q = fp"
    using q(2) p by (auto simp: row_le_def same_order_def)
  have "in_session (create_payment sha256 env' data' (strip key')) (healthy now) (f d1) =
      (Inr \<lparr>cr_payment = q, cr_created = False\<rparr>, f d1)"
    using replay_run [of "f d1" sha256 data' fp q "strip key'" env' now] later(2) q(1) keep fp assms(9,12)
    by (simp add: db_inv_def)
  from create_endpoint_cases [OF _ this] run(6) assms(9)
  show ?thesis
    using post_payments_run [OF assms(3), of
        "\<lparr>g_api_key = Some expected, g_idempotency_key = Some key', g_body = Json (Some data')\<rparr>" data' key' sha256 env'
        "healthy now" "f d1"] assms(10,11) keep a by simp
qed

lemma get_payments_run:
  assumes "is_ascii expected" and "constraints_ok d" and "p \<in> set (payments d)"
    and "parse_url (p_webhook_url p) = Some u"
  shows "\<exists>v. get_payments parse_url expected (Some expected) (Some (p_id p)) (healthy now) d =
      (Inr \<lparr>ar_status_code = 200, ar_body = Detailed v, ar_request_id = None\<rparr>, d) \<and>
    Inr (pd_status v) = public_status (p_status p) \<and> pd_payment_id v = p_id p \<and> pd_amount v = p_amount p \<and>
    pd_currency v = p_currency p \<and> pd_webhook_url v = u \<and> pd_processed_at v = p_processed_at p"
proof -
  have "find_row p_id (p_id p) (payments d) = Some p"
    using assms(2,3) by (intro find_row_unique) (simp_all add: constraints_ok_def)
  then have "in_session (query_payment (p_id p)) (healthy now) d = (Inr (Some p), d)"
    using assms(2) by (simp add: in_session_def query_payment_def get_by_id_def select_id_run)
  with assms(1,4) show ?thesis
    by (simp add: get_payments_def verify_expected get_payment_endpoint_def public_status_run)
qed


text \<open>C32. An API key with a character beyond ASCII is not answered 401: the comparison raises
  \<open>TypeError\<close>, and the client gets a 500.\<close>

theorem non_ascii_api_key_fails:
  assumes "g_body req = Json parsed" and "g_api_key req = Some k" and "\<not> is_ascii k"
  shows "\<exists>resp. served_response x i (fst (post_payments sha256 expected env req c d)) = Some resp \<and>
    ar_status_code resp = 500"
  using assms
  by (simp add: post_payments_def verify_api_key_def compare_digest_def served_response_def
      request_id_middleware_def)

subsection \<open>Concrete runs\<close>

definition sample_create_request :: create_request where
  "sample_create_request =
     \<lparr>g_api_key = Some ''secret'', g_idempotency_key = Some '' order-1 '', g_body = Json (Some sample_request)\<rparr>"

lemma sample_header:
  "strip '' order-1 '' = ''order-1''" "strip ''order-1'' = ''order-1''"
  "idempotency_header_ok '' order-1 ''" "idempotency_header_ok ''order-1''" "is_ascii ''secret''"
  by code_simp+

definition sample_accepted :: payment_accepted where
  "sample_accepted = \<lparr>pa_payment_id = UUID 1, pa_status = PUBLIC_PENDING, pa_created_at = p_created_at sample_payment\<rparr>"

definition sample_created :: api_response where
  "sample_created = \<lparr>ar_status_code = 202, ar_body = Accepted sample_accepted, ar_request_id = None\<rparr>"

lemma sample_post:
  "post_payments rev ''secret'' sample_env sample_create_request (healthy 60) empty_database =
     (Inr sample_created, sample_database)"
proof -
  have "create_payment_endpoint rev sample_env sample_request '' order-1 '' (healthy 60) empty_database =
      (Inr sample_accepted, sample_database)"
    using create_endpoint_cases [of "'' order-1 ''" rev sample_env sample_request "healthy 60" empty_database]
      sample_first_use
    by (simp add: sample_header sample_accepted_def)
  then show ?thesis
    by (subst post_payments_run [where data = sample_request and key = "'' order-1 ''"])
      (simp_all add: sample_header sample_create_request_def sample_requests_ok sample_created_def)
qed

theorem post_payments_contract_witness:
  "\<exists>p \<in> set (payments sample_database). p_idempotency_key p = ''order-1''"
  using post_payments_contract [OF sample_post] sample_header(1)
  by (auto simp: sample_created_def sample_create_request_def)

theorem post_payments_idempotent_witness:
  "\<exists>a' resp'. post_payments rev ''secret'' racing_env
      \<lparr>g_api_key = Some ''secret'', g_idempotency_key = Some ''order-1'', g_body = Json (Some sample_request)\<rparr>
      (healthy 70) sample_database = (Inr resp', sample_database) \<and>
    ar_status_code resp' = 202 \<and> ar_body resp' = Accepted a' \<and> pa_payment_id a' = UUID 1"
proof -
  have "creation_admissible (rev, sample_env, sample_request, strip '' order-1 '')"
    by (simp add: creation_admissible_def sample_env_def)
  from post_payments_idempotent [OF empty_database_inv this sample_header(5) sample_create_request_def sample_post
      _ _ others_ok_id _ sample_header(4) sample_requests_ok(1) refl, of sample_accepted racing_env 70]
  show ?thesis by (auto simp: sample_header sample_created_def sample_accepted_def)
qed


theorem non_ascii_api_key_fails_witness:
  "\<exists>resp. served_response None (UUID 9)
      (fst (post_payments rev ''secret'' sample_env
        (sample_create_request\<lparr>g_api_key := Some [char_of (233 :: nat)]\<rparr>) (healthy 60) empty_database)) = Some resp \<and>
    ar_status_code resp = 500"
  by (rule non_ascii_api_key_fails [where k = "[char_of (233 :: nat)]"])
    (simp_all add: sample_create_request_def is_ascii_def)

end
