(* ===== verification/Config.thy ===== *)
theory Config
  imports Prelude Errors
begin

text \<open>
  \<open>app/core/config.py\<close>: the settings and the ranges their fields declare. The texts and URLs are
  kept as they are given; parsing them is pydantic's. A float setting is an exact finite real.
\<close>

datatype environment = LOCAL | TEST | PRODUCTION

fun environment_value :: "environment \<Rightarrow> string" where
  "environment_value LOCAL = ''local''"
| "environment_value TEST = ''test''"
| "environment_value PRODUCTION = ''production''"

definition Environment :: "string \<Rightarrow> environment option" where
  "Environment = enum_lookup [LOCAL, TEST, PRODUCTION] environment_value"

interpretation environment_enum: str_enum "[LOCAL, TEST, PRODUCTION]" environment_value
proof
  show "m \<in> set [LOCAL, TEST, PRODUCTION]" for m by (cases m) auto
qed simp

record settings =
  app_name :: string
  environment :: environment
  log_level :: string
  api_key :: string
  database_url :: string
  rabbitmq_url :: string
  outbox_relay_batch_size :: int
  outbox_relay_poll_interval_seconds :: seconds
  rabbit_publish_timeout_seconds :: seconds
  payment_provider_url :: string
  payment_provider_request_timeout_seconds :: seconds
  payment_provider_max_attempts :: int
  payment_provider_retry_base_delay_seconds :: seconds
  payment_provider_retry_max_delay_seconds :: seconds
  payment_provider_retry_total_timeout_seconds :: seconds
  payment_provider_circuit_breaker_failure_threshold :: int
  payment_provider_circuit_breaker_recovery_timeout_seconds :: seconds
  webhook_request_timeout_seconds :: seconds
  payment_reconciliation_batch_size :: int
  payment_reconciliation_stale_after_seconds :: seconds
  payment_reconciliation_poll_interval_seconds :: seconds
  payment_reconciliation_lease_seconds :: seconds
  payment_reconciliation_max_attempts :: int

text \<open>The declared ranges, in the order of the fields.\<close>

definition settings_fields_ok :: "settings \<Rightarrow> bool" where
  "settings_fields_ok s \<longleftrightarrow>
     log_level s \<in> set [''DEBUG'', ''INFO'', ''WARNING'', ''ERROR'', ''CRITICAL''] \<and>
     1 \<le> outbox_relay_batch_size s \<and> outbox_relay_batch_size s \<le> 1000 \<and>
     0 < outbox_relay_poll_interval_seconds s \<and>
     0 < rabbit_publish_timeout_seconds s \<and>
     0 < payment_provider_request_timeout_seconds s \<and>
     1 \<le> payment_provider_max_attempts s \<and> payment_provider_max_attempts s \<le> 10 \<and>
     0 \<le> payment_provider_retry_base_delay_seconds s \<and>
     0 \<le> payment_provider_retry_max_delay_seconds s \<and>
     0 < payment_provider_retry_total_timeout_seconds s \<and>
     1 \<le> payment_provider_circuit_breaker_failure_threshold s \<and>
     0 \<le> payment_provider_circuit_breaker_recovery_timeout_seconds s \<and>
     0 < webhook_request_timeout_seconds s \<and>
     1 \<le> payment_reconciliation_batch_size s \<and>
     0 \<le> payment_reconciliation_stale_after_seconds s \<and>
     0 < payment_reconciliation_poll_interval_seconds s \<and>
     0 < payment_reconciliation_lease_seconds s \<and>
     1 \<le> payment_reconciliation_max_attempts s"

definition Settings :: "settings \<Rightarrow> settings outcome" where
  "Settings s = (if settings_fields_ok s then Inr s else Inl (ValueError ''ValidationError''))"

text \<open>The defaults; four fields have none.\<close>

definition default_settings :: "string \<Rightarrow> string \<Rightarrow> string \<Rightarrow> string \<Rightarrow> settings" where
  "default_settings key database rabbitmq provider =
     \<lparr>app_name = ''Async Payment Processing'', environment = LOCAL, log_level = ''INFO'',
      api_key = key, database_url = database, rabbitmq_url = rabbitmq,
      outbox_relay_batch_size = 100, outbox_relay_poll_interval_seconds = 1,
      rabbit_publish_timeout_seconds = 5, payment_provider_url = provider,
      payment_provider_request_timeout_seconds = 6, payment_provider_max_attempts = 3,
      payment_provider_retry_base_delay_seconds = 1 / 5, payment_provider_retry_max_delay_seconds = 1,
      payment_provider_retry_total_timeout_seconds = 10,
      payment_provider_circuit_breaker_failure_threshold = 5,
      payment_provider_circuit_breaker_recovery_timeout_seconds = 15,
      webhook_request_timeout_seconds = 5, payment_reconciliation_batch_size = 20,
      payment_reconciliation_stale_after_seconds = 30, payment_reconciliation_poll_interval_seconds = 5,
      payment_reconciliation_lease_seconds = 60, payment_reconciliation_max_attempts = 5\<rparr>"

lemma default_settings_ok: "Settings (default_settings k d r p) = Inr (default_settings k d r p)"
  by (simp add: Settings_def settings_fields_ok_def default_settings_def)

lemma Settings_ok: "Settings s = Inr s' \<Longrightarrow> s' = s \<and> settings_fields_ok s"
  by (simp add: Settings_def split: if_splits)

end
