(* ===== verification/Resolution.thy ===== *)
theory Resolution
  imports Lifecycle
begin

text \<open>
  What the payment processor and the reconciliation worker share: the transaction that makes a
  payment terminal together with its webhook event. \<open>persist_resolution_rows\<close> is its last three
  statements (the flush of the row, the new event, the commit), which both spell out; the lemmas
  say that it is all or nothing and a step of the lifecycle. A transaction that starts from a
  payment it read, and the rule for a session that only reads, are here too.
\<close>

definition status_for :: "provider_status \<Rightarrow> payment_status" where
  "status_for st = (if st = APPROVED then SUCCEEDED else FAILED)"

lemma status_for_simps [simp]: "status_for APPROVED = SUCCEEDED" "status_for DECLINED = FAILED"
  "terminal (status_for st)"
  by (cases st; simp add: status_for_def)+

definition webhook_envelope :: "uuid \<Rightarrow> uuid \<Rightarrow> time \<Rightarrow> event_envelope" where
  "webhook_envelope webhook_event_id payment_id occurred_at =
     \<lparr>e_event_id = webhook_event_id, e_event_type = WEBHOOK_DELIVERY_REQUESTED, e_schema_version = 1,
      e_payment_id = payment_id, e_attempt = 1, e_occurred_at = occurred_at\<rparr>"

text \<open>\<open>OutboxEvent(...)\<close> for that envelope; \<open>created_at\<close> is filled in by \<open>add_outbox_event\<close>.\<close>

definition webhook_outbox_event :: "event_envelope \<Rightarrow> outbox_event" where
  "webhook_outbox_event webhook_event =
     \<lparr>o_id = e_event_id webhook_event, o_event_type = e_event_type webhook_event,
      o_payment_id = e_payment_id webhook_event, o_payload = envelope_dump webhook_event,
      o_created_at = 0, o_published_at = None\<rparr>"

definition persist_resolution_rows :: "payment \<Rightarrow> time option \<Rightarrow> outbox_event \<Rightarrow> unit tx" where
  "persist_resolution_rows payment created_at event =
     tx_bind (flush_payment payment) (\<lambda>_.
       tx_bind (add_outbox_event created_at event) (\<lambda>_. commit))"

lemma webhook_event_new:
  "new_event WEBHOOK_DELIVERY_REQUESTED i (webhook_outbox_event (webhook_envelope w i t)\<lparr>o_created_at := u\<rparr>)"
  by (simp add: new_event_def webhook_outbox_event_def webhook_envelope_def payload_of_def
      envelope_validate_dump envelope_ok_def)

lemma webhook_event_id [simp]: "o_id (webhook_outbox_event (webhook_envelope w i t)) = w"
  by (simp add: webhook_outbox_event_def webhook_envelope_def)

text \<open>The database after it.\<close>

definition with_resolution :: "payment \<Rightarrow> outbox_event \<Rightarrow> database \<Rightarrow> database" where
  "with_resolution p ev d =
     d\<lparr>payments := replace_row p_id p (payments d), outbox_events := outbox_events d @ [ev]\<rparr>"

definition created :: "time \<Rightarrow> time option \<Rightarrow> outbox_event \<Rightarrow> outbox_event" where
  "created now created_at ev = ev\<lparr>o_created_at := (case created_at of None \<Rightarrow> now | Some t \<Rightarrow> t)\<rparr>"

lemma update_payment_changed:
  assumes "constraints_ok d" and "p \<in> set (payments d)" and "p_id p' = p_id p" and "p' \<noteq> p"
  shows "update_payment now p' d =
    (if conflicts p' (payments d) then Inl IntegrityError
     else Inr (d\<lparr>payments := replace_row p_id (p'\<lparr>p_updated_at := now\<rparr>) (payments d)\<rparr>))"
proof -
  have "find_row p_id (p_id p) (payments d) = Some p"
    using assms(1,2) by (intro find_row_unique) (simp_all add: constraints_ok_def)
  with assms(3,4) show ?thesis by (simp add: update_payment_def)
qed

lemma conflicts_updated_at [simp]: "conflicts (p\<lparr>p_updated_at := t\<rparr>) ps = conflicts p ps"
  by (simp add: conflicts_iff)

definition resolution_allowed :: "payment \<Rightarrow> payment \<Rightarrow> uuid \<Rightarrow> bool" where
  "resolution_allowed p p' w \<longleftrightarrow>
     (p_status p = PENDING \<or> p_status p = UNKNOWN) \<and> \<not> p_requires_manual_review p \<and>
     (\<exists>st i c. terminal st \<and> (\<forall>t. p'\<lparr>p_updated_at := t\<rparr> = resolved st i c w t p))"

lemma resolution_allowedD:
  assumes "resolution_allowed p p' w"
  shows "p_id p' = p_id p" and "p' \<noteq> p"
proof -
  from assms obtain st i c where st: "terminal st" and eq: "p'\<lparr>p_updated_at := 0\<rparr> = resolved st i c w 0 p"
    by (auto simp: resolution_allowed_def)
  show "p_id p' = p_id p" using arg_cong [OF eq, of p_id] by (simp add: resolved_def)
  have "p_status p' = st" using arg_cong [OF eq, of p_status] by (simp add: resolved_def)
  with st assms show "p' \<noteq> p" by (auto simp: resolution_allowed_def)
qed

lemma with_resolution_step:
  assumes "p \<in> set (payments d)" and "resolution_allowed p p' w"
    and "\<not> conflicts p' (payments d)" and "w \<notin> o_id ` set (outbox_events d)"
    and "new_event WEBHOOK_DELIVERY_REQUESTED (p_id p) ev" and "o_id ev = w"
  shows "db_step d (with_resolution (p'\<lparr>p_updated_at := t\<rparr>) ev d)"
proof -
  from assms(2) obtain st i c where "terminal st" "p'\<lparr>p_updated_at := t\<rparr> = resolved st i c w t p"
    by (auto simp: resolution_allowed_def)
  moreover have "insert_outbox_event ev (d\<lparr>payments := replace_row p_id (p'\<lparr>p_updated_at := t\<rparr>) (payments d)\<rparr>) =
      Inr (with_resolution (p'\<lparr>p_updated_at := t\<rparr>) ev d)"
    using assms(4,6) by (simp add: insert_outbox_event_Inr with_resolution_def)
  moreover have "\<not> conflicts (p'\<lparr>p_updated_at := t\<rparr>) (payments d)" using assms(3) by simp
  moreover have "p_status p = PENDING \<or> p_status p = UNKNOWN" "\<not> p_requires_manual_review p"
    using assms(2) by (simp_all add: resolution_allowed_def)
  ultimately show ?thesis
    using assms(1,5,6) db_step.resolve [of p d st "p'\<lparr>p_updated_at := t\<rparr>" i c ev t] by simp
qed

text \<open>All or nothing, whatever the connection answers.\<close>

lemma wp_persist:
  assumes c: "constraints_ok (committed s)" and w: "working s = committed s"
    and p: "p \<in> set (payments (committed s))"
    and allowed: "resolution_allowed p p' (o_id ev)"
    and new: "\<And>t. new_event WEBHOOK_DELIVERY_REQUESTED (p_id p) (ev\<lparr>o_created_at := t\<rparr>)"
    and res: "res = with_resolution (p'\<lparr>p_updated_at := tx_now s\<rparr>) (created (tx_now s) ca ev) (committed s)"
    and E: "\<And>e s'. committed s' = committed s \<Longrightarrow> E e s'"
    and Q: "\<And>s'. db_step (committed s) res \<Longrightarrow> committed s' = res \<Longrightarrow> (\<forall>e. E e s') \<and> Q () s'"
  shows "wp (persist_resolution_rows p' ca ev) Q E s"
  unfolding persist_resolution_rows_def flush_payment_def add_outbox_event_def tx_simps
proof (intro wp_statementI)
  let ?d = "committed s"
  note id = resolution_allowedD [OF allowed]
  note upd = update_payment_changed [OF c p id]
  fix x d1 rs y d2 rs'
  assume 1: "(case update_payment (tx_now s) p' (working s) of Inl e \<Rightarrow> Inl e | Inr d' \<Rightarrow> Inr ((), d')) = Inr (x, d1)"
    and 2: "(let row = ev\<lparr>o_created_at := case ca of None \<Rightarrow> tx_now (s\<lparr>replies := rs, working := d1\<rparr>) | Some t \<Rightarrow> t\<rparr>
      in case insert_outbox_event row (working (s\<lparr>replies := rs, working := d1\<rparr>)) of
           Inl e \<Rightarrow> Inl e | Inr d' \<Rightarrow> Inr (row, d')) = Inr (y, d2)"
  from 1 w have nc: "\<not> conflicts p' (payments ?d)"
    and d1: "d1 = ?d\<lparr>payments := replace_row p_id (p'\<lparr>p_updated_at := tx_now s\<rparr>) (payments ?d)\<rparr>"
    by (auto simp: upd split: if_splits sum.splits)
  from 2 d1 have fresh: "o_id ev \<notin> o_id ` set (outbox_events ?d)" and d2: "d2 = res"
    by (cases ca; auto simp: Let_def insert_outbox_event_Inr res with_resolution_def created_def split: sum.splits)+
  have "new_event WEBHOOK_DELIVERY_REQUESTED (p_id p) (created (tx_now s) ca ev)"
    and "o_id (created (tx_now s) ca ev) = o_id ev"
    using new by (simp_all add: created_def)
  then have step: "db_step ?d res"
    unfolding res using p allowed nc fresh by (intro with_resolution_step) auto
  show "wp commit Q E (s\<lparr>replies := rs, working := d1\<rparr>\<lparr>replies := rs', working := d2\<rparr>)"
    by (intro wp_commitI) (use Q [OF step] d2 in \<open>simp_all add: E\<close>)
qed (simp_all add: E)

text \<open>A transaction that first reads a payment under its id.\<close>

lemma wp_read_by_id:
  assumes "\<And>e rs. E e (s\<lparr>replies := rs\<rparr>)" and "working s = committed s"
    and "\<And>rs. \<forall>p \<in> set (payments (committed s)). p_id p \<noteq> i \<Longrightarrow> Q None (s\<lparr>replies := rs\<rparr>)"
    and "\<And>p rs. p \<in> set (payments (committed s)) \<Longrightarrow> p_id p = i \<Longrightarrow> Q (Some p) (s\<lparr>replies := rs\<rparr>)"
  shows "wp (select_payment (\<lambda>p. p_id p = i)) Q E s"
  unfolding select_payment_def
proof (rule wp_statementI)
  fix x d rs
  assume "(case scalar_one_or_none (filter (\<lambda>p. p_id p = i) (payments (working s))) of
      Inl e \<Rightarrow> Inl e | Inr r \<Rightarrow> Inr (r, working s)) = Inr (x, d)"
  then have x: "scalar_one_or_none (filter (\<lambda>p. p_id p = i) (payments (committed s))) = Inr x"
    and d: "d = working s"
    using assms(2) by (auto split: sum.splits)
  show "Q x (s\<lparr>replies := rs, working := d\<rparr>)"
  proof (cases x)
    case None
    with x have "\<forall>p \<in> set (payments (committed s)). p_id p \<noteq> i"
      by (simp add: scalar_one_or_none_None filter_empty_conv)
    with assms(3) d None show ?thesis by simp
  next
    case (Some p)
    with x have "p \<in> set (payments (committed s))" "p_id p = i" by (auto dest: scalar_filter_SomeD)
    with assms(4) d Some show ?thesis by simp
  qed
qed (rule assms(1))

text \<open>A row step, flushed and committed.\<close>

lemma wp_flush_commit:
  assumes c: "constraints_ok (committed s)" and w: "working s = committed s"
    and p: "p \<in> set (payments (committed s))" and id: "p_id p' = p_id p" "p' \<noteq> p"
    and row: "\<And>t. row_step p (p'\<lparr>p_updated_at := t\<rparr>)"
    and res: "res = committed s\<lparr>payments := replace_row p_id (p'\<lparr>p_updated_at := tx_now s\<rparr>) (payments (committed s))\<rparr>"
    and E: "\<And>e s'. committed s' = committed s \<Longrightarrow> E e s'"
    and Q: "\<And>s'. db_step (committed s) res \<Longrightarrow> committed s' = res \<Longrightarrow> (\<forall>e. E e s') \<and> Q () s'"
  shows "wp (tx_bind (flush_payment p') (\<lambda>_. commit)) Q E s"
  unfolding flush_payment_def tx_simps
proof (rule wp_statementI)
  fix x d rs
  assume "(case update_payment (tx_now s) p' (working s) of Inl e \<Rightarrow> Inl e | Inr d' \<Rightarrow> Inr ((), d')) = Inr (x, d)"
  then have d: "d = res"
    using w by (auto simp: update_payment_changed [OF c p id] res split: if_splits sum.splits)
  have step: "db_step (committed s) res" unfolding res by (rule db_step.change [OF p row])
  show "wp commit Q E (s\<lparr>replies := rs, working := d\<rparr>)"
    by (intro wp_commitI) (use Q [OF step] d in \<open>simp_all add: E\<close>)
qed (simp add: E)

text \<open>With a connection that answers, the rows are written.\<close>

lemma persist_run:
  assumes "replies s = []" and "working s = committed s" and "constraints_ok (committed s)"
    and "p \<in> set (payments (committed s))" and "p_id p' = p_id p" and "p' \<noteq> p"
    and "\<not> conflicts p' (payments (committed s))"
    and "o_id ev \<notin> o_id ` set (outbox_events (committed s))"
  shows "persist_resolution_rows p' ca ev s =
    (let res = with_resolution (p'\<lparr>p_updated_at := tx_now s\<rparr>) (created (tx_now s) ca ev) (committed s)
     in (Inr (), s\<lparr>working := res, committed := res\<rparr>))"
  using assms update_payment_changed [OF assms(3-6)]
  by (simp add: persist_resolution_rows_def flush_payment_def add_outbox_event_def tx_run Let_def
      insert_outbox_event_def with_resolution_def created_def cong: option.case_cong)

text \<open>What holds of the committed database on every path of a session.\<close>

lemma in_session_cases:
  assumes "in_session m c d = (r, d')"
    and "wp m (\<lambda>x s. P (Inr x) (committed s)) (\<lambda>e s. P (Inl e) (committed s)) (begin_session d c)"
  shows "P r d'"
  using in_sessionI [OF assms(2)] assms(1) by simp

end
