(* ===== verification/Rabbit.thy ===== *)
theory Rabbit
  imports Errors Schemas
begin

text \<open>
  \<open>app/integrations/rabbitmq\<close>: the exchanges and queues, their bindings, and the publisher.

  Of RabbitMQ the model has what the code relies on: a direct exchange routes a message to the
  queues bound with its routing key; a mandatory message that routes nowhere is returned, which
  raises; a confirmed publish has stored the message; a failed one may or may not have. A queue
  dead-letters what is rejected or, given a time to live, what expires.
\<close>

subsection \<open>Topology\<close>

record rabbit_exchange =
  ex_name :: string
  ex_durable :: bool

record rabbit_queue =
  qu_name :: string
  qu_durable :: bool
  qu_routing_key :: string
  qu_message_ttl :: "int option"
  qu_dead_letter_exchange :: "string option"
  qu_dead_letter_routing_key :: "string option"

definition PAYMENTS_EXCHANGE :: rabbit_exchange where
  "PAYMENTS_EXCHANGE = \<lparr>ex_name = ''payments'', ex_durable = True\<rparr>"

definition PAYMENTS_DLX :: rabbit_exchange where
  "PAYMENTS_DLX = \<lparr>ex_name = ''payments.dlx'', ex_durable = True\<rparr>"

definition PAYMENTS_NEW_QUEUE :: rabbit_queue where
  "PAYMENTS_NEW_QUEUE =
     \<lparr>qu_name = ''payments.new'', qu_durable = True, qu_routing_key = ''payments.new'',
      qu_message_ttl = None, qu_dead_letter_exchange = Some (ex_name PAYMENTS_DLX),
      qu_dead_letter_routing_key = Some ''payments.dlq''\<rparr>"

definition PAYMENTS_RETRY_1_QUEUE :: rabbit_queue where
  "PAYMENTS_RETRY_1_QUEUE =
     \<lparr>qu_name = ''payments.retry.1'', qu_durable = True, qu_routing_key = ''payments.retry.1'',
      qu_message_ttl = Some 1000, qu_dead_letter_exchange = Some (ex_name PAYMENTS_EXCHANGE),
      qu_dead_letter_routing_key = Some (qu_routing_key PAYMENTS_NEW_QUEUE)\<rparr>"

definition PAYMENTS_RETRY_2_QUEUE :: rabbit_queue where
  "PAYMENTS_RETRY_2_QUEUE =
     \<lparr>qu_name = ''payments.retry.2'', qu_durable = True, qu_routing_key = ''payments.retry.2'',
      qu_message_ttl = Some 2000, qu_dead_letter_exchange = Some (ex_name PAYMENTS_EXCHANGE),
      qu_dead_letter_routing_key = Some (qu_routing_key PAYMENTS_NEW_QUEUE)\<rparr>"

definition PAYMENTS_DLQ :: rabbit_queue where
  "PAYMENTS_DLQ =
     \<lparr>qu_name = ''payments.dlq'', qu_durable = True, qu_routing_key = ''payments.dlq'',
      qu_message_ttl = None, qu_dead_letter_exchange = None, qu_dead_letter_routing_key = None\<rparr>"

text \<open>What \<open>declare_rabbitmq_topology\<close> leaves in the broker: each queue bound to an exchange.\<close>

definition declare_rabbitmq_topology :: "(rabbit_exchange \<times> string \<times> rabbit_queue) list" where
  "declare_rabbitmq_topology =
     [(PAYMENTS_EXCHANGE, qu_routing_key PAYMENTS_NEW_QUEUE, PAYMENTS_NEW_QUEUE),
      (PAYMENTS_EXCHANGE, qu_routing_key PAYMENTS_RETRY_1_QUEUE, PAYMENTS_RETRY_1_QUEUE),
      (PAYMENTS_EXCHANGE, qu_routing_key PAYMENTS_RETRY_2_QUEUE, PAYMENTS_RETRY_2_QUEUE),
      (PAYMENTS_DLX, qu_routing_key PAYMENTS_DLQ, PAYMENTS_DLQ)]"

definition route :: "(rabbit_exchange \<times> string \<times> rabbit_queue) list \<Rightarrow> string \<Rightarrow> string \<Rightarrow> rabbit_queue list" where
  "route bindings exchange key =
     map (\<lambda>(_, _, q). q) (filter (\<lambda>(x, k, _). ex_name x = exchange \<and> k = key) bindings)"

definition dead_letter :: "rabbit_queue \<Rightarrow> rabbit_queue list" where
  "dead_letter q =
     (case (qu_dead_letter_exchange q, qu_dead_letter_routing_key q) of
        (Some x, Some k) \<Rightarrow> route declare_rabbitmq_topology x k
      | _ \<Rightarrow> [])"

lemmas topology_defs =
  PAYMENTS_EXCHANGE_def PAYMENTS_DLX_def PAYMENTS_NEW_QUEUE_def PAYMENTS_RETRY_1_QUEUE_def
  PAYMENTS_RETRY_2_QUEUE_def PAYMENTS_DLQ_def declare_rabbitmq_topology_def route_def dead_letter_def

subsection \<open>Publishing\<close>

record rabbit_message =
  m_body :: raw_event
  m_exchange :: string
  m_routing_key :: string
  m_mandatory :: bool
  m_persist :: bool
  m_timeout :: seconds
  m_message_id :: string
  m_correlation_id :: string
  m_message_type :: string

datatype publish_reply = Confirmed | Failed_publish exn | Stored_unconfirmed exn

record broker =
  b_messages :: "rabbit_message list"
  b_replies :: "publish_reply list"

definition broker_publish :: "rabbit_message \<Rightarrow> broker \<Rightarrow> unit outcome \<times> broker" where
  "broker_publish m b =
     (if route declare_rabbitmq_topology (m_exchange m) (m_routing_key m) = [] \<and> m_mandatory m
      then (Inl (OtherException ''PublishError''), b)
      else
        (let stored = b\<lparr>b_messages := b_messages b @ [m]\<rparr>
         in case b_replies b of
              [] \<Rightarrow> (Inr (), stored)
            | Confirmed # rs \<Rightarrow> (Inr (), stored\<lparr>b_replies := rs\<rparr>)
            | Failed_publish e # rs \<Rightarrow> (Inl e, b\<lparr>b_replies := rs\<rparr>)
            | Stored_unconfirmed e # rs \<Rightarrow> (Inl e, stored\<lparr>b_replies := rs\<rparr>)))"

text \<open>\<open>RabbitEventPublisher\<close>: \<open>_publish\<close>, \<open>publish\<close> and \<open>publish_retry\<close>.\<close>

definition message_for :: "seconds \<Rightarrow> event_envelope \<Rightarrow> string \<Rightarrow> rabbit_message" where
  "message_for timeout_seconds event routing_key =
     \<lparr>m_body = envelope_dump event, m_exchange = ex_name PAYMENTS_EXCHANGE,
      m_routing_key = routing_key, m_mandatory = True, m_persist = True,
      m_timeout = timeout_seconds, m_message_id = uuid_str (e_event_id event),
      m_correlation_id = uuid_str (e_payment_id event),
      m_message_type = event_type_value (e_event_type event)\<rparr>"

definition publish_with_key :: "seconds \<Rightarrow> event_envelope \<Rightarrow> string \<Rightarrow> broker \<Rightarrow> unit outcome \<times> broker" where
  "publish_with_key timeout_seconds event routing_key =
     broker_publish (message_for timeout_seconds event routing_key)"

definition publish :: "seconds \<Rightarrow> event_envelope \<Rightarrow> broker \<Rightarrow> unit outcome \<times> broker" where
  "publish timeout_seconds event =
     publish_with_key timeout_seconds event (qu_routing_key PAYMENTS_NEW_QUEUE)"

definition publish_retry :: "seconds \<Rightarrow> event_envelope \<Rightarrow> broker \<Rightarrow> unit outcome \<times> broker" where
  "publish_retry timeout_seconds event b =
     (if e_attempt event = 2 then
        publish_with_key timeout_seconds event (qu_routing_key PAYMENTS_RETRY_1_QUEUE) b
      else if e_attempt event = 3 then
        publish_with_key timeout_seconds event (qu_routing_key PAYMENTS_RETRY_2_QUEUE) b
      else (Inl (ValueError ''Retry event attempt must be 2 or 3''), b))"

text \<open>The queues a message published with \<open>m\<close>'s exchange and key arrives in.\<close>

definition lands_in :: "rabbit_message \<Rightarrow> rabbit_queue list" where
  "lands_in m = route declare_rabbitmq_topology (m_exchange m) (m_routing_key m)"

lemma lands_in_new: "lands_in (message_for t e (qu_routing_key PAYMENTS_NEW_QUEUE)) = [PAYMENTS_NEW_QUEUE]"
  by (simp add: lands_in_def message_for_def topology_defs)

lemma lands_in_retry:
  "lands_in (message_for t e (qu_routing_key PAYMENTS_RETRY_1_QUEUE)) = [PAYMENTS_RETRY_1_QUEUE]"
  "lands_in (message_for t e (qu_routing_key PAYMENTS_RETRY_2_QUEUE)) = [PAYMENTS_RETRY_2_QUEUE]"
  by (simp_all add: lands_in_def message_for_def topology_defs)

lemma dead_letters:
  "dead_letter PAYMENTS_NEW_QUEUE = [PAYMENTS_DLQ]"
  "dead_letter PAYMENTS_RETRY_1_QUEUE = [PAYMENTS_NEW_QUEUE]"
  "dead_letter PAYMENTS_RETRY_2_QUEUE = [PAYMENTS_NEW_QUEUE]"
  "dead_letter PAYMENTS_DLQ = []"
  by (simp_all add: topology_defs)

text \<open>A publish that lands somewhere: confirmed means stored; otherwise stored or not.\<close>

lemma broker_publish_cases:
  assumes "broker_publish m b = (r, b')"
  shows "(b_messages b' = b_messages b \<and> r \<noteq> Inr ()) \<or> b_messages b' = b_messages b @ [m]"
  using assms
  by (auto simp: broker_publish_def Let_def split: if_splits list.splits publish_reply.splits)

lemma broker_publish_Inr: "broker_publish m b = (Inr (), b') \<Longrightarrow> b_messages b' = b_messages b @ [m]"
  using broker_publish_cases by blast

lemma publish_Inr:
  "publish t e b = (Inr (), b') \<Longrightarrow>
     b_messages b' = b_messages b @ [message_for t e (qu_routing_key PAYMENTS_NEW_QUEUE)]"
  by (simp add: publish_def publish_with_key_def broker_publish_Inr)

definition retry_queue :: "int \<Rightarrow> rabbit_queue" where
  "retry_queue attempt = (if attempt = 2 then PAYMENTS_RETRY_1_QUEUE else PAYMENTS_RETRY_2_QUEUE)"

lemma publish_retry_valid:
  "e_attempt e \<in> {2, 3} \<Longrightarrow>
     publish_retry t e = broker_publish (message_for t e (qu_routing_key (retry_queue (e_attempt e))))"
  by (auto simp: fun_eq_iff publish_retry_def publish_with_key_def retry_queue_def)


end
