(* ===== verification/Consumer.thy ===== *)
theory Consumer
  imports Rabbit Lifecycle
begin

text \<open>
  \<open>app/worker/consumer.py\<close>: what the worker does with one delivered message.

  The processor is the code's \<open>EventProcessor\<close> protocol: a computation on a world \<open>'w\<close> that
  returns or raises. \<open>handle\<close> yields the settlement the handler asked for, if it got that far,
  and how it ended. A message that is not settled stays with the broker, which delivers it again
  when the channel closes. \<open>event_processor\<close> is the contract the worker's processors have towards
  the consumer.
\<close>

definition MAX_ATTEMPTS :: int where
  "MAX_ATTEMPTS = 3"

datatype settlement = Ack | Nack | Reject

text \<open>\<open>settled\<close> says how a call of \<open>ack\<close>, \<open>nack\<close> or \<open>reject\<close> ends.\<close>

record 'w handled =
  hd_settlement :: "settlement option"
  hd_result :: "unit outcome"
  hd_broker :: broker
  hd_world :: 'w

definition settle :: "(settlement \<Rightarrow> unit outcome) \<Rightarrow> settlement \<Rightarrow> broker \<Rightarrow> 'w \<Rightarrow> 'w handled" where
  "settle settled s b w =
     \<lparr>hd_settlement = Some s, hd_result = settled s, hd_broker = b, hd_world = w\<rparr>"

definition retry_or_reject ::
  "(settlement \<Rightarrow> unit outcome) \<Rightarrow> seconds \<Rightarrow> event_envelope \<Rightarrow> broker \<Rightarrow> 'w \<Rightarrow> 'w handled" where
  "retry_or_reject settled timeout_seconds event b w =
     (if e_attempt event \<ge> MAX_ATTEMPTS then settle settled Reject b w
      else
        (let retry_event = event\<lparr>e_attempt := e_attempt event + 1\<rparr>
         in case publish_retry timeout_seconds retry_event b of
              (Inr _, b') \<Rightarrow> settle settled Ack b' w
            | (Inl exn, b') \<Rightarrow>
                if is_exception exn then settle settled Nack b' w
                else \<lparr>hd_settlement = None, hd_result = Inl exn, hd_broker = b', hd_world = w\<rparr>))"

definition handle ::
  "(event_envelope \<Rightarrow> 'w \<Rightarrow> unit outcome \<times> 'w) \<Rightarrow> (settlement \<Rightarrow> unit outcome) \<Rightarrow> seconds \<Rightarrow> raw_event \<Rightarrow>
     broker \<Rightarrow> 'w \<Rightarrow> 'w handled" where
  "handle process settled timeout_seconds body b w =
     (case envelope_validate body of
        None \<Rightarrow> settle settled Reject b w
      | Some event \<Rightarrow>
          (case process event w of
             (Inr _, w') \<Rightarrow> settle settled Ack b w'
           | (Inl (Event_exn (PermanentEventError _)), w') \<Rightarrow> settle settled Reject b w'
           | (Inl (Event_exn (RetryableEventError _)), w') \<Rightarrow>
               retry_or_reject settled timeout_seconds event b w'
           | (Inl exn, w') \<Rightarrow>
               if is_exception exn then retry_or_reject settled timeout_seconds event b w'
               else \<lparr>hd_settlement = None, hd_result = Inl exn, hd_broker = b, hd_world = w'\<rparr>))"

subsection \<open>Decision table\<close>

definition permanent :: "exn \<Rightarrow> bool" where
  "permanent exn \<longleftrightarrow> (\<exists>msg. exn = Event_exn (PermanentEventError msg))"

definition retry_of :: "event_envelope \<Rightarrow> event_envelope" where
  "retry_of event = event\<lparr>e_attempt := e_attempt event + 1\<rparr>"

definition retry_message :: "seconds \<Rightarrow> event_envelope \<Rightarrow> rabbit_message" where
  "retry_message t event =
     message_for t (retry_of event) (qu_routing_key (retry_queue (e_attempt event + 1)))"

lemma retry_of_ok [simp]: "envelope_ok event \<Longrightarrow> envelope_ok (retry_of event)"
  by (simp add: envelope_ok_def retry_of_def)

lemma retry_or_reject_cases:
  assumes "envelope_ok event"
  shows "retry_or_reject settled t event b w =
    (if e_attempt event \<ge> 3 then settle settled Reject b w
     else
       (case broker_publish (retry_message t event) b of
          (Inr _, b') \<Rightarrow> settle settled Ack b' w
        | (Inl exn, b') \<Rightarrow>
            if is_exception exn then settle settled Nack b' w
            else \<lparr>hd_settlement = None, hd_result = Inl exn, hd_broker = b', hd_world = w\<rparr>))"
proof (cases "e_attempt event \<ge> 3")
  case False
  then have "e_attempt (event\<lparr>e_attempt := e_attempt event + 1\<rparr>) \<in> {2, 3}"
    using assms by (auto simp: envelope_ok_def)
  with False show ?thesis
    by (simp add: retry_or_reject_def MAX_ATTEMPTS_def publish_retry_valid retry_message_def retry_of_def)
qed (simp add: retry_or_reject_def MAX_ATTEMPTS_def)

lemma handle_valid:
  "envelope_validate body = Some event \<Longrightarrow>
     handle process settled t body b w =
       (case process event w of
          (Inr _, w') \<Rightarrow> settle settled Ack b w'
        | (Inl exn, w') \<Rightarrow>
            if permanent exn then settle settled Reject b w'
            else if is_exception exn then retry_or_reject settled t event b w'
            else \<lparr>hd_settlement = None, hd_result = Inl exn, hd_broker = b, hd_world = w'\<rparr>)"
  by (auto simp: handle_def permanent_def split: prod.split sum.split exn.split event_error.split)

lemma settle_simps [simp]:
  "hd_settlement (settle settled s b w) = Some s" "hd_broker (settle settled s b w) = b"
  "hd_world (settle settled s b w) = w" "hd_result (settle settled s b w) = settled s"
  by (simp_all add: settle_def)

text \<open>The world after \<open>handle\<close> is the processor's, or untouched.\<close>

lemma handle_world:
  "hd_world (handle process settled t body b w) =
     (case envelope_validate body of None \<Rightarrow> w | Some event \<Rightarrow> snd (process event w))"
proof (cases "envelope_validate body")
  case (Some event)
  have "hd_world (retry_or_reject settled t event b w') = w'" for w'
    by (auto simp: retry_or_reject_def Let_def split: prod.splits sum.splits)
  with Some show ?thesis by (auto simp: handle_valid split: prod.splits sum.splits)
qed (simp add: handle_def)

lemma ack_cases:
  assumes "hd_settlement (handle process settled t body b w) = Some Ack"
  shows "\<exists>event. envelope_validate body = Some event \<and>
    (fst (process event w) = Inr () \<or>
     (e_attempt event < 3 \<and>
      b_messages (hd_broker (handle process settled t body b w)) = b_messages b @ [retry_message t event] \<and>
      lands_in (retry_message t event) = [retry_queue (e_attempt event + 1)] \<and>
      envelope_validate (m_body (retry_message t event)) = Some (retry_of event)))"
proof (cases "envelope_validate body")
  case None
  with assms show ?thesis by (simp add: handle_def)
next
  case (Some event)
  note ok = envelope_validate_ok [OF Some]
  have lands: "lands_in (retry_message t event) = [retry_queue (e_attempt event + 1)]"
    by (simp add: retry_message_def retry_queue_def lands_in_retry)
  have body: "envelope_validate (m_body (retry_message t event)) = Some (retry_of event)"
    using ok by (simp add: retry_message_def message_for_def envelope_validate_dump)
  obtain r w' where p: "process event w = (r, w')" by (cases "process event w")
  show ?thesis
  proof (cases r)
    case (Inr u)
    with Some p show ?thesis by auto
  next
    case (Inl exn)
    with assms Some p have "hd_settlement (retry_or_reject settled t event b w') = Some Ack"
      and h: "handle process settled t body b w = retry_or_reject settled t event b w'"
      by (auto simp: handle_valid split: if_splits)
    then obtain b' where "e_attempt event < 3" "broker_publish (retry_message t event) b = (Inr (), b')"
      and "hd_broker (handle process settled t body b w) = b'"
      using ok by (auto simp: retry_or_reject_cases split: if_splits prod.splits sum.splits)
    with Some lands body show ?thesis by (auto dest: broker_publish_Inr)
  qed
qed

text \<open>The consumer acknowledges a message only when its work is done or handed on: the
  processor returned, or the broker has stored, in a retry queue, the same event with its attempt
  raised by one, which the next delivery will accept.\<close>

theorem ack_means_done_or_handed_on:
  assumes "hd_settlement (handle process settled t body b w) = Some Ack"
  shows "\<exists>event. envelope_validate body = Some event \<and>
    (fst (process event w) = Inr () \<or>
     (e_attempt event < 3 \<and>
      b_messages (hd_broker (handle process settled t body b w)) = b_messages b @ [retry_message t event] \<and>
      lands_in (retry_message t event) = [retry_queue (e_attempt event + 1)] \<and>
      envelope_validate (m_body (retry_message t event)) = Some (retry_of event)))"
  using assms by (rule ack_cases)

text \<open>What is rejected, and so goes to the dead-letter queue: a message that is no valid
  envelope, one whose processing failed permanently, and one that failed at its third attempt,
  and nothing else.\<close>

theorem reject_iff:
  "hd_settlement (handle process settled t body b w) = Some Reject \<longleftrightarrow>
     (case envelope_validate body of
        None \<Rightarrow> True
      | Some event \<Rightarrow>
          (case fst (process event w) of
             Inr _ \<Rightarrow> False
           | Inl exn \<Rightarrow> permanent exn \<or> (is_exception exn \<and> e_attempt event \<ge> 3)))"
proof (cases "envelope_validate body")
  case (Some event)
  have "permanent exn \<Longrightarrow> is_exception exn" for exn by (auto simp: permanent_def)
  with Some envelope_validate_ok [OF Some] show ?thesis
    by (auto simp: handle_valid retry_or_reject_cases split: prod.splits sum.splits)
qed (simp add: handle_def)

text \<open>Every message gets a settlement, unless the processing or the publishing of the retry
  was cut off by something that is no \<open>Exception\<close>; it is returned to the queue only when a
  retry could not be published.\<close>

theorem settled_unless_cut_off:
  assumes "\<And>e. is_exception e \<or> (fst (process event w) \<noteq> Inl e \<and>
      fst (broker_publish (retry_message t event) b) \<noteq> Inl e)"
    and "envelope_validate body = Some event"
  shows "\<exists>s. hd_settlement (handle process settled t body b w) = Some s \<and>
    (s = Nack \<longrightarrow> (\<exists>exn. fst (broker_publish (retry_message t event) b) = Inl exn \<and> is_exception exn))"
proof -
  obtain r w' where p: "process event w = (r, w')" by (cases "process event w")
  obtain r' b' where q: "broker_publish (retry_message t event) b = (r', b')"
    by (cases "broker_publish (retry_message t event) b")
  show ?thesis
    using assms p q envelope_validate_ok [OF assms(2)]
    by (auto simp: handle_valid retry_or_reject_cases split: sum.split)
qed

subsection \<open>The life of a message\<close>

text \<open>With a broker that stores every retry, a message and its retries, one after the other: the
  attempts that were processed, the last settlement and the world afterwards.\<close>

fun deliveries ::
  "nat \<Rightarrow> (event_envelope \<Rightarrow> 'w \<Rightarrow> unit outcome \<times> 'w) \<Rightarrow> seconds \<Rightarrow> raw_event \<Rightarrow> 'w \<Rightarrow>
     (int list \<times> settlement option \<times> 'w) option" where
  "deliveries 0 process t body w = None"
| "deliveries (Suc n) process t body w =
     (let h = handle process (\<lambda>_. Inr ()) t body \<lparr>b_messages = [], b_replies = []\<rparr> w;
          attempt = (case envelope_validate body of None \<Rightarrow> [] | Some e \<Rightarrow> [e_attempt e])
      in case b_messages (hd_broker h) of
           [] \<Rightarrow> Some (attempt, hd_settlement h, hd_world h)
         | m # _ \<Rightarrow>
             map_option (\<lambda>(as, s, w'). (attempt @ as, s, w'))
               (deliveries n process t (m_body m) (hd_world h)))"

lemma confirmed_publish:
  "broker_publish (retry_message t event) \<lparr>b_messages = [], b_replies = []\<rparr> =
     (Inr (), \<lparr>b_messages = [retry_message t event], b_replies = []\<rparr>)"
  using lands_in_retry
  by (simp add: broker_publish_def Let_def retry_message_def retry_queue_def flip: lands_in_def)

lemma delivery_step:
  assumes "envelope_ok event"
  shows "deliveries (Suc n) process t (envelope_dump event) w =
    (case process event w of
       (Inr _, w') \<Rightarrow> Some ([e_attempt event], Some Ack, w')
     | (Inl exn, w') \<Rightarrow>
         if permanent exn then Some ([e_attempt event], Some Reject, w')
         else if \<not> is_exception exn then Some ([e_attempt event], None, w')
         else if e_attempt event \<ge> 3 then Some ([e_attempt event], Some Reject, w')
         else map_option (\<lambda>(as, s, w'). (e_attempt event # as, s, w'))
                (deliveries n process t (envelope_dump (retry_of event)) w'))"
proof -
  have v: "envelope_validate (envelope_dump event) = Some event"
    using assms by (simp add: envelope_validate_dump)
  have body: "m_body (retry_message t event) = envelope_dump (retry_of event)"
    by (simp add: retry_message_def message_for_def)
  obtain r w' where p: "process event w = (r, w')" by (cases "process event w")
  have perm: "permanent exn \<Longrightarrow> is_exception exn" for exn by (auto simp: permanent_def)
  show ?thesis
  proof (cases r)
    case (Inl exn)
    then show ?thesis
      using assms p perm
      by (cases "permanent exn"; cases "is_exception exn"; cases "e_attempt event \<ge> 3")
        (simp_all add: Let_def handle_valid [OF v] v retry_or_reject_cases confirmed_publish body)
  qed (simp add: Let_def handle_valid [OF v] v p)
qed


subsection \<open>The contract of a processor\<close>

text \<open>Towards the consumer: processing moves the database by steps of the lifecycle only, and an
  event of a type it does not serve fails permanently, with nothing done.\<close>

locale event_processor =
  fixes process :: "'c \<Rightarrow> event_envelope \<Rightarrow> database \<Rightarrow> unit outcome \<times> database"
    and admissible :: "'c \<Rightarrow> bool"
    and serves :: "event_type \<Rightarrow> bool"
  assumes moves: "db_inv d \<Longrightarrow> admissible env \<Longrightarrow> db_step\<^sup>*\<^sup>* d (snd (process env event d))"
    and foreign: "\<not> serves (e_event_type event) \<Longrightarrow>
      \<exists>msg. process env event d = (raise_permanent msg, d)"
begin

lemma handle_moves:
  assumes "db_inv d" and "admissible env"
  shows "db_step\<^sup>*\<^sup>* d (hd_world (handle (process env) settled t body b d))"
  using assms moves by (auto simp: handle_world split: option.split)

lemma handle_foreign:
  assumes "envelope_validate body = Some event" and "\<not> serves (e_event_type event)"
  shows "hd_settlement (handle (process env) settled t body b d) = Some Reject \<and>
    hd_world (handle (process env) settled t body b d) = d"
proof -
  obtain msg where "process env event d = (raise_permanent msg, d)" using foreign [OF assms(2)] by blast
  with assms(1) show ?thesis by (simp add: handle_valid permanent_def)
qed

end

text \<open>Seen with its environment as the argument, a processor is a transaction of the
  lifecycle.\<close>

sublocale event_processor \<subseteq>
  processing: transaction "\<lambda>(env, event) (_ :: unit) d. process env event d" "\<lambda>(env, event). admissible env"
  using moves by unfold_locales auto

subsection \<open>Concrete messages\<close>

definition sample_event :: event_envelope where
  "sample_event = \<lparr>e_event_id = UUID 2, e_event_type = PAYMENT_PROCESS_REQUESTED, e_schema_version = 1,
     e_payment_id = UUID 1, e_attempt = 1, e_occurred_at = 50\<rparr>"

definition failing :: "event_envelope \<Rightarrow> nat \<Rightarrow> unit outcome \<times> nat" where
  "failing event w = (raise_retryable ''down'', w + 1)"

lemma sample_event_ok [simp]: "envelope_ok sample_event" "e_attempt sample_event = 1"
  by (simp_all add: sample_event_def envelope_ok_def)

lemma sample_handle:
  "handle failing (\<lambda>_. Inr ()) 5 (envelope_dump sample_event) \<lparr>b_messages = [], b_replies = []\<rparr> 0 =
     \<lparr>hd_settlement = Some Ack, hd_result = Inr (),
      hd_broker = \<lparr>b_messages = [retry_message 5 sample_event], b_replies = []\<rparr>, hd_world = 1\<rparr>"
  by (simp add: handle_valid envelope_validate_dump failing_def permanent_def retry_or_reject_cases
      confirmed_publish settle_def)

lemma ack_means_done_or_handed_on_witness:
  "\<exists>event. envelope_validate (envelope_dump sample_event) = Some event \<and>
     (fst (failing event 0) = Inr () \<or>
      (e_attempt event < 3 \<and> [retry_message 5 sample_event] = [retry_message 5 event] \<and>
       lands_in (retry_message 5 event) = [retry_queue (e_attempt event + 1)] \<and>
       envelope_validate (m_body (retry_message 5 event)) = Some (retry_of event)))"
  using ack_means_done_or_handed_on [of failing "\<lambda>_. Inr ()" 5 "envelope_dump sample_event"
      "\<lparr>b_messages = [], b_replies = []\<rparr>" 0]
  by (simp add: sample_handle)

lemma settled_unless_cut_off_witness:
  "\<exists>s. hd_settlement (handle failing (\<lambda>_. Inr ()) 5 (envelope_dump sample_event)
      \<lparr>b_messages = [], b_replies = []\<rparr> 0) = Some s \<and>
    (s = Nack \<longrightarrow> (\<exists>exn. fst (broker_publish (retry_message 5 sample_event)
      \<lparr>b_messages = [], b_replies = []\<rparr>) = Inl exn \<and> is_exception exn))"
  by (rule settled_unless_cut_off)
    (auto simp: failing_def confirmed_publish envelope_validate_dump)


end
