(* ===== verification/Circuit_Breaker.thy ===== *)
theory Circuit_Breaker
  imports Errors "HOL-Library.Multiset"
begin

text \<open>
  \<open>app/resilience/circuit_breaker.py\<close>: the breaker around the payment provider.

  One breaker object is shared by every message the worker handles concurrently. Its methods
  have no \<open>await\<close>, so each runs in one piece; only \<open>call\<close> suspends, while its operation runs.
  \<open>before_call\<close>, the four \<open>record_\<close> functions and \<open>record_outcome\<close> (the chain of \<open>except\<close>
  clauses) are those pieces; \<open>call\<close> composes them, with whatever other calls do to the breaker
  in between as a parameter; \<open>breaker_step\<close> interleaves any number of calls. Each reading of
  \<open>monotonic()\<close> is an argument.
\<close>

datatype breaker_state = CLOSED | OPEN | HALF_OPEN

record breaker =
  failure_threshold :: int
  recovery_timeout_seconds :: seconds
  b_state :: breaker_state
  failure_count :: int
  opened_at :: "seconds option"

definition CircuitBreaker :: "int \<Rightarrow> seconds \<Rightarrow> breaker outcome" where
  "CircuitBreaker threshold timeout =
     (if threshold < 1 then Inl (ValueError ''failure_threshold must be at least 1'')
      else if timeout < 0 then Inl (ValueError ''recovery_timeout_seconds must not be negative'')
      else Inr \<lparr>failure_threshold = threshold, recovery_timeout_seconds = timeout,
                b_state = CLOSED, failure_count = 0, opened_at = None\<rparr>)"

definition before_call :: "seconds \<Rightarrow> breaker \<Rightarrow> bool outcome \<times> breaker" where
  "before_call now b =
     (case b_state b of
        CLOSED \<Rightarrow> (Inr False, b)
      | HALF_OPEN \<Rightarrow> (Inl CircuitBreakerOpenError, b)
      | OPEN \<Rightarrow>
          (case opened_at b of
             None \<Rightarrow> (Inl (RuntimeError ''Circuit Breaker is open without opened_at time''), b)
           | Some t \<Rightarrow>
               if now - t < recovery_timeout_seconds b then (Inl CircuitBreakerOpenError, b)
               else (Inr True, b\<lparr>b_state := HALF_OPEN\<rparr>)))"

definition record_success :: "bool \<Rightarrow> breaker \<Rightarrow> breaker" where
  "record_success is_half_open_probe b =
     (if is_half_open_probe then
        (if b_state b \<noteq> HALF_OPEN then b
         else b\<lparr>b_state := CLOSED, failure_count := 0, opened_at := None\<rparr>)
      else if b_state b \<noteq> CLOSED then b
      else b\<lparr>failure_count := 0, opened_at := None\<rparr>)"

definition record_failure :: "seconds \<Rightarrow> bool \<Rightarrow> breaker \<Rightarrow> breaker" where
  "record_failure now is_half_open_probe b =
     (if is_half_open_probe then
        (if b_state b \<noteq> HALF_OPEN then b else b\<lparr>b_state := OPEN, opened_at := Some now\<rparr>)
      else if b_state b \<noteq> CLOSED then b
      else
        (let b' = b\<lparr>failure_count := failure_count b + 1\<rparr>
         in if failure_count b' \<ge> failure_threshold b'
            then b'\<lparr>b_state := OPEN, opened_at := Some now\<rparr>
            else b'))"

definition record_cancelled_probe :: "seconds \<Rightarrow> bool \<Rightarrow> breaker \<Rightarrow> breaker" where
  "record_cancelled_probe now is_half_open_probe b =
     (if \<not> is_half_open_probe then b
      else if b_state b \<noteq> HALF_OPEN then b
      else b\<lparr>b_state := OPEN, opened_at := Some now\<rparr>)"

definition record_inconclusive_probe :: "seconds \<Rightarrow> bool \<Rightarrow> breaker \<Rightarrow> breaker" where
  "record_inconclusive_probe now is_half_open_probe b =
     (if \<not> is_half_open_probe then b
      else if b_state b \<noteq> HALF_OPEN then b
      else b\<lparr>b_state := OPEN, opened_at := Some now\<rparr>)"

text \<open>The \<open>except\<close> clauses of \<open>call\<close>, in order, and its last two lines.\<close>

definition record_outcome :: "seconds \<Rightarrow> bool \<Rightarrow> 'r outcome \<Rightarrow> breaker \<Rightarrow> breaker" where
  "record_outcome now probe r b =
     (case r of
        Inr _ \<Rightarrow> record_success probe b
      | Inl CancelledError \<Rightarrow> record_cancelled_probe now probe b
      | Inl (Provider_exn ProviderUnavailableError) \<Rightarrow> record_failure now probe b
      | Inl (Provider_exn ProviderAmbiguousOutcomeError) \<Rightarrow> record_failure now probe b
      | Inl (Provider_exn (ProviderPermanentError _)) \<Rightarrow> record_success probe b
      | Inl e \<Rightarrow> if is_exception e then record_inconclusive_probe now probe b else b)"

text \<open>
  \<open>call\<close>: the operation is a computation on a world \<open>'w\<close>; \<open>others\<close> is what the other calls do
  to the breaker while it runs.
\<close>

definition call ::
  "seconds \<Rightarrow> (breaker \<Rightarrow> breaker) \<Rightarrow> seconds \<Rightarrow> ('a \<Rightarrow> 'w \<Rightarrow> 'r outcome \<times> 'w) \<Rightarrow> 'a \<Rightarrow> 'w \<Rightarrow> breaker \<Rightarrow>
     'r outcome \<times> 'w \<times> breaker" where
  "call begun others ended operation argument w b =
     (case before_call begun b of
        (Inl e, b1) \<Rightarrow> (Inl e, w, b1)
      | (Inr probe, b1) \<Rightarrow>
          (case operation argument w of
             (r, w') \<Rightarrow> (r, w', record_outcome ended probe r (others b1))))"

lemmas breaker_defs =
  before_call_def record_success_def record_failure_def record_cancelled_probe_def
  record_inconclusive_probe_def record_outcome_def

subsection \<open>The invariant of the object\<close>

definition breaker_ok :: "breaker \<Rightarrow> bool" where
  "breaker_ok b \<longleftrightarrow>
     1 \<le> failure_threshold b \<and> 0 \<le> recovery_timeout_seconds b \<and> 0 \<le> failure_count b \<and>
     (b_state b = CLOSED \<longleftrightarrow> opened_at b = None) \<and>
     (b_state b = CLOSED \<longrightarrow> failure_count b < failure_threshold b)"

lemma new_breaker_ok: "CircuitBreaker n t = Inr b \<Longrightarrow> breaker_ok b"
  by (auto simp: CircuitBreaker_def breaker_ok_def split: if_splits)

lemma before_call_ok: "breaker_ok b \<Longrightarrow> breaker_ok (snd (before_call now b))"
  by (auto simp: before_call_def breaker_ok_def split: breaker_state.splits option.splits)

lemma record_success_ok: "breaker_ok b \<Longrightarrow> breaker_ok (record_success probe b)"
  by (auto simp: record_success_def breaker_ok_def)

lemma record_failure_ok: "breaker_ok b \<Longrightarrow> breaker_ok (record_failure now probe b)"
  by (auto simp: record_failure_def breaker_ok_def Let_def)

lemma record_probe_ok:
  "breaker_ok b \<Longrightarrow> breaker_ok (record_cancelled_probe now probe b)"
  "breaker_ok b \<Longrightarrow> breaker_ok (record_inconclusive_probe now probe b)"
  by (auto simp: record_cancelled_probe_def record_inconclusive_probe_def breaker_ok_def)

lemma record_outcome_ok: "breaker_ok b \<Longrightarrow> breaker_ok (record_outcome now probe r b)"
  by (auto simp: record_outcome_def intro: record_success_ok record_failure_ok record_probe_ok
      split: sum.split exn.split provider_error.split)

text \<open>A probe's outcome settles a half-open breaker; a non-probe's counts in a closed one only.\<close>

definition settles :: "'r outcome \<Rightarrow> bool" where
  "settles r \<longleftrightarrow> (case r of Inl (OtherBaseException _) \<Rightarrow> False | _ \<Rightarrow> True)"

definition trial_passed :: "'r outcome \<Rightarrow> bool" where
  "trial_passed r \<longleftrightarrow>
     (case r of Inr _ \<Rightarrow> True | Inl (Provider_exn (ProviderPermanentError _)) \<Rightarrow> True | _ \<Rightarrow> False)"

definition provider_failed :: "'r outcome \<Rightarrow> bool" where
  "provider_failed r \<longleftrightarrow>
     r = Inl (Provider_exn ProviderUnavailableError) \<or>
     r = Inl (Provider_exn ProviderAmbiguousOutcomeError)"

lemma probe_outcome:
  "b_state b = HALF_OPEN \<Longrightarrow>
     record_outcome now True r b =
       (if trial_passed r then b\<lparr>b_state := CLOSED, failure_count := 0, opened_at := None\<rparr>
        else if settles r then b\<lparr>b_state := OPEN, opened_at := Some now\<rparr>
        else b)"
  by (auto simp: breaker_defs trial_passed_def settles_def
      split: sum.split exn.split provider_error.split)

lemma late_outcome: "b_state b \<noteq> CLOSED \<Longrightarrow> record_outcome now False r b = b"
  by (auto simp: breaker_defs split: sum.split exn.split provider_error.split)

lemma ordinary_outcome:
  "b_state b = CLOSED \<Longrightarrow>
     record_outcome now False r b =
       (if trial_passed r then b\<lparr>failure_count := 0, opened_at := None\<rparr>
        else if provider_failed r then record_failure now False b
        else b)"
  by (auto simp: breaker_defs trial_passed_def provider_failed_def
      split: sum.split exn.split provider_error.split)

subsection \<open>Any number of concurrent calls\<close>

record breaker_system =
  the_breaker :: breaker
  in_flight :: "bool multiset"
  clock :: seconds

datatype breaker_event = Admitted bool | Refused exn | Finished bool "unit outcome"

inductive breaker_step :: "breaker_system \<Rightarrow> breaker_event \<Rightarrow> breaker_system \<Rightarrow> bool" where
  admit: "clock s \<le> t \<Longrightarrow> before_call t (the_breaker s) = (Inr probe, b) \<Longrightarrow>
     breaker_step s (Admitted probe) \<lparr>the_breaker = b, in_flight = add_mset probe (in_flight s), clock = t\<rparr>"
| refuse: "clock s \<le> t \<Longrightarrow> before_call t (the_breaker s) = (Inl e, b) \<Longrightarrow>
     breaker_step s (Refused e) \<lparr>the_breaker = b, in_flight = in_flight s, clock = t\<rparr>"
| finish: "clock s \<le> t \<Longrightarrow> probe \<in># in_flight s \<Longrightarrow>
     breaker_step s (Finished probe r)
       \<lparr>the_breaker = record_outcome t probe r (the_breaker s),
        in_flight = in_flight s - {#probe#}, clock = t\<rparr>"

inductive breaker_run :: "breaker_system \<Rightarrow> breaker_event list \<Rightarrow> breaker_system \<Rightarrow> bool" where
  run_nil: "breaker_run s [] s"
| run_snoc: "breaker_run s evs s' \<Longrightarrow> breaker_step s' ev s'' \<Longrightarrow> breaker_run s (evs @ [ev]) s''"

inductive_cases breaker_stepE: "breaker_step s ev s'"

definition started :: "breaker \<Rightarrow> seconds \<Rightarrow> breaker_system" where
  "started b t = \<lparr>the_breaker = b, in_flight = {#}, clock = t\<rparr>"

definition system_ok :: "breaker_system \<Rightarrow> bool" where
  "system_ok s \<longleftrightarrow>
     breaker_ok (the_breaker s) \<and>
     (\<forall>t. opened_at (the_breaker s) = Some t \<longrightarrow> t \<le> clock s) \<and>
     count (in_flight s) True \<le> (if b_state (the_breaker s) = HALF_OPEN then 1 else 0)"

lemma opened_at_outcome:
  "opened_at (record_outcome t probe r b) \<in> {opened_at b, None, Some t}"
  by (cases probe; cases "b_state b")
    (simp_all add: probe_outcome late_outcome ordinary_outcome record_failure_def Let_def,
     simp_all add: breaker_defs split: sum.split exn.split provider_error.split)

lemma opened_at_le:
  assumes "\<forall>t. opened_at b = Some t \<longrightarrow> t \<le> c" and "c \<le> t"
  shows "\<forall>u. opened_at (record_outcome t probe r b) = Some u \<longrightarrow> u \<le> t"
  using assms opened_at_outcome [of t probe r b] by fastforce

lemma system_ok_step:
  assumes "breaker_step s ev s'" and "system_ok s"
  shows "system_ok s'"
  using assms
proof (induction rule: breaker_step.induct)
  case (admit s t probe b)
  from admit(2,3) before_call_ok [of "the_breaker s" t] have "breaker_ok b"
    by (simp add: system_ok_def)
  moreover have "opened_at b = opened_at (the_breaker s)"
    using admit(2) by (auto simp: before_call_def split: breaker_state.splits option.splits if_splits)
  moreover have "count (add_mset probe (in_flight s)) True \<le> (if b_state b = HALF_OPEN then 1 else 0)"
    using admit(2,3)
    by (auto simp: before_call_def system_ok_def split: breaker_state.splits option.splits if_splits)
  ultimately show ?case using admit(1,3) by (fastforce simp: system_ok_def)
next
  case (refuse s t e b)
  then have "b = the_breaker s"
    by (auto simp: before_call_def split: breaker_state.splits option.splits if_splits)
  with refuse(1,3) show ?case by (fastforce simp: system_ok_def)
next
  case (finish s t probe r)
  let ?b = "the_breaker s" and ?b' = "record_outcome t probe r (the_breaker s)"
  have "breaker_ok ?b'" using finish(3) by (simp add: system_ok_def record_outcome_ok)
  moreover have "\<forall>u. opened_at ?b' = Some u \<longrightarrow> u \<le> t"
    using finish(1,3) by (intro opened_at_le) (auto simp: system_ok_def)
  moreover have "count (in_flight s - {#probe#}) True \<le> (if b_state ?b' = HALF_OPEN then 1 else 0)"
  proof (cases probe)
    case True
    with finish(2,3) show ?thesis by (auto simp: system_ok_def split: if_splits)
  next
    case False
    then have no: "probe = False" by simp
    have "b_state ?b' = HALF_OPEN \<longleftrightarrow> b_state ?b = HALF_OPEN"
      unfolding no by (cases "b_state ?b = CLOSED")
        (auto simp: ordinary_outcome late_outcome record_failure_def Let_def)
    with False finish(3) show ?thesis by (simp add: system_ok_def)
  qed
  ultimately show ?case by (simp add: system_ok_def)
qed

lemma system_ok_run: "breaker_run s evs s' \<Longrightarrow> system_ok s \<Longrightarrow> system_ok s'"
  by (induction rule: breaker_run.induct) (auto intro: system_ok_step)

lemma system_ok_started: "breaker_ok b \<Longrightarrow> b_state b = CLOSED \<Longrightarrow> system_ok (started b t)"
  by (simp add: system_ok_def started_def breaker_ok_def)

lemma new_system_ok: "CircuitBreaker n r = Inr b \<Longrightarrow> system_ok (started b t)"
  by (rule system_ok_started) (auto simp: new_breaker_ok CircuitBreaker_def split: if_splits)

lemma no_trial: "system_ok s \<Longrightarrow> b_state (the_breaker s) \<noteq> HALF_OPEN \<Longrightarrow> True \<notin># in_flight s"
  by (simp add: system_ok_def not_in_iff)

lemma refused_open:
  assumes "breaker_ok b" and "before_call t b = (Inl e, b')"
  shows "e = CircuitBreakerOpenError"
  using assms by (auto simp: before_call_def breaker_ok_def split: breaker_state.splits option.splits if_splits)

lemma refused_run:
  assumes "breaker_run s evs s'" and "system_ok s" and "Refused e \<in> set evs"
  shows "e = CircuitBreakerOpenError"
  using assms
proof (induction rule: breaker_run.induct)
  case (run_snoc s evs s' ev s'')
  show ?case
  proof (cases "Refused e \<in> set evs")
    case False
    with run_snoc have "breaker_step s' (Refused e) s''" by simp
    then obtain t b where "before_call t (the_breaker s') = (Inl e, b)"
      by (auto elim: breaker_stepE)
    moreover have "breaker_ok (the_breaker s')"
      using system_ok_run [OF run_snoc(1)] run_snoc by (simp add: system_ok_def)
    ultimately show ?thesis by (rule refused_open [rotated])
  qed (use run_snoc in simp)
qed simp

text \<open>C16. However many calls overlap, in whatever order they start and end, at most one trial
  call is in flight, and only while the breaker is half open; a call that is refused is refused
  with \<open>CircuitBreakerOpenError\<close>, never with one of the two internal errors.\<close>

theorem at_most_one_trial:
  assumes "CircuitBreaker n r = Inr b" and "breaker_run (started b t) evs s"
  shows "count (in_flight s) True \<le> 1 \<and>
    (True \<in># in_flight s \<longrightarrow> b_state (the_breaker s) = HALF_OPEN) \<and>
    (\<forall>e. Refused e \<in> set evs \<longrightarrow> e = CircuitBreakerOpenError)"
proof -
  have ok: "system_ok s" by (rule system_ok_run [OF assms(2) new_system_ok [OF assms(1)]])
  then have "count (in_flight s) True \<le> (if b_state (the_breaker s) = HALF_OPEN then 1 else 0)"
    by (simp add: system_ok_def)
  moreover from no_trial [OF ok] have "True \<in># in_flight s \<longrightarrow> b_state (the_breaker s) = HALF_OPEN"
    by blast
  ultimately show ?thesis
    using refused_run [OF assms(2) new_system_ok [OF assms(1)]] by (auto split: if_splits)
qed

lemma open_silent_step:
  assumes "breaker_step s ev s'" and "system_ok s" and "b_state (the_breaker s) = OPEN"
    and "opened_at (the_breaker s) = Some t0"
    and "clock s' < t0 + recovery_timeout_seconds (the_breaker s)"
  shows "the_breaker s' = the_breaker s \<and> (\<forall>p. ev \<noteq> Admitted p)"
  using assms
proof (induction rule: breaker_step.induct)
  case (finish s t probe r)
  then have "probe = False" using no_trial [of s] by (cases probe) auto
  then show ?case using finish(4) by (simp add: late_outcome)
qed (auto simp: before_call_def)

lemma clock_mono: "breaker_run s evs s' \<Longrightarrow> clock s \<le> clock s'"
  by (induction rule: breaker_run.induct) (auto elim!: breaker_stepE)

lemma open_silent_run:
  assumes "breaker_run s evs s'" and "system_ok s" and "b_state (the_breaker s) = OPEN"
    and "opened_at (the_breaker s) = Some t0"
    and "clock s' < t0 + recovery_timeout_seconds (the_breaker s)"
  shows "the_breaker s' = the_breaker s \<and> (\<forall>p. Admitted p \<notin> set evs)"
  using assms
proof (induction rule: breaker_run.induct)
  case (run_snoc s evs s' ev s'')
  have "clock s' \<le> clock s''" using run_snoc(2) by (auto elim!: breaker_stepE)
  with run_snoc have ih: "the_breaker s' = the_breaker s" "\<forall>p. Admitted p \<notin> set evs" by auto
  have "system_ok s'" by (rule system_ok_run [OF run_snoc(1,4)])
  with run_snoc ih open_silent_step [OF run_snoc(2)] show ?case by auto
qed simp

text \<open>C28. Once open, the breaker lets no operation start until the recovery timeout has
  elapsed since it opened, whatever calls arrive and whatever earlier calls still report.\<close>

theorem open_breaker_is_silent:
  assumes "CircuitBreaker n r = Inr b" and "breaker_run (started b t) evs s"
    and "b_state (the_breaker s) = OPEN" and "opened_at (the_breaker s) = Some t0"
    and "breaker_run s evs' s'" and "clock s' < t0 + recovery_timeout_seconds (the_breaker s)"
  shows "the_breaker s' = the_breaker s \<and> (\<forall>p. Admitted p \<notin> set evs')"
  by (rule open_silent_run [OF assms(5) system_ok_run [OF assms(2) new_system_ok [OF assms(1)]] assms(3,4,6)])

definition trial_tracked :: "breaker_system \<Rightarrow> bool" where
  "trial_tracked s \<longleftrightarrow>
     count (in_flight s) True = (if b_state (the_breaker s) = HALF_OPEN then 1 else 0)"

lemma tracked_iff: "trial_tracked s \<Longrightarrow> b_state (the_breaker s) = HALF_OPEN \<longleftrightarrow> True \<in># in_flight s"
  using not_in_iff [of True "in_flight s"] by (auto simp: trial_tracked_def split: if_splits)

lemma trial_tracked_step:
  assumes "breaker_step s ev s'" and "trial_tracked s" and "\<And>p r. ev = Finished p r \<Longrightarrow> settles r"
  shows "trial_tracked s'"
  using assms
proof (induction rule: breaker_step.induct)
  case (admit s t probe b)
  then show ?case
    by (auto simp: trial_tracked_def before_call_def split: breaker_state.splits option.splits if_splits)
next
  case (refuse s t e b)
  then have "b = the_breaker s"
    by (auto simp: before_call_def split: breaker_state.splits option.splits if_splits)
  with refuse show ?case by (simp add: trial_tracked_def)
next
  case (finish s t probe r)
  let ?b = "the_breaker s"
  show ?case
  proof (cases probe)
    case True
    then have half: "b_state ?b = HALF_OPEN" using finish tracked_iff by auto
    then have "count (in_flight s) True = 1" using finish(3) by (simp add: trial_tracked_def)
    moreover have "settles r" using finish(4) by simp
    ultimately show ?thesis using True half by (simp add: trial_tracked_def probe_outcome)
  next
    case False
    then have no: "probe = False" by simp
    have "b_state (record_outcome t probe r ?b) = HALF_OPEN \<longleftrightarrow> b_state ?b = HALF_OPEN"
      unfolding no by (cases "b_state ?b = CLOSED")
        (auto simp: ordinary_outcome late_outcome record_failure_def Let_def)
    with no finish(3) show ?thesis by (simp add: trial_tracked_def)
  qed
qed

lemma trial_tracked_run:
  assumes "breaker_run s evs s'" and "trial_tracked s" and "\<forall>p r. Finished p r \<in> set evs \<longrightarrow> settles r"
  shows "trial_tracked s'"
  using assms
proof (induction rule: breaker_run.induct)
  case (run_snoc s evs s' ev s'')
  then have "trial_tracked s'" by simp
  with run_snoc(2) show ?case by (rule trial_tracked_step) (use run_snoc.prems in auto)
qed

text \<open>As long as every operation that ends, ends with a result, an \<open>Exception\<close> or a
  cancellation, the breaker is half open exactly while a trial is in flight: it cannot get
  stuck refusing every call.\<close>

theorem half_open_iff_trial:
  assumes "CircuitBreaker n r = Inr b" and "breaker_run (started b t) evs s"
    and "\<forall>p r. Finished p r \<in> set evs \<longrightarrow> settles r"
  shows "b_state (the_breaker s) = HALF_OPEN \<longleftrightarrow> True \<in># in_flight s"
proof -
  have "trial_tracked (started b t)"
    using assms(1) by (auto simp: trial_tracked_def started_def CircuitBreaker_def split: if_splits)
  then show ?thesis by (intro tracked_iff trial_tracked_run [OF assms(2) _ assms(3)])
qed

subsection \<open>One call after the other\<close>

definition after_call :: "seconds \<times> 'r outcome \<Rightarrow> breaker \<Rightarrow> breaker" where
  "after_call = (\<lambda>(t, r) b. snd (snd (call t (\<lambda>b. b) t (\<lambda>_ w. (r, w)) () () b)))"

text \<open>The failures since the last success.\<close>

definition streak :: "'r outcome list \<Rightarrow> nat" where
  "streak rs = length (filter provider_failed (takeWhile (\<lambda>r. \<not> trial_passed r) (rev rs)))"

lemma streak_nil [simp]: "streak [] = 0"
  by (simp add: streak_def)

lemma streak_snoc:
  "streak (rs @ [r]) =
     (if trial_passed r then 0 else if provider_failed r then streak rs + 1 else streak rs)"
  by (simp add: streak_def)

lemma after_call_closed:
  "b_state b = CLOSED \<Longrightarrow> after_call (t, r) b = record_outcome t False r b"
  by (simp add: after_call_def call_def before_call_def)

text \<open>C36. Called one after the other, the breaker stays closed exactly until the threshold is
  reached: it counts the provider failures since the last success, where a permanent rejection
  is a success and other exceptions and cancellations count for nothing, and opens at the call
  that brings the count to the threshold.\<close>

theorem breaker_opens_at_threshold:
  assumes "CircuitBreaker (int n) r = Inr b"
    and "\<forall>k < length calls. streak (map snd (take k calls)) < n"
  shows "fold after_call calls b =
    (if streak (map snd calls) < n then b\<lparr>failure_count := int (streak (map snd calls))\<rparr>
     else b\<lparr>failure_count := int n, b_state := OPEN, opened_at := Some (fst (last calls))\<rparr>)"
  using assms(2)
proof (induction calls rule: rev_induct)
  case Nil
  from assms(1) show ?case by (auto simp: CircuitBreaker_def split: if_splits)
next
  case (snoc x calls)
  obtain t o' where x: "x = (t, o')" by (cases x)
  let ?k = "streak (map snd calls)"
  have "\<forall>k < length calls. streak (map snd (take k calls)) < n"
    using snoc.prems by (auto simp: less_Suc_eq)
  moreover have lt: "?k < n" using snoc.prems by (auto dest: spec [of _ "length calls"])
  ultimately have b: "fold after_call calls b = b\<lparr>failure_count := int ?k\<rparr>" using snoc.IH by simp
  have new: "b_state b = CLOSED" "opened_at b = None" "failure_threshold b = int n"
    using assms(1) by (auto simp: CircuitBreaker_def split: if_splits)
  have "provider_failed o' \<Longrightarrow> \<not> trial_passed o'"
    by (auto simp: provider_failed_def trial_passed_def)
  with new lt show ?case
    by (auto simp: b x after_call_closed ordinary_outcome streak_snoc record_failure_def)
qed

text \<open>A call on an open breaker: before the recovery timeout it is refused, and neither
  the operation's world nor the breaker changes; afterwards it is the trial, and its outcome
  closes the breaker with no failures counted, or opens it again at the time it ended. (The
  other calls in between leave a half-open breaker alone, by \<open>late_outcome\<close>.)\<close>

theorem call_on_open_breaker:
  assumes "b_state b = OPEN" and "opened_at b = Some t0"
    and "others (b\<lparr>b_state := HALF_OPEN\<rparr>) = b\<lparr>b_state := HALF_OPEN\<rparr>"
    and "settles (fst (operation argument w))"
  shows "call begun others ended operation argument w b =
    (if begun - t0 < recovery_timeout_seconds b then (Inl CircuitBreakerOpenError, w, b)
     else (fst (operation argument w), snd (operation argument w),
           if trial_passed (fst (operation argument w))
           then b\<lparr>b_state := CLOSED, failure_count := 0, opened_at := None\<rparr>
           else b\<lparr>b_state := OPEN, opened_at := Some ended\<rparr>))"
  using assms
  by (cases "operation argument w") (simp add: call_def before_call_def probe_outcome)

subsection \<open>Concrete runs\<close>

definition sample_breaker :: breaker where
  "sample_breaker = \<lparr>failure_threshold = 1, recovery_timeout_seconds = 30, b_state = CLOSED,
     failure_count = 0, opened_at = None\<rparr>"

definition tripped :: breaker where
  "tripped = \<lparr>failure_threshold = 1, recovery_timeout_seconds = 30, b_state = OPEN,
     failure_count = 1, opened_at = Some 2\<rparr>"

abbreviation failed :: "unit outcome" where
  "failed \<equiv> Inl (Provider_exn ProviderUnavailableError)"

lemma sample_breaker_new: "CircuitBreaker 1 30 = Inr sample_breaker"
  by (simp add: CircuitBreaker_def sample_breaker_def)

lemma sample_trip:
  "breaker_run (started sample_breaker 0) [Admitted False, Finished False failed]
     \<lparr>the_breaker = tripped, in_flight = {#}, clock = 2\<rparr>"
proof -
  have "breaker_step (started sample_breaker 0) (Admitted False)
      \<lparr>the_breaker = sample_breaker, in_flight = {#False#}, clock = 1\<rparr>"
    using breaker_step.admit [of "started sample_breaker 0" 1 False sample_breaker]
    by (simp add: started_def before_call_def sample_breaker_def)
  moreover have "breaker_step \<lparr>the_breaker = sample_breaker, in_flight = {#False#}, clock = 1\<rparr>
      (Finished False failed) \<lparr>the_breaker = tripped, in_flight = {#}, clock = 2\<rparr>"
    using breaker_step.finish [of "\<lparr>the_breaker = sample_breaker, in_flight = {#False#}, clock = 1\<rparr>" 2 False failed]
    by (simp add: record_outcome_def record_failure_def sample_breaker_def tripped_def)
  ultimately show ?thesis
    using run_snoc [OF run_snoc [OF run_nil]] by fastforce
qed

lemma sample_trial:
  "breaker_run (started sample_breaker 0) [Admitted False, Finished False failed, Admitted True]
     \<lparr>the_breaker = tripped\<lparr>b_state := HALF_OPEN\<rparr>, in_flight = {#True#}, clock = 40\<rparr>"
proof -
  have "breaker_step \<lparr>the_breaker = tripped, in_flight = {#}, clock = 2\<rparr> (Admitted True)
      \<lparr>the_breaker = tripped\<lparr>b_state := HALF_OPEN\<rparr>, in_flight = {#True#}, clock = 40\<rparr>"
    using breaker_step.admit [of "\<lparr>the_breaker = tripped, in_flight = {#}, clock = 2\<rparr>" 40 True]
    by (simp add: before_call_def tripped_def)
  with sample_trip show ?thesis using run_snoc by fastforce
qed

lemma sample_refused:
  "breaker_run \<lparr>the_breaker = tripped, in_flight = {#}, clock = 2\<rparr> [Refused CircuitBreakerOpenError]
     \<lparr>the_breaker = tripped, in_flight = {#}, clock = 3\<rparr>"
proof -
  have "breaker_step \<lparr>the_breaker = tripped, in_flight = {#}, clock = 2\<rparr> (Refused CircuitBreakerOpenError)
      \<lparr>the_breaker = tripped, in_flight = {#}, clock = 3\<rparr>"
    using breaker_step.refuse [of "\<lparr>the_breaker = tripped, in_flight = {#}, clock = 2\<rparr>" 3]
    by (simp add: before_call_def tripped_def)
  then show ?thesis using run_snoc [OF run_nil] by fastforce
qed

lemma at_most_one_trial_witness:
  "b_state (tripped\<lparr>b_state := HALF_OPEN\<rparr>) = HALF_OPEN"
  using at_most_one_trial [OF sample_breaker_new sample_trial] by simp

lemma open_breaker_is_silent_witness:
  "\<forall>p. Admitted p \<notin> set [Refused CircuitBreakerOpenError]"
  using open_breaker_is_silent [OF sample_breaker_new sample_trip _ _ sample_refused, of 2]
  by (simp add: tripped_def)

lemma half_open_iff_trial_witness:
  "b_state (tripped\<lparr>b_state := HALF_OPEN\<rparr>) = HALF_OPEN \<longleftrightarrow> True \<in># {#True#}"
  using half_open_iff_trial [OF sample_breaker_new sample_trial] by (simp add: settles_def)

lemma breaker_opens_at_threshold_witness:
  "fold after_call [(2, failed)] sample_breaker = tripped"
  using breaker_opens_at_threshold [of 1 30 sample_breaker "[(2, failed)]"] sample_breaker_new
  by (simp add: streak_def provider_failed_def trial_passed_def sample_breaker_def tripped_def)

lemma call_on_open_breaker_witness:
  "call 40 (\<lambda>b. b) 41 (\<lambda>(x::nat) w. (Inr x, x # w)) 7 [] tripped =
     (Inr 7, [7], tripped\<lparr>b_state := CLOSED, failure_count := 0, opened_at := None\<rparr>)"
  using call_on_open_breaker [of tripped 2 "\<lambda>b. b" "\<lambda>(x::nat) w. (Inr x, x # w)" 7 "[]" 40 41]
  by (simp add: tripped_def settles_def trial_passed_def)

end
