(* ===== verification/Provider_Client.thy ===== *)
theory Provider_Client
  imports Schemas
begin

text \<open>
  \<open>app/clients/payment_provider.py\<close>: the HTTP client of the payment provider.

  One call of \<open>process_payment\<close> is a loop of attempts. What the outside contributes to an attempt
  is an \<open>attempt_env\<close>: the two readings of \<open>monotonic()\<close>, what \<open>httpx\<close> answers to the POST, the
  random number, the wall clock and how the sleep ends. The result of a call is its trace, the
  requests sent and the sleeps, with its outcome. \<open>httpx\<close> and the parser of HTTP dates
  (\<open>email.utils.parsedate_to_datetime\<close>) are parameters; \<open>float(str)\<close> is \<open>python_float\<close>.
\<close>

subsection \<open>Floats read from a header\<close>

text \<open>A finite value is exact; what only matters here is whether it is below zero and how it
  compares with the time left, so a value beyond the range of a double may as well be finite.\<close>

datatype pyfloat = Real real | PosInf | NegInf | NaN

definition digit_value :: "char \<Rightarrow> nat option" where
  "digit_value c =
     (let n = of_char c :: nat in if 48 \<le> n \<and> n \<le> 57 then Some (n - 48) else None)"

text \<open>A run of digits, single underscores allowed between them: value, number of digits, rest.\<close>

fun scan_digits :: "nat \<Rightarrow> nat \<Rightarrow> string \<Rightarrow> nat \<times> nat \<times> string" where
  "scan_digits v n [] = (v, n, [])"
| "scan_digits v n (c # cs) =
     (case digit_value c of
        Some d \<Rightarrow> scan_digits (10 * v + d) (n + 1) cs
      | None \<Rightarrow>
          if c = CHR ''_'' \<and> n > 0 \<and> cs \<noteq> [] \<and> digit_value (hd cs) \<noteq> None
          then scan_digits v n cs
          else (v, n, c # cs))"

definition scan_exponent :: "string \<Rightarrow> int option" where
  "scan_exponent s =
     (case s of
        [] \<Rightarrow> Some 0
      | c # cs \<Rightarrow>
          if c \<noteq> CHR ''e'' \<and> c \<noteq> CHR ''E'' then None
          else
            (let sign = (if cs \<noteq> [] \<and> hd cs = CHR ''-'' then -1 else 1);
                 digits = (if cs \<noteq> [] \<and> (hd cs = CHR ''-'' \<or> hd cs = CHR ''+'') then tl cs else cs)
             in case scan_digits 0 0 digits of
                  (v, n, rest) \<Rightarrow> if n > 0 \<and> rest = [] then Some (sign * int v) else None))"

definition scale :: "nat \<Rightarrow> int \<Rightarrow> real" where
  "scale m e = (if e \<ge> 0 then real m * 10 ^ nat e else real m / 10 ^ nat (- e))"

definition unsigned_float :: "string \<Rightarrow> pyfloat option" where
  "unsigned_float s =
     (let lower = map (\<lambda>c. let n = of_char c :: nat in if 65 \<le> n \<and> n \<le> 90 then char_of (n + 32) else c) s
      in if lower = ''inf'' \<or> lower = ''infinity'' then Some PosInf
         else if lower = ''nan'' then Some NaN
         else
           (case scan_digits 0 0 s of
              (whole, n, rest) \<Rightarrow>
                (case (if rest \<noteq> [] \<and> hd rest = CHR ''.'' then scan_digits 0 0 (tl rest) else (0, 0, rest)) of
                   (fraction, k, rest') \<Rightarrow>
                     if n + k = 0 then None
                     else
                       (case scan_exponent rest' of
                          None \<Rightarrow> None
                        | Some e \<Rightarrow> Some (Real (scale (whole * 10 ^ k + fraction) (e - int k)))))))"

fun negated :: "pyfloat \<Rightarrow> pyfloat" where
  "negated (Real x) = Real (- x)"
| "negated PosInf = NegInf"
| "negated NegInf = PosInf"
| "negated NaN = NaN"

definition python_float :: "string \<Rightarrow> pyfloat option" where
  "python_float text =
     (let s = strip text
      in if s \<noteq> [] \<and> hd s = CHR ''-'' then map_option negated (unsigned_float (tl s))
         else if s \<noteq> [] \<and> hd s = CHR ''+'' then unsigned_float (tl s)
         else unsigned_float s)"

lemma python_float_examples:
  "python_float ''120'' = Some (Real 120)" "python_float '' 1.5'' = Some (Real (3 / 2))"
  "python_float ''-2e1'' = Some (Real (- 20))" "python_float ''nan'' = Some NaN"
  "python_float ''Infinity'' = Some PosInf" "python_float ''1_0'' = Some (Real 10)"
  "python_float ''Wed, 21 Oct 2026'' = None" "python_float '''' = None" "python_float ''1__0'' = None"
  by code_simp+

subsection \<open>The client's settings\<close>

record provider_client =
  request_timeout_seconds :: seconds
  max_attempts :: int
  retry_base_delay_seconds :: seconds
  retry_max_delay_seconds :: seconds
  retry_total_timeout_seconds :: seconds

definition PaymentProviderClient ::
  "seconds \<Rightarrow> int \<Rightarrow> seconds \<Rightarrow> seconds \<Rightarrow> seconds \<Rightarrow> provider_client outcome" where
  "PaymentProviderClient request_timeout attempts base_delay max_delay total_timeout =
     (if request_timeout \<le> 0 then
        Inl (ValueError ''request_timeout_seconds must be greater than zero'')
      else if attempts < 1 then Inl (ValueError ''max_attempts must be at least 1'')
      else if base_delay < 0 then
        Inl (ValueError ''retry_base_delay_seconds must not be negative'')
      else if max_delay < base_delay then
        Inl (ValueError ''retry_max_delay_seconds must be greater than or equal to retry_base_delay_seconds'')
      else if total_timeout \<le> 0 then
        Inl (ValueError ''retry_total_timeout_seconds must be greater than zero'')
      else Inr \<lparr>request_timeout_seconds = request_timeout, max_attempts = attempts,
                retry_base_delay_seconds = base_delay, retry_max_delay_seconds = max_delay,
                retry_total_timeout_seconds = total_timeout\<rparr>)"

definition client_ok :: "provider_client \<Rightarrow> bool" where
  "client_ok c \<longleftrightarrow>
     0 < request_timeout_seconds c \<and> 1 \<le> max_attempts c \<and> 0 \<le> retry_base_delay_seconds c \<and>
     retry_base_delay_seconds c \<le> retry_max_delay_seconds c \<and> 0 < retry_total_timeout_seconds c"

lemma new_client_ok: "PaymentProviderClient a b c d e = Inr cl \<Longrightarrow> client_ok cl"
  by (auto simp: PaymentProviderClient_def client_ok_def split: if_splits)

subsection \<open>Retry-After\<close>

text \<open>What \<open>parsedate_to_datetime\<close> returns: the local time and the offset, if it has one.\<close>

record parsed_date =
  d_local :: time
  d_offset :: "time option"

type_synonym date_parser = "string \<Rightarrow> parsed_date option"

definition parse_retry_after :: "date_parser \<Rightarrow> time \<Rightarrow> string \<Rightarrow> pyfloat option" where
  "parse_retry_after parsedate now retry_after =
     (case python_float retry_after of
        None \<Rightarrow>
          (case parsedate retry_after of
             None \<Rightarrow> None
           | Some retry_at \<Rightarrow>
               (let utc = d_local retry_at - (case d_offset retry_at of None \<Rightarrow> 0 | Some k \<Rightarrow> k);
                    delay = of_int (utc - now) / 1000000
                in Some (Real (max delay 0))))
      | Some (Real x) \<Rightarrow> if x < 0 then None else Some (Real x)
      | Some NegInf \<Rightarrow> None
      | Some v \<Rightarrow> Some v)"

subsection \<open>Attempts\<close>

datatype request_failure =
    ConnectError | ConnectTimeout | PoolTimeout
  | ReadTimeout | WriteTimeout | ReadError | WriteError | RemoteProtocolError
  | OtherRequestError

record http_response =
  x_status_code :: int
  x_json :: "raw_provider_response option"
  x_retry_after :: "string option"

text \<open>What the awaited POST gives: a response, an \<open>httpx.RequestError\<close>, the \<open>TimeoutError\<close> of
  \<open>asyncio.timeout\<close>, or another exception.\<close>

datatype answer =
    Responded http_response
  | Request_failed request_failure
  | Budget_timeout
  | Raised exn

record attempt_env =
  at_post :: seconds
  at_answer :: answer
  at_random :: real
  at_now :: time
  at_wait :: seconds
  at_sleep :: "unit outcome"

datatype client_action =
    Post string provider_request seconds
  | Sleep real

definition post_payment ::
  "provider_client \<Rightarrow> provider_request \<Rightarrow> seconds \<Rightarrow> attempt_env \<Rightarrow>
     client_action list \<times> (http_response + request_failure) outcome" where
  "post_payment client data started_at e =
     (let remaining_time = retry_total_timeout_seconds client - (at_post e - started_at)
      in if remaining_time \<le> 0 then ([], Inl (Provider_exn ProviderUnavailableError))
         else
           ([Post (uuid_str (q_payment_id data)) data (min (request_timeout_seconds client) remaining_time)],
            case at_answer e of
              Responded r \<Rightarrow> Inr (Inl r)
            | Request_failed f \<Rightarrow> Inr (Inr f)
            | Budget_timeout \<Rightarrow> Inl (Provider_exn ProviderAmbiguousOutcomeError)
            | Raised exn \<Rightarrow> Inl exn))"

definition parse_success_response :: "http_response \<Rightarrow> provider_response outcome" where
  "parse_success_response r =
     (case Option.bind (x_json r) provider_response_validate of
        None \<Rightarrow> Inl (Provider_exn ProviderAmbiguousOutcomeError)
      | Some p \<Rightarrow> Inr p)"

fun at_least :: "pyfloat \<Rightarrow> real \<Rightarrow> bool" where
  "at_least (Real x) y \<longleftrightarrow> x \<ge> y"
| "at_least PosInf _ \<longleftrightarrow> True"
| "at_least NegInf _ \<longleftrightarrow> False"
| "at_least NaN _ \<longleftrightarrow> False"

text \<open>\<open>asyncio.sleep\<close> rejects a NaN.\<close>

definition sleep :: "pyfloat \<Rightarrow> attempt_env \<Rightarrow> client_action list \<times> unit outcome" where
  "sleep delay e =
     (case delay of
        Real x \<Rightarrow> ([Sleep x], at_sleep e)
      | NaN \<Rightarrow> ([], Inl (ValueError ''Invalid delay: NaN (not a number)''))
      | _ \<Rightarrow> ([], at_sleep e))"

definition wait_before_retry ::
  "provider_client \<Rightarrow> nat \<Rightarrow> seconds \<Rightarrow> pyfloat option \<Rightarrow> attempt_env \<Rightarrow>
     client_action list \<times> unit outcome" where
  "wait_before_retry client attempt started_at retry_after e =
     (let retry_interval = min (retry_base_delay_seconds client * 2 ^ (attempt - 1))
                               (retry_max_delay_seconds client);
          delay = (case retry_after of None \<Rightarrow> Real (retry_interval * at_random e) | Some d \<Rightarrow> d);
          remaining_time = retry_total_timeout_seconds client - (at_wait e - started_at)
      in if at_least delay remaining_time then ([], Inl (Provider_exn ProviderUnavailableError))
         else sleep delay e)"

definition get_retry_after :: "date_parser \<Rightarrow> attempt_env \<Rightarrow> http_response \<Rightarrow> pyfloat option" where
  "get_retry_after parsedate e r = Option.bind (x_retry_after r) (parse_retry_after parsedate (at_now e))"

text \<open>The failures of a connection that was never made.\<close>

definition not_connected :: "request_failure \<Rightarrow> bool" where
  "not_connected f \<longleftrightarrow> f = ConnectError \<or> f = ConnectTimeout \<or> f = PoolTimeout"

text \<open>The loop, from attempt \<open>attempt\<close> with \<open>left\<close> attempts to go.\<close>

fun attempts ::
  "date_parser \<Rightarrow> provider_client \<Rightarrow> provider_request \<Rightarrow> seconds \<Rightarrow> (nat \<Rightarrow> attempt_env) \<Rightarrow>
     nat \<Rightarrow> nat \<Rightarrow> client_action list \<times> provider_response outcome" where
  "attempts parsedate client data started_at env attempt 0 =
     ([], Inl (RuntimeError ''Payment provider retry loop finished unexpectedly''))"
| "attempts parsedate client data started_at env attempt (Suc left) =
     (let e = env attempt;
          (posted, reply) = post_payment client data started_at e;
          retry = (\<lambda>retry_after.
            if left = 0 then (posted, Inl (Provider_exn ProviderUnavailableError))
            else
              (case wait_before_retry client attempt started_at retry_after e of
                 (waited, Inl exn) \<Rightarrow> (posted @ waited, Inl exn)
               | (waited, Inr _) \<Rightarrow>
                   (case attempts parsedate client data started_at env (attempt + 1) left of
                      (rest, r) \<Rightarrow> (posted @ waited @ rest, r))))
      in case reply of
           Inl exn \<Rightarrow> (posted, Inl exn)
         | Inr (Inr failure) \<Rightarrow>
             if not_connected failure then retry None
             else (posted, Inl (Provider_exn ProviderAmbiguousOutcomeError))
         | Inr (Inl response) \<Rightarrow>
             (let status_code = x_status_code response
              in if 200 \<le> status_code \<and> status_code < 300
                 then (posted, parse_success_response response)
                 else if status_code = 429 \<or> status_code = 503
                 then retry (get_retry_after parsedate e response)
                 else if status_code = 408 \<or> (500 \<le> status_code \<and> status_code < 600)
                 then (posted, Inl (Provider_exn ProviderAmbiguousOutcomeError))
                 else (posted, Inl (Provider_exn (ProviderPermanentError (Some status_code))))))"

definition process_payment ::
  "date_parser \<Rightarrow> provider_client \<Rightarrow> seconds \<Rightarrow> (nat \<Rightarrow> attempt_env) \<Rightarrow> provider_request \<Rightarrow>
     client_action list \<times> provider_response outcome" where
  "process_payment parsedate client started_at env data =
     attempts parsedate client data started_at env 1 (nat (max_attempts client))"

subsection \<open>Lookup\<close>

definition get_payment_by_idempotency_key :: "answer \<Rightarrow> provider_response option outcome" where
  "get_payment_by_idempotency_key answer =
     (case answer of
        Raised exn \<Rightarrow> Inl exn
      | Request_failed _ \<Rightarrow> Inl (Provider_exn ProviderUnavailableError)
      | Budget_timeout \<Rightarrow> Inl (OtherException ''TimeoutError'')
      | Responded response \<Rightarrow>
          (let status_code = x_status_code response
           in if status_code = 404 then Inr None
              else if \<not> (200 \<le> status_code \<and> status_code < 300) then
                (if status_code \<ge> 500 then Inl (Provider_exn ProviderUnavailableError)
                 else Inl (Provider_exn (ProviderPermanentError (Some status_code))))
              else
                (case Option.bind (x_json response) provider_response_validate of
                   None \<Rightarrow> Inl (Provider_exn ProviderUnavailableError)
                 | Some p \<Rightarrow> Inr (Some p))))"

definition lookup_path :: "uuid \<Rightarrow> string" where
  "lookup_path idempotency_key = ''/payments/by-idempotency-key/'' @ uuid_str idempotency_key"

subsection \<open>The shape of a call\<close>

text \<open>An answer that shows the payment was not processed, and what the call makes of any other.\<close>

definition retryable :: "answer \<Rightarrow> bool" where
  "retryable a =
     (case a of
        Responded r \<Rightarrow> x_status_code r = 429 \<or> x_status_code r = 503
      | Request_failed f \<Rightarrow> f \<in> {ConnectError, ConnectTimeout, PoolTimeout}
      | _ \<Rightarrow> False)"

definition settled_by :: "answer \<Rightarrow> provider_response outcome" where
  "settled_by a =
     (case a of
        Responded r \<Rightarrow>
          if 200 \<le> x_status_code r \<and> x_status_code r < 300 then parse_success_response r
          else if x_status_code r = 408 \<or> (500 \<le> x_status_code r \<and> x_status_code r < 600)
          then Inl (Provider_exn ProviderAmbiguousOutcomeError)
          else Inl (Provider_exn (ProviderPermanentError (Some (x_status_code r))))
      | Request_failed f \<Rightarrow> Inl (Provider_exn ProviderAmbiguousOutcomeError)
      | Budget_timeout \<Rightarrow> Inl (Provider_exn ProviderAmbiguousOutcomeError)
      | Raised exn \<Rightarrow> Inl exn)"

fun is_post :: "client_action \<Rightarrow> bool" where
  "is_post (Post _ _ _) = True"
| "is_post (Sleep _) = False"

definition posts :: "client_action list \<Rightarrow> nat" where
  "posts tr = length (filter is_post tr)"

lemma posts_simps [simp]:
  "posts [] = 0" "posts (Post k q t # tr) = Suc (posts tr)" "posts (Sleep x # tr) = posts tr"
  "posts (tr @ tr') = posts tr + posts tr'"
  by (simp_all add: posts_def)

text \<open>How a call whose every POST got a retryable answer may end: out of attempts or of time, or
  the sleep raises.\<close>

definition gave_up :: "attempt_env \<Rightarrow> 'r outcome \<Rightarrow> bool" where
  "gave_up e r \<longleftrightarrow>
     r = Inl (Provider_exn ProviderUnavailableError) \<or>
     r = Inl (ValueError ''Invalid delay: NaN (not a number)'') \<or>
     (\<exists>exn. at_sleep e = Inl exn \<and> r = Inl exn)"

lemma wait_posts: "wait_before_retry client n t ra e = (tr, r) \<Longrightarrow> posts tr = 0"
  by (auto simp: wait_before_retry_def sleep_def Let_def split: if_splits option.splits pyfloat.splits)

lemma wait_error: "wait_before_retry client n t ra e = (tr, Inl exn) \<Longrightarrow> gave_up e (Inl exn :: 'r outcome)"
  by (auto simp: wait_before_retry_def sleep_def Let_def gave_up_def
      split: if_splits option.splits pyfloat.splits)

text \<open>One turn of the loop: it ends the call without a POST, settles it, or goes on.\<close>

lemma attempts_cases:
  assumes "attempts pd client data t0 env attempt (Suc left) = (tr, r)"
  obtains
    (late) "tr = []" "r = Inl (Provider_exn ProviderUnavailableError)"
  | (settled) p where "tr = [p]" "is_post p" "\<not> retryable (at_answer (env attempt))"
      "r = settled_by (at_answer (env attempt))"
  | (stopped) p waited where "tr = p # waited" "is_post p" "posts waited = 0"
      "retryable (at_answer (env attempt))" "gave_up (env attempt) r"
  | (retried) p waited rest where "tr = p # waited @ rest" "is_post p" "posts waited = 0" "left > 0"
      "retryable (at_answer (env attempt))"
      "attempts pd client data t0 env (attempt + 1) left = (rest, r)"
proof -
  let ?e = "env attempt"
  let ?p = "Post (uuid_str (q_payment_id data)) data
     (min (request_timeout_seconds client) (retry_total_timeout_seconds client - (at_post ?e - t0)))"
  have retry: thesis
    if ret: "retryable (at_answer ?e)"
      and eq: "(if left = 0 then ([?p], Inl (Provider_exn ProviderUnavailableError))
         else (case wait_before_retry client attempt t0 ra ?e of
             (waited, Inl exn) \<Rightarrow> ([?p] @ waited, Inl exn)
           | (waited, Inr _) \<Rightarrow>
               (case attempts pd client data t0 env (attempt + 1) left of
                  (rest, r) \<Rightarrow> ([?p] @ waited @ rest, r)))) = (tr, r)" for ra
  proof (cases "left = 0")
    case True
    with eq have "tr = ?p # []" "gave_up ?e r" by (simp_all add: gave_up_def)
    with ret show ?thesis by (intro stopped [of ?p "[]"]) simp_all
  next
    case False
    obtain waited w where w: "wait_before_retry client attempt t0 ra ?e = (waited, w)"
      by (cases "wait_before_retry client attempt t0 ra ?e")
    note p0 = wait_posts [OF w]
    show ?thesis
    proof (cases w)
      case (Inl exn)
      with eq False w have "tr = ?p # waited" "r = Inl exn" by simp_all
      with wait_error [OF w [unfolded Inl]] p0 ret show ?thesis by (intro stopped [of ?p waited]) simp_all
    next
      case (Inr u)
      obtain rest r' where rest: "attempts pd client data t0 env (attempt + 1) left = (rest, r')"
        by (cases "attempts pd client data t0 env (attempt + 1) left")
      with eq False w Inr have "tr = ?p # waited @ rest" "r' = r" by simp_all
      with rest False p0 ret show ?thesis by (intro retried [of ?p waited rest]) simp_all
    qed
  qed
  show thesis
  proof (cases "retry_total_timeout_seconds client - (at_post ?e - t0) \<le> 0")
    case True
    with assms show ?thesis by (intro late) (simp_all add: post_payment_def Let_def)
  next
    case False
    show ?thesis
    proof (cases "retryable (at_answer ?e)")
      case ret: True
      show ?thesis
      proof (cases "at_answer ?e")
        case (Responded x)
        with ret have "\<not> (200 \<le> x_status_code x \<and> x_status_code x < 300)"
          "x_status_code x = 429 \<or> x_status_code x = 503" by (auto simp: retryable_def)
        with assms False Responded show ?thesis
          by (intro retry [OF ret, of "get_retry_after pd ?e x"]) (simp add: post_payment_def Let_def)
      next
        case (Request_failed f)
        with assms False ret show ?thesis
          by (intro retry [OF ret, of None]) (simp add: post_payment_def Let_def retryable_def not_connected_def)
      qed (use ret in \<open>simp_all add: retryable_def\<close>)
    next
      case unret: False
      with assms False show ?thesis
        by (intro settled [of ?p])
          (auto simp: post_payment_def Let_def retryable_def not_connected_def settled_by_def split: answer.splits if_splits)
    qed
  qed
qed

text \<open>The POSTs of a call belong to consecutive attempts, all but the last retryable.\<close>

lemma attempts_shape:
  assumes "attempts pd client data t0 env attempt left = (tr, r)" and "0 < left"
  shows "posts tr \<le> left \<and>
    (\<forall>i. attempt \<le> i \<and> i + 1 < attempt + posts tr \<longrightarrow> retryable (at_answer (env i))) \<and>
    (if 0 < posts tr \<and> \<not> retryable (at_answer (env (attempt + posts tr - 1)))
     then r = settled_by (at_answer (env (attempt + posts tr - 1)))
     else r = Inl (Provider_exn ProviderUnavailableError) \<or>
          (0 < posts tr \<and> gave_up (env (attempt + posts tr - 1)) r))"
  using assms
proof (induction left arbitrary: attempt tr r)
  case (Suc left)
  from Suc.prems(1) show ?case
  proof (cases rule: attempts_cases)
    case (settled p)
    then show ?thesis by (cases p) auto
  next
    case (stopped p waited)
    then show ?thesis by (cases p) auto
  next
    case (retried p waited rest)
    have tr: "posts tr = Suc (posts rest)" using retried by (cases p) auto
    note ih = Suc.IH [OF retried(6,4)]
    have first: "retryable (at_answer (env i))"
      if "attempt \<le> i" "i + 1 < attempt + posts tr" for i
      using that ih retried(5) tr by (cases "i = attempt") auto
    show ?thesis
    proof (cases "posts rest")
      case 0
      with ih tr retried(5) show ?thesis by simp
    next
      case (Suc k)
      with ih tr first show ?thesis by auto
    qed
  qed auto
qed simp

lemma client_attempts_pos: "client_ok client \<Longrightarrow> 0 < nat (max_attempts client)"
  by (simp add: client_ok_def)

lemma process_payment_shape:
  assumes "process_payment pd client t0 env data = (tr, r)" and "client_ok client"
  shows "int (posts tr) \<le> max_attempts client \<and>
    (\<forall>i. 1 \<le> i \<and> i < posts tr \<longrightarrow> retryable (at_answer (env i))) \<and>
    (if 0 < posts tr \<and> \<not> retryable (at_answer (env (posts tr)))
     then r = settled_by (at_answer (env (posts tr)))
     else r = Inl (Provider_exn ProviderUnavailableError) \<or>
          (0 < posts tr \<and> gave_up (env (posts tr)) r))"
  using attempts_shape [OF assms(1) [unfolded process_payment_def] client_attempts_pos [OF assms(2)]]
    client_attempts_pos [OF assms(2)]
  by (auto simp: le_nat_iff split: if_splits)

text \<open>C17. The retry policy, for any sequence of network failures, responses and delays: a call
  sends at most \<open>max_attempts\<close> requests; it sends another one only after an answer that shows
  the payment was not processed (no connection, 429 or 503); and it ends as the last answer says,
  or, when that one too was such an answer or no request could be sent in time, it gives up
  with \<open>ProviderUnavailableError\<close> (or the sleep was interrupted, or rejected a NaN).\<close>

theorem process_payment_retry_policy:
  assumes "PaymentProviderClient a b c d e = Inr client"
    and "process_payment pd client t0 env data = (tr, r)"
  shows "int (posts tr) \<le> max_attempts client \<and>
    (\<forall>i. 1 \<le> i \<and> i < posts tr \<longrightarrow> retryable (at_answer (env i))) \<and>
    (if 0 < posts tr \<and> \<not> retryable (at_answer (env (posts tr)))
     then r = settled_by (at_answer (env (posts tr)))
     else r = Inl (Provider_exn ProviderUnavailableError) \<or>
          (0 < posts tr \<and> gave_up (env (posts tr)) r))"
  by (rule process_payment_shape [OF assms(2) new_client_ok [OF assms(1)]])

text \<open>When a call reports \<open>ProviderUnavailableError\<close>, every request it sent got an answer
  that shows the payment was not processed: reporting it as not done, and trying again later
  from scratch, is safe. (The connection's own errors are not provider errors.)\<close>

theorem unavailable_means_not_processed:
  assumes "PaymentProviderClient a b c d e = Inr client"
    and "process_payment pd client t0 env data = (tr, Inl (Provider_exn ProviderUnavailableError))"
    and "\<forall>i. at_answer (env i) \<noteq> Raised (Provider_exn ProviderUnavailableError)"
    and "1 \<le> i" and "i \<le> posts tr"
  shows "retryable (at_answer (env i))"
proof (cases "i = posts tr")
  case True
  let ?a = "at_answer (env (posts tr))"
  have "settled_by ?a \<noteq> Inl (Provider_exn ProviderUnavailableError)"
    using assms(3) [THEN spec, of "posts tr"]
    by (cases ?a) (auto simp: settled_by_def parse_success_response_def split: option.splits)
  with process_payment_shape [OF assms(2) new_client_ok [OF assms(1)]] assms(4) True
  show ?thesis by (auto split: if_splits)
next
  case False
  with process_payment_shape [OF assms(2) new_client_ok [OF assms(1)]] assms(4,5)
  show ?thesis by simp
qed

text \<open>What every action of a trace satisfies: the requests carry the same key and body, and a
  timeout within the budget; a sleep ends within the budget.\<close>

definition action_ok :: "provider_client \<Rightarrow> provider_request \<Rightarrow> seconds \<Rightarrow> (nat \<Rightarrow> attempt_env) \<Rightarrow> client_action \<Rightarrow> bool" where
  "action_ok client data t0 env act \<longleftrightarrow>
     (case act of
        Post key body timeout \<Rightarrow>
          key = uuid_str (q_payment_id data) \<and> body = data \<and>
          0 < timeout \<and> timeout \<le> request_timeout_seconds client \<and>
          (\<exists>i. at_post (env i) - t0 + timeout \<le> retry_total_timeout_seconds client)
      | Sleep x \<Rightarrow> (\<exists>i. at_wait (env i) - t0 + x < retry_total_timeout_seconds client))"

lemma wait_actions:
  "wait_before_retry client n t0 ra (env i) = (tr, r) \<Longrightarrow> act \<in> set tr \<Longrightarrow> action_ok client data t0 env act"
  by (auto simp: wait_before_retry_def sleep_def Let_def action_ok_def not_le
      split: if_splits option.splits pyfloat.splits) (auto intro!: exI [of _ i])

lemma post_actions:
  "post_payment client data t0 (env i) = (tr, r) \<Longrightarrow> 0 < request_timeout_seconds client \<Longrightarrow>
     act \<in> set tr \<Longrightarrow> action_ok client data t0 env act"
  by (auto simp: post_payment_def Let_def action_ok_def split: if_splits intro!: exI [of _ i])

lemma attempts_actions:
  assumes "attempts pd client data t0 env attempt left = (tr, r)" and "0 < request_timeout_seconds client"
    and "act \<in> set tr"
  shows "action_ok client data t0 env act"
  using assms(1,3)
proof (induction left arbitrary: attempt tr r)
  case (Suc left)
  obtain posted reply where post: "post_payment client data t0 (env attempt) = (posted, reply)"
    by (cases "post_payment client data t0 (env attempt)")
  note posted = post_actions [where env = env and i = attempt, OF post assms(2)]
  have wait: "action_ok client data t0 env act"
    if "wait_before_retry client attempt t0 ra (env attempt) = (waited, w)"
      "act \<in> set posted \<or> act \<in> set waited \<or>
       act \<in> set (fst (attempts pd client data t0 env (attempt + 1) left))" for ra waited w
    using that posted wait_actions [of client attempt t0 ra env attempt]
      Suc.IH [of "attempt + 1"] by (metis prod.collapse)
  from Suc.prems post show ?case
    using posted
    by (auto simp: Let_def split: sum.splits if_splits prod.splits intro: wait)
qed simp

text \<open>Every request of a call carries the payment's id as its idempotency key and the same
  body, with a timeout that ends within the call's time budget; a call never starts a sleep that
  would outlast the budget.\<close>

theorem process_payment_within_budget:
  assumes "PaymentProviderClient a b c d e = Inr client"
    and "act \<in> set (fst (process_payment pd client t0 env data))"
  shows "action_ok client data t0 env act"
proof -
  have "0 < request_timeout_seconds client" using new_client_ok [OF assms(1)] by (simp add: client_ok_def)
  with attempts_actions [of pd client data t0 env 1 "nat (max_attempts client)"] assms(2)
  show ?thesis by (auto simp: process_payment_def) (metis prod.collapse)
qed

text \<open>C39. A \<open>Retry-After\<close> that reads \<open>nan\<close> passes both checks of the delay, and the sleep
  rejects it: the call ends with \<open>ValueError\<close>, which is none of the client's own errors.\<close>

theorem retry_after_nan:
  assumes "x_retry_after x = Some text" and "python_float text = Some NaN"
    and "x_status_code x = 429 \<or> x_status_code x = 503" and "at_answer (env 1) = Responded x"
    and "2 \<le> max_attempts client" and "at_post (env 1) - t0 < retry_total_timeout_seconds client"
  shows "snd (process_payment pd client t0 env data) =
    Inl (ValueError ''Invalid delay: NaN (not a number)'')"
proof -
  obtain k where "nat (max_attempts client) = Suc (Suc k)"
    using assms(5) by (cases "nat (max_attempts client)"; cases "nat (max_attempts client) - 1") auto
  moreover have "\<not> x_status_code x < 300" using assms(3) by auto
  ultimately show ?thesis
    using assms
    by (simp add: process_payment_def post_payment_def Let_def get_retry_after_def
        parse_retry_after_def wait_before_retry_def sleep_def)
qed

text \<open>What a lookup may conclude: it returns a result only from a 2xx response with a valid
  body, "not found" only from a 404, and otherwise fails, with
  \<open>ProviderPermanentError\<close> only for a status below 500 that is neither.\<close>

theorem lookup_conclusions:
  "(get_payment_by_idempotency_key answer = Inr (Some p) \<longleftrightarrow>
      (\<exists>x raw. answer = Responded x \<and> 200 \<le> x_status_code x \<and> x_status_code x < 300 \<and>
               x_json x = Some raw \<and> provider_response_validate raw = Some p)) \<and>
   (get_payment_by_idempotency_key answer = Inr None \<longleftrightarrow>
      (\<exists>x. answer = Responded x \<and> x_status_code x = 404)) \<and>
   (\<forall>n x. answer = Responded x \<and>
      get_payment_by_idempotency_key answer = Inl (Provider_exn (ProviderPermanentError n)) \<longrightarrow>
      n = Some (x_status_code x) \<and> x_status_code x < 500 \<and> x_status_code x \<noteq> 404)"
proof (cases answer)
  case (Responded x)
  then show ?thesis
    by (cases "x_json x")
      (auto simp: get_payment_by_idempotency_key_def Let_def split: option.splits)
qed (auto simp: get_payment_by_idempotency_key_def)

subsection \<open>Concrete calls\<close>

definition sample_client :: provider_client where
  "sample_client = \<lparr>request_timeout_seconds = 5, max_attempts = 2, retry_base_delay_seconds = 1 / 2,
     retry_max_delay_seconds = 5, retry_total_timeout_seconds = 20\<rparr>"

definition unavailable_response :: "string option \<Rightarrow> http_response" where
  "unavailable_response retry_after = \<lparr>x_status_code = 503, x_json = None, x_retry_after = retry_after\<rparr>"

definition approved_response :: http_response where
  "approved_response = \<lparr>x_status_code = 200,
     x_json = Some (provider_response_dump \<lparr>s_provider_payment_id = UUID 9, s_status = APPROVED\<rparr>),
     x_retry_after = None\<rparr>"

definition sample_attempt :: "seconds \<Rightarrow> answer \<Rightarrow> attempt_env" where
  "sample_attempt t a = \<lparr>at_post = t, at_answer = a, at_random = 1 / 2, at_now = 0, at_wait = t + 1,
     at_sleep = Inr ()\<rparr>"

definition sample_data :: provider_request where
  "sample_data = \<lparr>q_payment_id = UUID 1, q_amount = Decimal 1000 (-2), q_currency = EUR\<rparr>"

definition recovering :: "nat \<Rightarrow> attempt_env" where
  "recovering i =
     (if i = 1 then sample_attempt 0 (Responded (unavailable_response None))
      else sample_attempt 3 (Responded approved_response))"

definition refusing :: "nat \<Rightarrow> attempt_env" where
  "refusing i = sample_attempt (3 * real i) (Request_failed ConnectError)"

lemma sample_client_new: "PaymentProviderClient 5 2 (1 / 2) 5 20 = Inr sample_client"
  by (simp add: PaymentProviderClient_def sample_client_def)

lemmas sample_call_defs =
  process_payment_def sample_client_def numeral_2_eq_2 post_payment_def Let_def sample_attempt_def
  wait_before_retry_def get_retry_after_def sleep_def unavailable_response_def

lemma sample_recovering:
  "process_payment pd sample_client 0 recovering q =
     ([Post (uuid_str (q_payment_id q)) q 5, Sleep (1 / 4), Post (uuid_str (q_payment_id q)) q 5],
      Inr \<lparr>s_provider_payment_id = UUID 9, s_status = APPROVED\<rparr>)"
  by (simp add: sample_call_defs recovering_def approved_response_def
      parse_success_response_def provider_response.decode_encode)

lemma sample_refusing:
  "process_payment pd sample_client 0 refusing sample_data =
     ([Post (uuid_str (UUID 1)) sample_data 5, Sleep (1 / 4), Post (uuid_str (UUID 1)) sample_data 5],
      Inl (Provider_exn ProviderUnavailableError))"
  by (simp add: sample_call_defs refusing_def sample_data_def not_connected_def)

lemma process_payment_retry_policy_witness:
  "retryable (at_answer (recovering 1)) \<and>
   Inr \<lparr>s_provider_payment_id = UUID 9, s_status = APPROVED\<rparr> = settled_by (at_answer (recovering 2))"
  using process_payment_retry_policy [OF sample_client_new sample_recovering [of "\<lambda>_. None" sample_data]]
  by (simp add: numeral_2_eq_2) (auto simp: recovering_def sample_attempt_def retryable_def
      unavailable_response_def approved_response_def)

lemma unavailable_means_not_processed_witness: "retryable (at_answer (refusing 2))"
  by (rule unavailable_means_not_processed [OF sample_client_new sample_refusing [of "\<lambda>_. None"]])
    (simp_all add: refusing_def sample_attempt_def)

lemma process_payment_within_budget_witness:
  "action_ok sample_client sample_data 0 recovering (Sleep (1 / 4))"
  by (rule process_payment_within_budget [OF sample_client_new, where pd = "\<lambda>_. None"])
    (simp add: sample_recovering)

lemma retry_after_nan_witness:
  "snd (process_payment (\<lambda>_. None) sample_client 0
      (\<lambda>_. sample_attempt 0 (Responded (unavailable_response (Some ''nan'')))) sample_data) =
    Inl (ValueError ''Invalid delay: NaN (not a number)'')"
  by (rule retry_after_nan [of "unavailable_response (Some ''nan'')" "''nan''"])
    (simp_all add: unavailable_response_def sample_attempt_def python_float_examples sample_client_def)

end
