(* ===== verification/Payment_Processor.thy ===== *)
theory Payment_Processor
  imports Resolution Consumer Circuit_Breaker Provider_Client Payment_Service
begin

text \<open>
  \<open>app/worker/payment_processor.py\<close>: processing a payment with the provider.

  Each of the three methods that open a session is a session program. \<open>process\<close> composes them with
  the breaker and the client: \<open>processing_env\<close> holds the three connections, what other
  transactions commit between the two sessions, the provider's side of the call and the values
  the code generates. Its result has the trace of the requests sent.
\<close>

definition load_provider_request :: "uuid \<Rightarrow> provider_request option tx" where
  "load_provider_request payment_id =
     tx_bind (get_by_id payment_id) (\<lambda>payment. case payment of
       None \<Rightarrow> tx_lift (raise_permanent ''Payment was not found'')
     | Some p \<Rightarrow>
         if p_status p \<noteq> PENDING then tx_return None
         else tx_bind (tx_lift (ProviderPaymentRequest
                \<lparr>q_payment_id = p_id p, q_amount = p_amount p, q_currency = p_currency p\<rparr>))
                (\<lambda>q. tx_return (Some q)))"

definition mark_unknown :: "uuid \<Rightarrow> unit tx" where
  "mark_unknown payment_id =
     rollback_on_error (tx_bind (get_by_id_for_update payment_id) (\<lambda>payment. case payment of
       None \<Rightarrow> tx_lift (raise_permanent ''Payment was not found'')
     | Some p \<Rightarrow>
         if p_status p \<noteq> PENDING then tx_return ()
         else tx_bind (flush_payment (p\<lparr>p_status := UNKNOWN\<rparr>)) (\<lambda>_. commit)))"

definition processed_payment :: "provider_response \<Rightarrow> time \<Rightarrow> uuid \<Rightarrow> payment \<Rightarrow> payment" where
  "processed_payment provider_response processed_at webhook_event_id p =
     p\<lparr>p_status := (if s_status provider_response = APPROVED then SUCCEEDED else FAILED),
       p_provider_payment_id := Some (s_provider_payment_id provider_response),
       p_processed_at := Some processed_at, p_webhook_event_id := Some webhook_event_id\<rparr>"

definition apply_provider_result :: "uuid \<Rightarrow> provider_response \<Rightarrow> time \<Rightarrow> uuid \<Rightarrow> unit tx" where
  "apply_provider_result payment_id provider_response processed_at webhook_event_id =
     rollback_on_error (tx_bind (get_by_id_for_update payment_id) (\<lambda>payment. case payment of
       None \<Rightarrow> tx_lift (raise_permanent ''Payment was not found'')
     | Some p \<Rightarrow>
         if p_status p \<noteq> PENDING then tx_return ()
         else persist_resolution_rows
                (processed_payment provider_response processed_at webhook_event_id p)
                (Some processed_at)
                (webhook_outbox_event (webhook_envelope webhook_event_id (p_id p) processed_at))))"

record processing_env =
  v_load :: connection
  v_others :: "database \<Rightarrow> database"
  v_final :: connection
  v_begun :: seconds
  v_ended :: seconds
  v_breaker_others :: "breaker \<Rightarrow> breaker"
  v_parsedate :: date_parser
  v_started_at :: seconds
  v_attempts :: "nat \<Rightarrow> attempt_env"
  v_processed_at :: time
  v_webhook_event_id :: uuid

record processed =
  pr_result :: "unit outcome"
  pr_trace :: "client_action list"
  pr_breaker :: breaker
  pr_database :: database

text \<open>The operation the breaker calls, on the trace of requests.\<close>

definition provider_operation ::
  "provider_client \<Rightarrow> processing_env \<Rightarrow> provider_request \<Rightarrow> client_action list \<Rightarrow>
     provider_response outcome \<times> client_action list" where
  "provider_operation client env data trace =
     (case process_payment (v_parsedate env) client (v_started_at env) (v_attempts env) data of
        (actions, r) \<Rightarrow> (r, trace @ actions))"

definition process ::
  "provider_client \<Rightarrow> processing_env \<Rightarrow> event_envelope \<Rightarrow> breaker \<Rightarrow> database \<Rightarrow> processed" where
  "process client env event b d =
     (if e_event_type event \<noteq> PAYMENT_PROCESS_REQUESTED then
        \<lparr>pr_result = raise_permanent ''Unsupported event type'', pr_trace = [], pr_breaker = b,
         pr_database = d\<rparr>
      else
        (case in_session (load_provider_request (e_payment_id event)) (v_load env) d of
           (Inl e, d1) \<Rightarrow> \<lparr>pr_result = Inl e, pr_trace = [], pr_breaker = b, pr_database = d1\<rparr>
         | (Inr None, d1) \<Rightarrow> \<lparr>pr_result = Inr (), pr_trace = [], pr_breaker = b, pr_database = d1\<rparr>
         | (Inr (Some provider_request), d1) \<Rightarrow>
             (case call (v_begun env) (v_breaker_others env) (v_ended env)
                     (provider_operation client env) provider_request [] b of
                (r, trace, b') \<Rightarrow>
                  (let d2 = v_others env d1;
                       (result, d3) =
                         (case r of
                            Inl CircuitBreakerOpenError \<Rightarrow>
                              (raise_retryable ''Payment provider circuit breaker is open'', d2)
                          | Inl (Provider_exn ProviderUnavailableError) \<Rightarrow>
                              (raise_retryable ''Payment provider is unavailable'', d2)
                          | Inl (Provider_exn ProviderAmbiguousOutcomeError) \<Rightarrow>
                              in_session (mark_unknown (e_payment_id event)) (v_final env) d2
                          | Inl (Provider_exn (ProviderPermanentError _)) \<Rightarrow>
                              (raise_permanent ''Payment provider permanently rejected processing request'', d2)
                          | Inl e \<Rightarrow> (Inl e, d2)
                          | Inr provider_response \<Rightarrow>
                              in_session (apply_provider_result (e_payment_id event) provider_response
                                (v_processed_at env) (v_webhook_event_id env)) (v_final env) d2)
                   in \<lparr>pr_result = result, pr_trace = trace, pr_breaker = b', pr_database = d3\<rparr>))))"

subsection \<open>The transactions\<close>

definition loaded :: "uuid \<Rightarrow> database \<Rightarrow> provider_request option outcome \<Rightarrow> bool" where
  "loaded i d r \<longleftrightarrow>
     (\<forall>q. r = Inr (Some q) \<longrightarrow>
        (\<exists>p \<in> set (payments d). p_id p = i \<and> p_status p = PENDING \<and> amount_field_ok (p_amount p) \<and>
           q = \<lparr>q_payment_id = i, q_amount = p_amount p, q_currency = p_currency p\<rparr>)) \<and>
     (r = Inr None \<longrightarrow> (\<exists>p \<in> set (payments d). p_id p = i \<and> p_status p \<noteq> PENDING))"

lemma in_session_load:
  assumes "in_session (load_provider_request i) c d = (r, d')"
  shows "d' = d \<and> loaded i d r"
proof (rule in_session_cases [OF assms])
  show "wp (load_provider_request i) (\<lambda>x s. committed s = d \<and> loaded i d (Inr x))
     (\<lambda>e s. committed s = d \<and> loaded i d (Inl e)) (begin_session d c)"
    unfolding load_provider_request_def get_by_id_def tx_simps
    by (rule wp_read_by_id) (auto simp: tx_simps ProviderPaymentRequest_def loaded_def)
qed

text \<open>What a transaction that locks one payment may leave behind: nothing, when it raises; the
  payment in the state it was, when it is not pending; or the one change it makes.\<close>

definition one_change :: "(payment \<Rightarrow> database \<Rightarrow> database) \<Rightarrow> uuid \<Rightarrow> database \<Rightarrow> 'a outcome \<Rightarrow> database \<Rightarrow> bool" where
  "one_change change i d r d' \<longleftrightarrow>
     (if \<exists>p \<in> set (payments d). p_id p = i \<and> p_status p = PENDING
      then (\<exists>p \<in> set (payments d). p_id p = i \<and> p_status p = PENDING \<and>
              ((d' = d \<and> (\<exists>e. r = Inl e)) \<or> (d' = change p d \<and> db_step d (change p d))))
      else d' = d)"

definition unknown_row :: "time \<Rightarrow> payment \<Rightarrow> database \<Rightarrow> database" where
  "unknown_row now p d = d\<lparr>payments := replace_row p_id (p\<lparr>p_status := UNKNOWN, p_updated_at := now\<rparr>) (payments d)\<rparr>"

definition settled_rows :: "provider_response \<Rightarrow> time \<Rightarrow> uuid \<Rightarrow> time \<Rightarrow> payment \<Rightarrow> database \<Rightarrow> database" where
  "settled_rows resp t w now p d =
     with_resolution (processed_payment resp t w p\<lparr>p_updated_at := now\<rparr>)
       (created now (Some t) (webhook_outbox_event (webhook_envelope w (p_id p) t))) d"

lemma mark_unknown_change:
  assumes inv: "db_inv d" and run: "in_session (mark_unknown i) c d = (r, d')"
  shows "one_change (unknown_row (conn_now c)) i d r d'"
proof -
  have c: "constraints_ok d" using inv by (simp add: db_inv_def)
  let ?P = "one_change (unknown_row (conn_now c)) i d :: unit outcome \<Rightarrow> database \<Rightarrow> bool"
  let ?s = "begin_session d c"
  have "wp (mark_unknown i) (\<lambda>x s. ?P (Inr x) (committed s)) (\<lambda>e s. ?P (Inl e) (committed s)) ?s"
    unfolding mark_unknown_def get_by_id_for_update_def wp_rollback_on_error wp_bind
  proof (rule wp_read_by_id)
    fix p rs
    assume p: "p \<in> set (payments (committed ?s))" "p_id p = i"
    let ?t = "?s\<lparr>replies := rs\<rparr>"
    show "wp (case Some p of None \<Rightarrow> tx_lift (raise_permanent ''Payment was not found'')
        | Some p \<Rightarrow> if p_status p \<noteq> PENDING then tx_return ()
            else tx_bind (flush_payment (p\<lparr>p_status := UNKNOWN\<rparr>)) (\<lambda>_. commit))
        (\<lambda>x s. ?P (Inr x) (committed s))
        (\<lambda>e s'. ?P (Inl e) (committed (if is_exception e then s'\<lparr>working := committed s'\<rparr> else s'))) ?t"
    proof (cases "p_status p = PENDING")
      case True
      have "wp (tx_bind (flush_payment (p\<lparr>p_status := UNKNOWN\<rparr>)) (\<lambda>_. commit))
         (\<lambda>x s. ?P (Inr x) (committed s))
         (\<lambda>e s'. ?P (Inl e) (committed (if is_exception e then s'\<lparr>working := committed s'\<rparr> else s'))) ?t"
      proof (rule wp_flush_commit [where p = p and res = "unknown_row (conn_now c) p d"])
        show "row_step p (p\<lparr>p_status := UNKNOWN\<rparr>\<lparr>p_updated_at := t\<rparr>)" for t
          using row_step.ambiguous [OF True] by simp
        show "p\<lparr>p_status := UNKNOWN\<rparr> \<noteq> p"
          by (rule notI, drule arg_cong [of _ _ p_status]) (simp add: True)
      qed (use p True c in \<open>auto simp: unknown_row_def one_change_def\<close>)
      with True show ?thesis by simp
    next
      case False
      with p c show ?thesis
        by (auto simp: tx_simps one_change_def dest: same_payment)
    qed
  qed (auto simp: tx_simps one_change_def)
  from in_session_cases [OF run, where P = ?P, OF this] show ?thesis .
qed

lemma processed_allowed:
  assumes "row_ok p" and "p_status p = PENDING"
  shows "resolution_allowed p (processed_payment resp t w p) w"
proof -
  have "processed_payment resp t w p\<lparr>p_updated_at := u\<rparr> =
      resolved (status_for (s_status resp)) (s_provider_payment_id resp) t w u p" for u
    using row_ok_open(4) [OF assms] by (simp add: processed_payment_def resolved_def status_for_def)
  moreover have "terminal (status_for (s_status resp))" by simp
  ultimately show ?thesis
    using assms row_ok_open(2) [OF assms] unfolding resolution_allowed_def by blast
qed

lemma apply_change:
  assumes inv: "db_inv d" and run: "in_session (apply_provider_result i resp t w) c d = (r, d')"
  shows "one_change (settled_rows resp t w (conn_now c)) i d r d'"
proof -
  have c: "constraints_ok d" using inv by (simp add: db_inv_def)
  let ?P = "one_change (settled_rows resp t w (conn_now c)) i d :: unit outcome \<Rightarrow> database \<Rightarrow> bool"
  let ?s = "begin_session d c"
  let ?E = "\<lambda>e s'. ?P (Inl e) (committed (if is_exception e then s'\<lparr>working := committed s'\<rparr> else s'))"
  have "wp (apply_provider_result i resp t w) (\<lambda>x s. ?P (Inr x) (committed s))
      (\<lambda>e s. ?P (Inl e) (committed s)) ?s"
    unfolding apply_provider_result_def get_by_id_for_update_def wp_rollback_on_error wp_bind
  proof (rule wp_read_by_id)
    fix p rs
    assume p: "p \<in> set (payments (committed ?s))" "p_id p = i"
    let ?t = "?s\<lparr>replies := rs\<rparr>"
    let ?m = "persist_resolution_rows (processed_payment resp t w p) (Some t)
        (webhook_outbox_event (webhook_envelope w (p_id p) t))"
    show "wp (case Some p of None \<Rightarrow> tx_lift (raise_permanent ''Payment was not found'')
        | Some p \<Rightarrow> if p_status p \<noteq> PENDING then tx_return ()
            else persist_resolution_rows (processed_payment resp t w p) (Some t)
              (webhook_outbox_event (webhook_envelope w (p_id p) t)))
        (\<lambda>x s. ?P (Inr x) (committed s)) ?E ?t"
    proof (cases "p_status p = PENDING")
      case True
      have "row_ok p" using inv p by (simp add: db_inv_def)
      note allowed = processed_allowed [OF this True, of resp t w]
      have "wp ?m (\<lambda>x s. ?P (Inr x) (committed s)) ?E ?t"
        by (rule wp_persist [where p = p and res = "settled_rows resp t w (conn_now c) p d"])
          (use p True c allowed in \<open>auto simp: webhook_event_new settled_rows_def one_change_def\<close>)
      with True show ?thesis by simp
    next
      case False
      with p c show ?thesis by (auto simp: tx_simps one_change_def dest: same_payment)
    qed
  qed (auto simp: tx_simps one_change_def)
  from in_session_cases [OF run, where P = ?P, OF this] show ?thesis .
qed

lemma one_change_steps: "one_change f i d r d' \<Longrightarrow> db_step\<^sup>*\<^sup>* d d'"
  by (auto simp: one_change_def split: if_splits)

text \<open>With a connection that answers, a pending payment is settled.\<close>

lemma one_change_returned:
  assumes "one_change f i d (Inr x) d'" and "constraints_ok d" and "p \<in> set (payments d)"
    and "p_id p = i" and "p_status p = PENDING"
  shows "d' = f p d"
proof -
  have "\<exists>p \<in> set (payments d). p_id p = i \<and> p_status p = PENDING" using assms(3-5) by blast
  with assms(1) obtain q where "q \<in> set (payments d)" "p_id q = i" "d' = f q d"
    unfolding one_change_def by (auto split: if_splits)
  moreover from this(1,2) assms(3,4) have "q = p" by (intro same_payment [OF assms(2)]) simp_all
  ultimately show ?thesis by simp
qed

lemma one_change_not_pending:
  assumes "one_change f i d r d'" and "constraints_ok d" and "p \<in> set (payments d)"
    and "p_id p = i" and "p_status p \<noteq> PENDING"
  shows "d' = d"
proof -
  have "\<not> (\<exists>q \<in> set (payments d). p_id q = i \<and> p_status q = PENDING)"
    using same_payment [OF assms(2,3)] assms(4,5) by metis
  with assms(1) show ?thesis by (simp add: one_change_def)
qed

lemma one_change_cases:
  assumes "one_change f i d r d'"
  obtains "d' = d" | p where "p \<in> set (payments d)" "p_id p = i" "d' = f p d"
  using assms by (auto simp: one_change_def split: if_splits)

lemma mark_unknown_steps: "db_inv d \<Longrightarrow> db_step\<^sup>*\<^sup>* d (snd (in_session (mark_unknown i) c d))"
  by (cases "in_session (mark_unknown i) c d") (auto intro: one_change_steps mark_unknown_change)

lemma apply_steps: "db_inv d \<Longrightarrow> db_step\<^sup>*\<^sup>* d (snd (in_session (apply_provider_result i resp t w) c d))"
  by (cases "in_session (apply_provider_result i resp t w) c d") (auto intro: one_change_steps apply_change)

text \<open>\<open>process\<close> on an event of its own type, path by path.\<close>

definition finish_processing ::
  "processing_env \<Rightarrow> uuid \<Rightarrow> provider_response outcome \<Rightarrow> database \<Rightarrow> unit outcome \<times> database" where
  "finish_processing env i r d =
     (case r of
        Inl CircuitBreakerOpenError \<Rightarrow>
          (raise_retryable ''Payment provider circuit breaker is open'', d)
      | Inl (Provider_exn ProviderUnavailableError) \<Rightarrow>
          (raise_retryable ''Payment provider is unavailable'', d)
      | Inl (Provider_exn ProviderAmbiguousOutcomeError) \<Rightarrow> in_session (mark_unknown i) (v_final env) d
      | Inl (Provider_exn (ProviderPermanentError _)) \<Rightarrow>
          (raise_permanent ''Payment provider permanently rejected processing request'', d)
      | Inl e \<Rightarrow> (Inl e, d)
      | Inr resp \<Rightarrow>
          in_session (apply_provider_result i resp (v_processed_at env) (v_webhook_event_id env)) (v_final env) d)"

lemma finish_processing_steps: "db_inv d \<Longrightarrow> db_step\<^sup>*\<^sup>* d (snd (finish_processing env i r d))"
  unfolding finish_processing_def
  by (auto split: sum.split exn.split provider_error.split intro: apply_steps mark_unknown_steps)

lemma process_cases:
  obtains
    (foreign) "e_event_type event \<noteq> PAYMENT_PROCESS_REQUESTED"
      "process client env event b d = \<lparr>pr_result = raise_permanent ''Unsupported event type'',
         pr_trace = [], pr_breaker = b, pr_database = d\<rparr>"
  | (not_loaded) e where "e_event_type event = PAYMENT_PROCESS_REQUESTED"
      "process client env event b d = \<lparr>pr_result = Inl e, pr_trace = [], pr_breaker = b, pr_database = d\<rparr>"
  | (not_pending) p where "e_event_type event = PAYMENT_PROCESS_REQUESTED"
      "p \<in> set (payments d)" "p_id p = e_payment_id event" "p_status p \<noteq> PENDING"
      "process client env event b d = \<lparr>pr_result = Inr (), pr_trace = [], pr_breaker = b, pr_database = d\<rparr>"
  | (called) p q r trace b' result d' where "e_event_type event = PAYMENT_PROCESS_REQUESTED"
      "p \<in> set (payments d)" "p_id p = e_payment_id event" "p_status p = PENDING"
      "q = \<lparr>q_payment_id = p_id p, q_amount = p_amount p, q_currency = p_currency p\<rparr>"
      "call (v_begun env) (v_breaker_others env) (v_ended env) (provider_operation client env) q [] b =
         (r, trace, b')"
      "finish_processing env (e_payment_id event) r (v_others env d) = (result, d')"
      "process client env event b d = \<lparr>pr_result = result, pr_trace = trace, pr_breaker = b', pr_database = d'\<rparr>"
proof (cases "e_event_type event = PAYMENT_PROCESS_REQUESTED")
  case False
  then show thesis by (intro foreign) (simp_all add: process_def)
next
  case True
  obtain r d1 where load: "in_session (load_provider_request (e_payment_id event)) (v_load env) d = (r, d1)"
    by (cases "in_session (load_provider_request (e_payment_id event)) (v_load env) d")
  from in_session_load [OF load] have d1: "d1 = d" and l: "loaded (e_payment_id event) d r" by auto
  show thesis
  proof (cases r)
    case (Inl e)
    with True load d1 show ?thesis by (intro not_loaded) (simp_all add: process_def)
  next
    case (Inr q)
    show ?thesis
    proof (cases q)
      case None
      with l Inr obtain p where "p \<in> set (payments d)" "p_id p = e_payment_id event" "p_status p \<noteq> PENDING"
        by (auto simp: loaded_def)
      with True load d1 Inr None show ?thesis by (intro not_pending) (simp_all add: process_def)
    next
      case (Some q')
      with l Inr obtain p where p: "p \<in> set (payments d)" "p_id p = e_payment_id event" "p_status p = PENDING"
        "q' = \<lparr>q_payment_id = p_id p, q_amount = p_amount p, q_currency = p_currency p\<rparr>"
        by (auto simp: loaded_def)
      obtain x trace b' where call: "call (v_begun env) (v_breaker_others env) (v_ended env)
          (provider_operation client env) q' [] b = (x, trace, b')"
        by (cases "call (v_begun env) (v_breaker_others env) (v_ended env) (provider_operation client env) q' [] b")
      obtain result d' where fin: "finish_processing env (e_payment_id event) x (v_others env d) = (result, d')"
        by (cases "finish_processing env (e_payment_id event) x (v_others env d)")
      from True load d1 Inr Some call fin show ?thesis
        by (intro called [OF True p(1,2,3,4) call fin]) (simp add: process_def finish_processing_def)
    qed
  qed
qed

subsection \<open>The processor keeps its contract\<close>

definition payment_processing ::
  "provider_client \<times> breaker \<times> processing_env \<Rightarrow> event_envelope \<Rightarrow> database \<Rightarrow> unit outcome \<times> database" where
  "payment_processing = (\<lambda>(client, b, env) event d.
     (pr_result (process client env event b d), pr_database (process client env event b d)))"

definition processing_admissible :: "provider_client \<times> breaker \<times> processing_env \<Rightarrow> bool" where
  "processing_admissible = (\<lambda>(_, _, env). others_ok (v_others env))"

lemma process_steps:
  assumes "db_inv d" and "others_ok (v_others env)"
  shows "db_step\<^sup>*\<^sup>* d (pr_database (process client env event b d))"
proof (cases rule: process_cases [where client = client and env = env and event = event and b = b and d = d])
  case (called p q r trace b' result d')
  have "db_step\<^sup>*\<^sup>* (v_others env d) d'"
    using finish_processing_steps [OF others_okD(2) [OF assms(2,1)]] called(7) by (metis snd_conv)
  with others_okD(1) [OF assms(2,1)] called(8) show ?thesis by simp
qed simp_all

interpretation payment_processor:
  event_processor payment_processing processing_admissible "\<lambda>t. t = PAYMENT_PROCESS_REQUESTED"
proof
  fix d env event
  assume "db_inv d" "processing_admissible env"
  then show "db_step\<^sup>*\<^sup>* d (snd (payment_processing env event d))"
    by (cases env) (simp add: payment_processing_def processing_admissible_def process_steps)
next
  fix event :: event_envelope and env d
  assume "e_event_type event \<noteq> PAYMENT_PROCESS_REQUESTED"
  then show "\<exists>msg. payment_processing env event d = (raise_permanent msg, d)"
    by (cases env) (simp add: payment_processing_def process_def)
qed

text \<open>Whatever fails on the way, and whatever other transactions commit between its two
  sessions, processing keeps the invariant and the history of the database: a terminal payment
  stays as it is, a status only moves forward, no webhook event is lost or doubled.\<close>

theorem process_keeps_lifecycle:
  assumes "db_inv d" and "others_ok (v_others env)"
  shows "db_inv (pr_database (process client env event b d)) \<and>
    history_le d (pr_database (process client env event b d))"
  using payment_processor.processing.keeps_invariant [of d "((client, b, env), event)"]
    payment_processor.processing.keeps_history [of d "((client, b, env), event)"] assms
  by (simp add: payment_processing_def processing_admissible_def)

text \<open>What the trace of a call of the breaker tells.\<close>

lemma call_trace:
  assumes "call t0 others t1 (provider_operation client env) q [] b = (r, trace, b')"
  shows "(trace = [] \<and> (\<exists>e. r = Inl e)) \<or>
    process_payment (v_parsedate env) client (v_started_at env) (v_attempts env) q = (trace, r)"
  using assms by (auto simp: call_def provider_operation_def split: prod.splits sum.splits)

text \<open>C11. Only a pending payment is sent to the provider: a redelivered event of any other
  payment sends nothing. Every request carries the payment's own id as idempotency key, and its
  amount and currency.\<close>

theorem only_pending_payments_are_sent:
  assumes "PaymentProviderClient u v w x y = Inr client"
    and "Post key body timeout \<in> set (pr_trace (process client env event b d))"
  shows "\<exists>p \<in> set (payments d). p_id p = e_payment_id event \<and> p_status p = PENDING \<and>
    key = uuid_str (p_id p) \<and> body = \<lparr>q_payment_id = p_id p, q_amount = p_amount p, q_currency = p_currency p\<rparr>"
  using assms(2)
proof (cases rule: process_cases [where client = client and env = env and event = event and b = b and d = d])
  case (called p q r trace b' result d')
  from assms(2) called(8) have mem: "Post key body timeout \<in> set trace" by simp
  with call_trace [OF called(6)]
  have "process_payment (v_parsedate env) client (v_started_at env) (v_attempts env) q = (trace, r)" by auto
  then have "attempts (v_parsedate env) client q (v_started_at env) (v_attempts env) 1 (nat (max_attempts client)) = (trace, r)"
    by (simp add: process_payment_def)
  moreover have "0 < request_timeout_seconds client"
    using new_client_ok [OF assms(1)] by (simp add: client_ok_def)
  ultimately have "action_ok client q (v_started_at env) (v_attempts env) (Post key body timeout)"
    using mem by (rule attempts_actions)
  with called(2-5) show ?thesis by (auto simp: action_ok_def)
qed simp_all

text \<open>The payment of a returned processing run, before and after the second session.\<close>

lemma settled_rows_payment:
  assumes "p \<in> set (payments d)"
  shows "\<exists>p' \<in> set (payments (settled_rows resp t w now p d)).
    p_id p' = p_id p \<and> p_status p' = status_for (s_status resp) \<and>
    p_provider_payment_id p' = Some (s_provider_payment_id resp)"
proof -
  let ?p = "processed_payment resp t w p\<lparr>p_updated_at := now\<rparr>"
  have "?p \<in> set (payments (settled_rows resp t w now p d))"
    using assms by (simp add: settled_rows_def with_resolution_def set_replace_row processed_payment_def)
  then show ?thesis by (rule bexI [rotated]) (simp add: processed_payment_def status_for_def)
qed

lemma unknown_row_payment:
  assumes "p \<in> set (payments d)"
  shows "\<exists>p' \<in> set (payments (unknown_row now p d)). p_id p' = p_id p \<and> p_status p' = UNKNOWN"
proof -
  let ?p = "p\<lparr>p_status := UNKNOWN, p_updated_at := now\<rparr>"
  have "?p \<in> set (payments (unknown_row now p d))"
    using assms by (simp add: unknown_row_def set_replace_row)
  then show ?thesis by (rule bexI [rotated]) simp
qed

lemma in_payments_with_resolution:
  assumes "p' \<in> set (payments (settled_rows resp t w now p d))" and "p_id p' = p_id p"
  shows "p' = processed_payment resp t w p\<lparr>p_updated_at := now\<rparr>"
  using assms by (auto simp: settled_rows_def with_resolution_def set_replace_row processed_payment_def)

lemma process_returned:
  assumes "db_inv d" and "others_ok (v_others env)"
    and "pr_result (process client env event b d) = Inr ()"
  shows "\<exists>p \<in> set (payments (pr_database (process client env event b d))).
    p_id p = e_payment_id event \<and> p_status p \<noteq> PENDING"
  using assms(3)
proof (cases rule: process_cases [where client = client and env = env and event = event and b = b and d = d])
  case (called p q r trace b' result d')
  let ?d = "v_others env d" and ?i = "e_payment_id event"
  note ok = others_okD [OF assms(2,1)]
  obtain p1 where p1: "p1 \<in> set (payments ?d)" "p_id p1 = ?i"
    using history_payment [OF ok(3) called(2)] called(3) by metis
  have c: "constraints_ok ?d" using ok(2) by (simp add: db_inv_def)
  from assms(3) called(8) have res: "result = Inr ()" by simp
  note other = one_change_not_pending [OF _ c p1]
  consider (unknown) "in_session (mark_unknown ?i) (v_final env) ?d = (result, d')"
    | (settled) resp where "in_session (apply_provider_result ?i resp (v_processed_at env) (v_webhook_event_id env))
        (v_final env) ?d = (result, d')"
    using called(7) res
    by (auto simp: finish_processing_def split: sum.splits exn.splits provider_error.splits)
  then have "\<exists>p \<in> set (payments d'). p_id p = ?i \<and> p_status p \<noteq> PENDING"
  proof cases
    case unknown
    note ch = mark_unknown_change [OF ok(2) unknown]
    show ?thesis
    proof (cases "p_status p1 = PENDING")
      case True
      have "d' = unknown_row (conn_now (v_final env)) p1 ?d"
        by (rule one_change_returned [OF ch [unfolded res] c p1 True])
      with unknown_row_payment [OF p1(1)] p1(2) show ?thesis by (metis payment_status.distinct(5))
    qed (use other [OF ch] p1 in auto)
  next
    case (settled resp)
    note ch = apply_change [OF ok(2) settled]
    show ?thesis
    proof (cases "p_status p1 = PENDING")
      case True
      have "d' = settled_rows resp (v_processed_at env) (v_webhook_event_id env) (conn_now (v_final env)) p1 ?d"
        by (rule one_change_returned [OF ch [unfolded res] c p1 True])
      with settled_rows_payment [OF p1(1), of resp] p1(2) show ?thesis
        by (metis status_for_simps(3) terminal_simps(3))
    qed (use other [OF ch] p1 in auto)
  qed
  with called(8) show ?thesis by simp
qed auto

text \<open>Once processing of a payment's event returns, and so the event is acknowledged, the
  payment is no longer pending, however it got there.\<close>

theorem returned_means_not_pending:
  assumes "db_inv d" and "others_ok (v_others env)"
    and "pr_result (process client env event b d) = Inr ()"
  shows "\<exists>p \<in> set (payments (pr_database (process client env event b d))).
    p_id p = e_payment_id event \<and> p_status p \<noteq> PENDING"
  using assms by (rule process_returned)

text \<open>A payment that is pending at the second session and terminal after it.\<close>

lemma finish_terminal:
  assumes inv: "db_inv d" and fin: "finish_processing env i r d = (result, d')"
    and p: "p \<in> set (payments d)" "p_status p = PENDING"
    and p': "p' \<in> set (payments d')" "p_id p' = p_id p" "terminal (p_status p')"
  shows "\<exists>resp. r = Inr resp \<and> p_status p' = status_for (s_status resp) \<and>
    p_provider_payment_id p' = Some (s_provider_payment_id resp)"
proof -
  have c: "constraints_ok d" using inv by (simp add: db_inv_def)
  have old: False if "p' \<in> set (payments d)"
    using same_payment [OF c that p(1) p'(2)] p(2) p'(3) by simp
  consider (same) "d' = d"
    | (unknown) "in_session (mark_unknown i) (v_final env) d = (result, d')"
    | (settled) resp where "r = Inr resp" "in_session (apply_provider_result i resp (v_processed_at env)
        (v_webhook_event_id env)) (v_final env) d = (result, d')"
    using fin by (auto simp: finish_processing_def split: sum.splits exn.splits provider_error.splits)
  then show ?thesis
  proof cases
    case same
    with old p' show ?thesis by blast
  next
    case unknown
    from mark_unknown_change [OF inv unknown] show ?thesis
    proof (cases rule: one_change_cases)
      case (2 p1)
      then have "p_status p' = UNKNOWN \<or> p' \<in> set (payments d)"
        using p'(1) by (auto simp: unknown_row_def set_replace_row)
      with old p'(3) show ?thesis by auto
    qed (use old p' in blast)
  next
    case (settled resp)
    from apply_change [OF inv settled(2)] show ?thesis
    proof (cases rule: one_change_cases)
      case (2 p1)
      then have "p' = processed_payment resp (v_processed_at env) (v_webhook_event_id env) p1
            \<lparr>p_updated_at := conn_now (v_final env)\<rparr> \<or> p' \<in> set (payments d)"
        using p'(1) by (auto simp: settled_rows_def with_resolution_def set_replace_row)
      with old settled(1) show ?thesis by (auto simp: processed_payment_def status_for_def)
    qed (use old p' in blast)
  qed
qed

lemma settled_by_response:
  assumes "settled_by a = Inr resp"
  shows "\<exists>response. a = Responded response \<and> 200 \<le> x_status_code response \<and>
    x_status_code response < 300 \<and> parse_success_response response = Inr resp"
  using assms by (cases a) (auto simp: settled_by_def split: if_splits)

lemma called_response:
  assumes "client_ok client"
    and "call t0 others t1 (provider_operation client env) q [] b = (Inr resp, trace, b')"
  shows "settled_by (at_answer (v_attempts env (posts trace))) = Inr resp"
proof -
  from call_trace [OF assms(2)]
  have "process_payment (v_parsedate env) client (v_started_at env) (v_attempts env) q = (trace, Inr resp)"
    by auto
  from process_payment_shape [OF this assms(1)] show ?thesis
    by (auto simp: gave_up_def split: if_splits)
qed

text \<open>Processing makes a payment terminal only on the provider's word: the last request of
  the call was answered with a 2xx response whose body says so, and the payment carries that
  body's status and provider id. (The payment was still pending at the second session.)\<close>

theorem terminal_only_on_providers_word:
  assumes "PaymentProviderClient u v w x y = Inr client" and "db_inv d" and "others_ok (v_others env)"
    and "p \<in> set (payments (v_others env d))" and "p_status p = PENDING"
    and "p' \<in> set (payments (pr_database (process client env event b d)))"
    and "p_id p' = p_id p" and "terminal (p_status p')"
  shows "\<exists>response resp.
    at_answer (v_attempts env (posts (pr_trace (process client env event b d)))) = Responded response \<and>
    200 \<le> x_status_code response \<and> x_status_code response < 300 \<and>
    parse_success_response response = Inr resp \<and>
    p_status p' = status_for (s_status resp) \<and> p_provider_payment_id p' = Some (s_provider_payment_id resp)"
proof -
  note ok = others_okD [OF assms(3,2)]
  have untouched: False if old: "p' \<in> set (payments d)"
  proof -
    obtain p2 where p2: "p2 \<in> set (payments (v_others env d))" "row_le p' p2" "p_id p2 = p_id p'"
      by (rule history_payment [OF ok(3) old])
    then have "p2 = p"
      using same_payment [OF _ p2(1) assms(4)] ok(2) assms(7) by (simp add: db_inv_def)
    with p2(2) assms(5,8) show False by (auto simp: row_le_def same_outcome_def)
  qed
  show ?thesis
  proof (cases rule: process_cases [where client = client and env = env and event = event and b = b and d = d])
    case (called p0 q r trace b' result d')
    from finish_terminal [OF ok(2) called(7) assms(4,5) _ assms(7,8)] assms(6) called(8)
    obtain resp where r: "r = Inr resp" "p_status p' = status_for (s_status resp)"
      "p_provider_payment_id p' = Some (s_provider_payment_id resp)" by auto
    from called_response [OF new_client_ok [OF assms(1)]] called(6) r(1)
    have "settled_by (at_answer (v_attempts env (posts trace))) = Inr resp" by blast
    from settled_by_response [OF this] r(2,3) called(8) show ?thesis by auto
  qed (use untouched assms(6) in simp_all)
qed

subsection \<open>A run without faults\<close>

text \<open>The provider's id and the generated webhook id are not in use yet.\<close>

definition unused :: "uuid \<Rightarrow> uuid \<Rightarrow> database \<Rightarrow> bool" where
  "unused provider_id event_id d \<longleftrightarrow>
     (\<forall>q \<in> set (payments d). p_provider_payment_id q \<noteq> Some provider_id \<and>
        p_webhook_event_id q \<noteq> Some event_id) \<and>
     event_id \<notin> o_id ` set (outbox_events d)"

lemma processed_no_conflict:
  assumes "constraints_ok d" and "p \<in> set (payments d)" and "unused (s_provider_payment_id resp) w d"
  shows "\<not> conflicts (processed_payment resp t w p) (payments d)"
  using assms constraints_unique [OF assms(1,2)]
  by (fastforce simp: conflicts_iff same_unique_def unused_def processed_payment_def)

lemma find_pending:
  assumes "db_inv d" and "p \<in> set (payments d)"
  shows "find_row p_id (p_id p) (payments d) = Some p"
  using assms by (intro find_row_unique) (simp_all add: db_inv_def constraints_ok_def)

lemma apply_run:
  assumes inv: "db_inv d" and p: "p \<in> set (payments d)" "p_status p = PENDING"
    and u: "unused (s_provider_payment_id resp) w d"
  shows "in_session (apply_provider_result (p_id p) resp t w) (healthy now) d =
    (Inr (), settled_rows resp t w now p d)"
proof -
  have c: "constraints_ok d" using inv by (simp add: db_inv_def)
  have "processed_payment resp t w p \<noteq> p"
    by (rule notI, drule arg_cong [of _ _ p_status]) (auto simp: processed_payment_def p split: if_splits)
  moreover have "p_id (processed_payment resp t w p) = p_id p" by (simp add: processed_payment_def)
  ultimately show ?thesis
    using c p u processed_no_conflict [OF c p(1) u]
    by (simp add: in_session_def apply_provider_result_def rollback_on_error_def tx_bind_def
        get_by_id_for_update_def select_id_run find_pending [OF inv p(1)] unused_def
        persist_run [where p = p] Let_def settled_rows_def)
qed

lemma load_run:
  assumes inv: "db_inv d" and p: "p \<in> set (payments d)" "p_status p = PENDING" "amount_field_ok (p_amount p)"
  shows "in_session (load_provider_request (p_id p)) (healthy now) d =
    (Inr (Some \<lparr>q_payment_id = p_id p, q_amount = p_amount p, q_currency = p_currency p\<rparr>), d)"
proof -
  have "constraints_ok d" using inv by (simp add: db_inv_def)
  then show ?thesis
    using p by (simp add: in_session_def load_provider_request_def tx_bind_def tx_lift_def tx_return_def
        get_by_id_def select_id_run find_pending [OF inv p(1)] ProviderPaymentRequest_def)
qed

lemma settles_run:
  assumes "db_inv d" and "p \<in> set (payments d)" and "p_status p = PENDING" and "amount_field_ok (p_amount p)"
    and "e_event_type event = PAYMENT_PROCESS_REQUESTED" and "e_payment_id event = p_id p"
    and "v_load env = healthy t1" and "v_final env = healthy t2" and "v_others env = (\<lambda>d. d)"
    and "b_state b = CLOSED"
    and "process_payment (v_parsedate env) client (v_started_at env) (v_attempts env)
           \<lparr>q_payment_id = p_id p, q_amount = p_amount p, q_currency = p_currency p\<rparr> = (trace, Inr resp)"
    and "unused (s_provider_payment_id resp) (v_webhook_event_id env) d"
  shows "process client env event b d =
    \<lparr>pr_result = Inr (), pr_trace = trace,
     pr_breaker = record_success False (v_breaker_others env b),
     pr_database = settled_rows resp (v_processed_at env) (v_webhook_event_id env) t2 p d\<rparr>"
  using assms
  by (simp add: process_def load_run apply_run call_def before_call_def provider_operation_def
      record_outcome_def)

text \<open>Without faults, a pending payment whose provider call returns a result is settled in
  one go: status, provider id, time and webhook id on the row, the webhook event in the outbox,
  a success on the breaker.\<close>

theorem process_settles_payment:
  assumes "db_inv d" and "p \<in> set (payments d)" and "p_status p = PENDING" and "amount_field_ok (p_amount p)"
    and "e_event_type event = PAYMENT_PROCESS_REQUESTED" and "e_payment_id event = p_id p"
    and "v_load env = healthy t1" and "v_final env = healthy t2" and "v_others env = (\<lambda>d. d)"
    and "b_state b = CLOSED"
    and "process_payment (v_parsedate env) client (v_started_at env) (v_attempts env)
           \<lparr>q_payment_id = p_id p, q_amount = p_amount p, q_currency = p_currency p\<rparr> = (trace, Inr resp)"
    and "unused (s_provider_payment_id resp) (v_webhook_event_id env) d"
  shows "process client env event b d =
    \<lparr>pr_result = Inr (), pr_trace = trace,
     pr_breaker = record_success False (v_breaker_others env b),
     pr_database = settled_rows resp (v_processed_at env) (v_webhook_event_id env) t2 p d\<rparr>"
  using assms by (rule settles_run)

subsection \<open>Concrete runs\<close>

definition sample_processing :: processing_env where
  "sample_processing = \<lparr>v_load = healthy 61, v_others = (\<lambda>d. d), v_final = healthy 80, v_begun = 10,
     v_ended = 12, v_breaker_others = (\<lambda>b. b), v_parsedate = (\<lambda>_. None), v_started_at = 0,
     v_attempts = recovering, v_processed_at = 79, v_webhook_event_id = UUID 3\<rparr>"

definition sample_response :: provider_response where
  "sample_response = \<lparr>s_provider_payment_id = UUID 9, s_status = APPROVED\<rparr>"

definition sample_settled :: database where
  "sample_settled = settled_rows sample_response 79 (UUID 3) 80 sample_payment sample_database"

definition sample_trace :: "client_action list" where
  "sample_trace = fst (process_payment (\<lambda>_. None) sample_client 0 recovering
     \<lparr>q_payment_id = p_id sample_payment, q_amount = p_amount sample_payment, q_currency = p_currency sample_payment\<rparr>)"

lemma sample_amount_ok: "amount_field_ok (p_amount sample_payment)"
  using sample_requests_ok
  by (simp add: sample_payment_def new_row_def build_payment_def payment_create_ok_def)

lemma sample_unused: "unused (UUID 9) (UUID 3) sample_database"
  by (simp add: unused_def sample_payment_def) (simp add: sample_env_def)

lemma sample_event_simps [simp]:
  "e_event_type sample_event = PAYMENT_PROCESS_REQUESTED" "e_payment_id sample_event = UUID 1"
  by (simp_all add: sample_event_def)

lemma sample_run:
  "process sample_client sample_processing sample_event sample_breaker sample_database =
    \<lparr>pr_result = Inr (), pr_trace = sample_trace, pr_breaker = sample_breaker, pr_database = sample_settled\<rparr>"
proof -
  have "process sample_client sample_processing sample_event sample_breaker sample_database =
    \<lparr>pr_result = Inr (), pr_trace = sample_trace,
     pr_breaker = record_success False (v_breaker_others sample_processing sample_breaker),
     pr_database = settled_rows sample_response (v_processed_at sample_processing)
       (v_webhook_event_id sample_processing) 80 sample_payment sample_database\<rparr>"
    by (rule settles_run [where ?t1.0 = 61])
      (simp_all add: sample_processing_def sample_amount_ok sample_database_inv sample_breaker_def
        sample_trace_def sample_recovering sample_response_def sample_unused)
  then show ?thesis
    by (simp add: sample_processing_def sample_settled_def record_success_def sample_breaker_def)
qed

lemma sample_trace_posts: "posts sample_trace = 2"
  by (simp add: sample_trace_def sample_recovering)

lemma process_keeps_lifecycle_witness: "db_inv sample_settled \<and> history_le sample_database sample_settled"
  using process_keeps_lifecycle [OF sample_database_inv, of sample_processing sample_client sample_event sample_breaker]
  by (simp add: sample_run) (simp add: sample_processing_def)

lemma only_pending_payments_are_sent_witness:
  "\<exists>p \<in> set (payments sample_database). p_id p = UUID 1 \<and> p_status p = PENDING \<and>
    uuid_str (UUID 1) = uuid_str (p_id p) \<and>
    \<lparr>q_payment_id = UUID 1, q_amount = p_amount sample_payment, q_currency = p_currency sample_payment\<rparr> =
      \<lparr>q_payment_id = p_id p, q_amount = p_amount p, q_currency = p_currency p\<rparr>"
  using only_pending_payments_are_sent [OF sample_client_new, of "uuid_str (UUID 1)"
      "\<lparr>q_payment_id = UUID 1, q_amount = p_amount sample_payment, q_currency = p_currency sample_payment\<rparr>"
      5 sample_processing sample_event sample_breaker sample_database]
  by (simp only: sample_run) (simp add: sample_trace_def sample_recovering)

lemma returned_means_not_pending_witness:
  "\<exists>p \<in> set (payments sample_settled). p_id p = UUID 1 \<and> p_status p \<noteq> PENDING"
  using returned_means_not_pending [OF sample_database_inv, of sample_processing sample_client sample_event sample_breaker]
  by (simp add: sample_run) (simp add: sample_processing_def)

lemma terminal_only_on_providers_word_witness:
  "\<exists>response resp. at_answer (recovering 2) = Responded response \<and> 200 \<le> x_status_code response \<and>
    x_status_code response < 300 \<and> parse_success_response response = Inr resp \<and>
    SUCCEEDED = status_for (s_status resp) \<and> Some (UUID 9) = Some (s_provider_payment_id resp)"
proof -
  let ?p = "processed_payment sample_response 79 (UUID 3) sample_payment\<lparr>p_updated_at := 80\<rparr>"
  have p: "?p \<in> set (payments sample_settled)"
    by (simp add: sample_settled_def settled_rows_def with_resolution_def set_replace_row)
      (simp add: processed_payment_def)
  have st: "p_status ?p = SUCCEEDED" "p_provider_payment_id ?p = Some (UUID 9)" "p_id ?p = p_id sample_payment"
    by (simp_all add: processed_payment_def sample_response_def)
  have env: "v_others sample_processing = (\<lambda>d. d)" "v_attempts sample_processing = recovering"
    by (simp_all add: sample_processing_def)
  show ?thesis
    using terminal_only_on_providers_word [OF sample_client_new sample_database_inv, of sample_processing
        sample_payment ?p sample_event sample_breaker] p st
    by (simp only: sample_run env processed.simps sample_trace_posts) simp
qed

lemma process_settles_payment_witness:
  "process sample_client sample_processing sample_event sample_breaker sample_database =
    \<lparr>pr_result = Inr (), pr_trace = sample_trace, pr_breaker = sample_breaker, pr_database = sample_settled\<rparr>"
  using process_settles_payment [where client = sample_client and env = sample_processing and event = sample_event
      and b = sample_breaker and d = sample_database and p = sample_payment and resp = sample_response
      and trace = sample_trace and ?t1.0 = 61 and ?t2.0 = 80]
  by (simp add: sample_amount_ok sample_database_inv sample_trace_def sample_recovering sample_unused
      sample_settled_def record_success_def)
    (simp add: sample_processing_def sample_breaker_def sample_response_def sample_unused sample_recovering)

end
