(* ===== verification/Webhook_Client.thy ===== *)
theory Webhook_Client
  imports Provider_Client
begin

text \<open>
  \<open>app/clients/webhook.py\<close>: one delivery of a webhook to the merchant. The POST it sends, with its
  headers, is part of the result; what \<open>httpx\<close> answers is an \<open>answer\<close>.
\<close>

record webhook_client =
  wh_timeout_seconds :: seconds

definition WebhookClient :: "seconds \<Rightarrow> webhook_client outcome" where
  "WebhookClient timeout_seconds =
     (if timeout_seconds \<le> 0 then Inl (ValueError ''timeout_seconds must be greater than zero'')
      else Inr \<lparr>wh_timeout_seconds = timeout_seconds\<rparr>)"

record webhook_post =
  hp_url :: string
  hp_body :: webhook_payload
  hp_headers :: "(string \<times> string) list"
  hp_timeout :: seconds
  hp_follow_redirects :: bool

definition webhook_headers :: "uuid \<Rightarrow> int \<Rightarrow> (string \<times> string) list" where
  "webhook_headers event_id attempt =
     [(''Content-Type'', ''application/json''), (''X-Webhook-Id'', uuid_str event_id),
      (''X-Webhook-Attempt'', int_str attempt)]"

definition deliver ::
  "webhook_client \<Rightarrow> answer \<Rightarrow> string \<Rightarrow> webhook_payload \<Rightarrow> uuid \<Rightarrow> int \<Rightarrow>
     webhook_post list \<times> unit outcome" where
  "deliver client answer url payload event_id attempt =
     (if attempt < 1 then ([], Inl (ValueError ''attempt must be at least 1''))
      else
        ([\<lparr>hp_url = url, hp_body = payload, hp_headers = webhook_headers event_id attempt,
           hp_timeout = wh_timeout_seconds client, hp_follow_redirects = False\<rparr>],
         case answer of
           Request_failed _ \<Rightarrow> Inl (Webhook_exn (WebhookRetryableError None))
         | Budget_timeout \<Rightarrow> Inl (OtherException ''TimeoutError'')
         | Raised exn \<Rightarrow> Inl exn
         | Responded response \<Rightarrow>
             (let status_code = x_status_code response
              in if 200 \<le> status_code \<and> status_code < 300 then Inr ()
                 else if status_code \<in> {408, 429} \<or> (500 \<le> status_code \<and> status_code < 600)
                 then Inl (Webhook_exn (WebhookRetryableError (Some status_code)))
                 else Inl (Webhook_exn (WebhookPermanentError status_code)))))"

text \<open>A delivery that is attempted sends one request; it succeeds exactly on a 2xx response,
  asks for a retry exactly when no response came or the response was 408, 429 or 5xx, and any
  other response, redirects included, is final.\<close>

theorem deliver_classification:
  assumes "attempt \<ge> 1" and "deliver client answer url payload event_id attempt = (sent, r)"
  shows "length sent = 1 \<and>
    (answer = Responded x \<longrightarrow>
       (r = Inr () \<longleftrightarrow> x_status_code x \<in> {200..299}) \<and>
       (r = Inl (Webhook_exn (WebhookRetryableError (Some (x_status_code x)))) \<longleftrightarrow>
          x_status_code x \<in> {408, 429} \<union> {500..599}) \<and>
       (r = Inl (Webhook_exn (WebhookPermanentError (x_status_code x))) \<longleftrightarrow>
          x_status_code x \<notin> {200..299} \<union> {408, 429} \<union> {500..599})) \<and>
    (\<forall>f. answer = Request_failed f \<longrightarrow> r = Inl (Webhook_exn (WebhookRetryableError None)))"
  using assms by (auto simp: deliver_def Let_def split: if_splits)

definition sample_webhook_payload :: webhook_payload where
  "sample_webhook_payload = \<lparr>h_event_id = UUID 3, h_event_type = PAYMENT_SUCCEEDED, h_payment_id = UUID 1,
     h_status = SUCCEEDED, h_amount = Decimal 1000 (-2), h_currency = EUR, h_processed_at = 80, h_metadata = []\<rparr>"

lemma deliver_classification_witness:
  "snd (deliver \<lparr>wh_timeout_seconds = 5\<rparr> (Responded (unavailable_response None)) ''https://m'' sample_webhook_payload
      (UUID 3) 1) = Inl (Webhook_exn (WebhookRetryableError (Some 503)))"
  using deliver_classification [OF order_refl prod.collapse [symmetric],
      of "\<lparr>wh_timeout_seconds = 5\<rparr>" "Responded (unavailable_response None)" "''https://m''"
         sample_webhook_payload "UUID 3" "unavailable_response None"]
  by (simp add: unavailable_response_def)

end
