(* ===== verification/Webhook_Processor.thy ===== *)
theory Webhook_Processor
  imports Payment_Processor Webhook_Client
begin

text \<open>
  \<open>app/worker/webhook_processor.py\<close>: delivering the webhook of a terminal payment. The two
  sessions are session programs; \<open>process_webhook\<close> composes them with the client, given what
  other transactions commit in between. Its result has the requests sent.
\<close>

record webhook_delivery =
  wd_url :: string
  wd_payload :: webhook_payload

definition delivery_payload :: "payment \<Rightarrow> uuid \<Rightarrow> time \<Rightarrow> webhook_payload" where
  "delivery_payload p webhook_event_id processed_at =
     \<lparr>h_event_id = webhook_event_id,
      h_event_type = (if p_status p = SUCCEEDED then PAYMENT_SUCCEEDED else PAYMENT_FAILED),
      h_payment_id = p_id p, h_status = p_status p, h_amount = p_amount p, h_currency = p_currency p,
      h_processed_at = processed_at, h_metadata = p_metadata p\<rparr>"

definition load_delivery :: "event_envelope \<Rightarrow> webhook_delivery option tx" where
  "load_delivery event =
     tx_bind (get_by_id (e_payment_id event)) (\<lambda>payment. case payment of
       None \<Rightarrow> tx_lift (raise_permanent ''Payment was not found'')
     | Some p \<Rightarrow>
         if p_webhook_sent_at p \<noteq> None then tx_return None
         else if p_status p \<notin> {SUCCEEDED, FAILED} then
           tx_lift (raise_permanent ''Webhook cannot be delivered for a non-terminal payment'')
         else
           (case p_webhook_event_id p of
              None \<Rightarrow> tx_lift (raise_permanent ''Payment does not have webhook_event_id'')
            | Some webhook_event_id \<Rightarrow>
                if webhook_event_id \<noteq> e_event_id event then
                  tx_lift (raise_permanent ''Webhook event_id does not match payment'')
                else
                  (case p_processed_at p of
                     None \<Rightarrow> tx_lift (raise_permanent ''Terminal payment does not have processed_at'')
                   | Some processed_at \<Rightarrow>
                       tx_bind (tx_lift (WebhookPayload (delivery_payload p webhook_event_id processed_at)))
                         (\<lambda>payload. tx_return (Some \<lparr>wd_url = p_webhook_url p, wd_payload = payload\<rparr>)))))"

definition mark_sent :: "uuid \<Rightarrow> uuid \<Rightarrow> time \<Rightarrow> unit tx" where
  "mark_sent payment_id event_id now =
     rollback_on_error (tx_bind (get_by_id_for_update payment_id) (\<lambda>payment. case payment of
       None \<Rightarrow> tx_lift (raise_permanent ''Payment was not found'')
     | Some p \<Rightarrow>
         if p_webhook_sent_at p \<noteq> None then tx_return ()
         else if p_webhook_event_id p \<noteq> Some event_id then
           tx_lift (raise_permanent ''Webhook event_id does not match payment'')
         else if p_status p \<notin> {SUCCEEDED, FAILED} then
           tx_lift (raise_permanent ''Webhook payment is no longer terminal'')
         else tx_bind (flush_payment (p\<lparr>p_webhook_sent_at := Some now\<rparr>)) (\<lambda>_. commit)))"

record delivery_env =
  y_load :: connection
  y_others :: "database \<Rightarrow> database"
  y_final :: connection
  y_answer :: answer
  y_now :: time

record delivered =
  dl_result :: "unit outcome"
  dl_sent :: "webhook_post list"
  dl_database :: database

definition process_webhook :: "webhook_client \<Rightarrow> delivery_env \<Rightarrow> event_envelope \<Rightarrow> database \<Rightarrow> delivered" where
  "process_webhook client env event d =
     (if e_event_type event \<noteq> WEBHOOK_DELIVERY_REQUESTED then
        \<lparr>dl_result = raise_permanent ''Unsupported event type'', dl_sent = [], dl_database = d\<rparr>
      else
        (case in_session (load_delivery event) (y_load env) d of
           (Inl e, d1) \<Rightarrow> \<lparr>dl_result = Inl e, dl_sent = [], dl_database = d1\<rparr>
         | (Inr None, d1) \<Rightarrow> \<lparr>dl_result = Inr (), dl_sent = [], dl_database = d1\<rparr>
         | (Inr (Some delivery), d1) \<Rightarrow>
             (case deliver client (y_answer env) (wd_url delivery) (wd_payload delivery)
                     (e_event_id event) (e_attempt event) of
                (sent, r) \<Rightarrow>
                  (let d2 = y_others env d1;
                       (result, d3) =
                         (case r of
                            Inl (Webhook_exn (WebhookRetryableError _)) \<Rightarrow>
                              (raise_retryable ''Webhook delivery failed with retryable error'', d2)
                          | Inl (Webhook_exn (WebhookPermanentError _)) \<Rightarrow>
                              (raise_permanent ''Webhook delivery failed permanently'', d2)
                          | Inl e \<Rightarrow> (Inl e, d2)
                          | Inr _ \<Rightarrow>
                              in_session (mark_sent (e_payment_id event) (e_event_id event) (y_now env))
                                (y_final env) d2)
                   in \<lparr>dl_result = result, dl_sent = sent, dl_database = d3\<rparr>))))"

subsection \<open>The transactions\<close>

definition deliverable :: "event_envelope \<Rightarrow> payment \<Rightarrow> webhook_delivery \<Rightarrow> bool" where
  "deliverable event p delivery \<longleftrightarrow>
     p_id p = e_payment_id event \<and> p_webhook_sent_at p = None \<and> terminal (p_status p) \<and>
     p_webhook_event_id p = Some (e_event_id event) \<and>
     (\<exists>t. p_processed_at p = Some t \<and>
        delivery = \<lparr>wd_url = p_webhook_url p, wd_payload = delivery_payload p (e_event_id event) t\<rparr>)"

definition delivery_loaded :: "event_envelope \<Rightarrow> database \<Rightarrow> webhook_delivery option outcome \<Rightarrow> bool" where
  "delivery_loaded event d r \<longleftrightarrow>
     (\<forall>delivery. r = Inr (Some delivery) \<longrightarrow> (\<exists>p \<in> set (payments d). deliverable event p delivery)) \<and>
     (r = Inr None \<longrightarrow>
        (\<exists>p \<in> set (payments d). p_id p = e_payment_id event \<and> p_webhook_sent_at p \<noteq> None))"

lemma in_session_load_delivery:
  assumes "in_session (load_delivery event) c d = (r, d')"
  shows "d' = d \<and> delivery_loaded event d r"
proof (rule in_session_cases [OF assms])
  show "wp (load_delivery event) (\<lambda>x s. committed s = d \<and> delivery_loaded event d (Inr x))
     (\<lambda>e s. committed s = d \<and> delivery_loaded event d (Inl e)) (begin_session d c)"
    unfolding load_delivery_def get_by_id_def tx_simps
    by (rule wp_read_by_id)
      (auto simp: tx_simps WebhookPayload_def delivery_loaded_def deliverable_def terminal_def
        split: option.split)
qed

definition sent_row :: "time \<Rightarrow> time \<Rightarrow> payment \<Rightarrow> database \<Rightarrow> database" where
  "sent_row t now p d =
     d\<lparr>payments := replace_row p_id (p\<lparr>p_webhook_sent_at := Some t, p_updated_at := now\<rparr>) (payments d)\<rparr>"

lemma sent_row_payment:
  assumes "p \<in> set (payments d)"
  shows "\<exists>p' \<in> set (payments (sent_row t now p d)). p_id p' = p_id p \<and> p_webhook_sent_at p' = Some t"
proof -
  let ?p = "p\<lparr>p_webhook_sent_at := Some t, p_updated_at := now\<rparr>"
  have "?p \<in> set (payments (sent_row t now p d))"
    using assms by (simp add: sent_row_def set_replace_row)
  then show ?thesis by (rule bexI [rotated]) simp
qed

text \<open>What \<open>mark_sent\<close> leaves: nothing changed, or the row marked; and if it returns, the row is
  marked, by it or earlier.\<close>

definition sent_change :: "uuid \<Rightarrow> uuid \<Rightarrow> time \<Rightarrow> time \<Rightarrow> database \<Rightarrow> unit outcome \<Rightarrow> database \<Rightarrow> bool" where
  "sent_change i w t now d r d' \<longleftrightarrow>
     (d' = d \<and> (r = Inr () \<longrightarrow> (\<exists>p \<in> set (payments d). p_id p = i \<and> p_webhook_sent_at p \<noteq> None))) \<or>
     (\<exists>p \<in> set (payments d). p_id p = i \<and> p_webhook_sent_at p = None \<and> p_webhook_event_id p = Some w \<and>
        d' = sent_row t now p d \<and> db_step d d')"

lemma mark_sent_change:
  assumes inv: "db_inv d" and run: "in_session (mark_sent i w t) c d = (r, d')"
  shows "sent_change i w t (conn_now c) d r d'"
proof -
  have c: "constraints_ok d" using inv by (simp add: db_inv_def)
  let ?P = "sent_change i w t (conn_now c) d"
  let ?s = "begin_session d c"
  let ?E = "\<lambda>e s'. ?P (Inl e) (committed (if is_exception e then s'\<lparr>working := committed s'\<rparr> else s'))"
  have "wp (mark_sent i w t) (\<lambda>x s. ?P (Inr x) (committed s)) (\<lambda>e s. ?P (Inl e) (committed s)) ?s"
    unfolding mark_sent_def get_by_id_for_update_def wp_rollback_on_error wp_bind
  proof (rule wp_read_by_id)
    fix p rs
    assume p: "p \<in> set (payments (committed ?s))" "p_id p = i"
    let ?m = "tx_bind (flush_payment (p\<lparr>p_webhook_sent_at := Some t\<rparr>)) (\<lambda>_. commit)"
    have "wp ?m (\<lambda>x s. ?P (Inr x) (committed s)) ?E (?s\<lparr>replies := rs\<rparr>)"
      if "p_webhook_sent_at p = None" "p_webhook_event_id p = Some w" "terminal (p_status p)"
    proof (rule wp_flush_commit [where p = p and res = "sent_row t (conn_now c) p d"])
      show "row_step p (p\<lparr>p_webhook_sent_at := Some t\<rparr>\<lparr>p_updated_at := u\<rparr>)" for u
        using row_step.sent [OF that(3,1)] by simp
      show "p\<lparr>p_webhook_sent_at := Some t\<rparr> \<noteq> p"
        by (rule notI, drule arg_cong [of _ _ p_webhook_sent_at]) (simp add: that)
    qed (use p that c in \<open>auto simp: sent_row_def sent_change_def\<close>)
    then show "wp (case Some p of None \<Rightarrow> tx_lift (raise_permanent ''Payment was not found'')
        | Some p \<Rightarrow> if p_webhook_sent_at p \<noteq> None then tx_return ()
            else if p_webhook_event_id p \<noteq> Some w then
              tx_lift (raise_permanent ''Webhook event_id does not match payment'')
            else if p_status p \<notin> {SUCCEEDED, FAILED} then
              tx_lift (raise_permanent ''Webhook payment is no longer terminal'')
            else tx_bind (flush_payment (p\<lparr>p_webhook_sent_at := Some t\<rparr>)) (\<lambda>_. commit))
        (\<lambda>x s. ?P (Inr x) (committed s)) ?E (?s\<lparr>replies := rs\<rparr>)"
      using p by (auto simp: tx_simps sent_change_def terminal_def)
  qed (auto simp: tx_simps sent_change_def)
  from in_session_cases [OF run, where P = ?P, OF this] show ?thesis .
qed

definition finish_delivery :: "delivery_env \<Rightarrow> event_envelope \<Rightarrow> unit outcome \<Rightarrow> database \<Rightarrow> unit outcome \<times> database" where
  "finish_delivery env event r d =
     (case r of
        Inl (Webhook_exn (WebhookRetryableError _)) \<Rightarrow>
          (raise_retryable ''Webhook delivery failed with retryable error'', d)
      | Inl (Webhook_exn (WebhookPermanentError _)) \<Rightarrow>
          (raise_permanent ''Webhook delivery failed permanently'', d)
      | Inl e \<Rightarrow> (Inl e, d)
      | Inr _ \<Rightarrow> in_session (mark_sent (e_payment_id event) (e_event_id event) (y_now env)) (y_final env) d)"

lemma finish_delivery_change:
  assumes "db_inv d" and "finish_delivery env event r d = (result, d')"
  shows "(r \<noteq> Inr () \<and> d' = d \<and> result \<noteq> Inr ()) \<or>
    (r = Inr () \<and> sent_change (e_payment_id event) (e_event_id event) (y_now env) (conn_now (y_final env)) d result d')"
  using assms mark_sent_change
  by (auto simp: finish_delivery_def split: sum.splits exn.splits webhook_error.splits)

lemma process_webhook_cases:
  obtains
    (foreign) "e_event_type event \<noteq> WEBHOOK_DELIVERY_REQUESTED"
      "process_webhook client env event d =
         \<lparr>dl_result = raise_permanent ''Unsupported event type'', dl_sent = [], dl_database = d\<rparr>"
  | (not_loaded) e where "e_event_type event = WEBHOOK_DELIVERY_REQUESTED"
      "process_webhook client env event d = \<lparr>dl_result = Inl e, dl_sent = [], dl_database = d\<rparr>"
  | (sent_before) p where "e_event_type event = WEBHOOK_DELIVERY_REQUESTED"
      "p \<in> set (payments d)" "p_id p = e_payment_id event" "p_webhook_sent_at p \<noteq> None"
      "process_webhook client env event d = \<lparr>dl_result = Inr (), dl_sent = [], dl_database = d\<rparr>"
  | (tried) p delivery sent r result d' where "e_event_type event = WEBHOOK_DELIVERY_REQUESTED"
      "p \<in> set (payments d)" "deliverable event p delivery"
      "deliver client (y_answer env) (wd_url delivery) (wd_payload delivery) (e_event_id event) (e_attempt event) =
         (sent, r)"
      "finish_delivery env event r (y_others env d) = (result, d')"
      "process_webhook client env event d = \<lparr>dl_result = result, dl_sent = sent, dl_database = d'\<rparr>"
proof (cases "e_event_type event = WEBHOOK_DELIVERY_REQUESTED")
  case False
  then show thesis by (intro foreign) (simp_all add: process_webhook_def)
next
  case True
  obtain r d1 where load: "in_session (load_delivery event) (y_load env) d = (r, d1)"
    by (cases "in_session (load_delivery event) (y_load env) d")
  from in_session_load_delivery [OF load] have d1: "d1 = d" and l: "delivery_loaded event d r" by auto
  show thesis
  proof (cases r)
    case (Inl e)
    with True load d1 show ?thesis by (intro not_loaded) (simp_all add: process_webhook_def)
  next
    case (Inr x)
    show ?thesis
    proof (cases x)
      case None
      with l Inr obtain p where "p \<in> set (payments d)" "p_id p = e_payment_id event" "p_webhook_sent_at p \<noteq> None"
        by (auto simp: delivery_loaded_def)
      with True load d1 Inr None show ?thesis by (intro sent_before) (simp_all add: process_webhook_def)
    next
      case (Some delivery)
      with l Inr obtain p where p: "p \<in> set (payments d)" "deliverable event p delivery"
        by (auto simp: delivery_loaded_def)
      obtain sent y where del: "deliver client (y_answer env) (wd_url delivery) (wd_payload delivery)
          (e_event_id event) (e_attempt event) = (sent, y)"
        by (cases "deliver client (y_answer env) (wd_url delivery) (wd_payload delivery)
          (e_event_id event) (e_attempt event)")
      obtain result d' where fin: "finish_delivery env event y (y_others env d) = (result, d')"
        by (cases "finish_delivery env event y (y_others env d)")
      from True load d1 Inr Some del fin show ?thesis
        by (intro tried [OF True p del fin]) (simp add: process_webhook_def finish_delivery_def)
    qed
  qed
qed

subsection \<open>The processor keeps its contract\<close>

definition webhook_processing ::
  "webhook_client \<times> delivery_env \<Rightarrow> event_envelope \<Rightarrow> database \<Rightarrow> unit outcome \<times> database" where
  "webhook_processing = (\<lambda>(client, env) event d.
     (dl_result (process_webhook client env event d), dl_database (process_webhook client env event d)))"

definition delivery_admissible :: "webhook_client \<times> delivery_env \<Rightarrow> bool" where
  "delivery_admissible = (\<lambda>(_, env). others_ok (y_others env))"

lemma process_webhook_steps:
  assumes "db_inv d" and "others_ok (y_others env)"
  shows "db_step\<^sup>*\<^sup>* d (dl_database (process_webhook client env event d))"
proof (cases rule: process_webhook_cases [where client = client and env = env and event = event and d = d])
  case (tried p delivery sent r result d')
  note ok = others_okD [OF assms(2,1)]
  have "db_step\<^sup>*\<^sup>* (y_others env d) d'"
    using finish_delivery_change [OF ok(2) tried(5)] by (auto simp: sent_change_def)
  with ok(1) tried(6) show ?thesis by simp
qed simp_all

interpretation webhook_processor:
  event_processor webhook_processing delivery_admissible "\<lambda>t. t = WEBHOOK_DELIVERY_REQUESTED"
proof
  fix d env event
  assume "db_inv d" "delivery_admissible env"
  then show "db_step\<^sup>*\<^sup>* d (snd (webhook_processing env event d))"
    by (cases env) (simp add: webhook_processing_def delivery_admissible_def process_webhook_steps)
next
  fix event :: event_envelope and env d
  assume "e_event_type event \<noteq> WEBHOOK_DELIVERY_REQUESTED"
  then show "\<exists>msg. webhook_processing env event d = (raise_permanent msg, d)"
    by (cases env) (simp add: webhook_processing_def process_webhook_def)
qed

lemma sent_post:
  assumes "post \<in> set (dl_sent (process_webhook client env event d))"
  obtains p u where "p \<in> set (payments d)" "p_id p = e_payment_id event" "terminal (p_status p)"
    "p_webhook_sent_at p = None" "p_webhook_event_id p = Some (e_event_id event)" "p_processed_at p = Some u"
    "post = \<lparr>hp_url = p_webhook_url p, hp_body = delivery_payload p (e_event_id event) u,
       hp_headers = webhook_headers (e_event_id event) (e_attempt event),
       hp_timeout = wh_timeout_seconds client, hp_follow_redirects = False\<rparr>"
    "dl_sent (process_webhook client env event d) = [post]"
  using assms
proof (cases rule: process_webhook_cases [where client = client and env = env and event = event and d = d])
  case (tried p delivery sent r result d')
  then obtain u where u: "p_processed_at p = Some u"
    "delivery = \<lparr>wd_url = p_webhook_url p, wd_payload = delivery_payload p (e_event_id event) u\<rparr>"
    by (auto simp: deliverable_def)
  have "sent = [post]" using tried(4,6) assms by (auto simp: deliver_def split: if_splits)
  with tried u show thesis
    by (intro that [of p u]) (auto simp: deliverable_def deliver_def split: if_splits)
qed simp_all

text \<open>A webhook goes out only for a terminal payment that has none recorded as sent, under
  the event the payment names; its URL and body are the payment's own, the event type is the one
  of its status, and the header carries the event's id. At most one request goes out per run.\<close>

theorem webhook_reports_the_payment:
  assumes "post \<in> set (dl_sent (process_webhook client env event d))"
  shows "\<exists>p \<in> set (payments d). p_id p = e_payment_id event \<and> terminal (p_status p) \<and>
    p_webhook_sent_at p = None \<and> p_webhook_event_id p = Some (e_event_id event) \<and>
    (\<exists>t. p_processed_at p = Some t \<and> hp_body post = delivery_payload p (e_event_id event) t) \<and>
    expected_event_type (p_status p) = Some (h_event_type (hp_body post)) \<and>
    hp_url post = p_webhook_url p \<and> \<not> hp_follow_redirects post \<and>
    (''X-Webhook-Id'', uuid_str (e_event_id event)) \<in> set (hp_headers post) \<and>
    dl_sent (process_webhook client env event d) = [post]"
  using assms
proof (rule sent_post)
  fix p u
  assume p: "p \<in> set (payments d)" "p_id p = e_payment_id event" "terminal (p_status p)"
    "p_webhook_sent_at p = None" "p_webhook_event_id p = Some (e_event_id event)" "p_processed_at p = Some u"
    "post = \<lparr>hp_url = p_webhook_url p, hp_body = delivery_payload p (e_event_id event) u,
       hp_headers = webhook_headers (e_event_id event) (e_attempt event),
       hp_timeout = wh_timeout_seconds client, hp_follow_redirects = False\<rparr>"
    "dl_sent (process_webhook client env event d) = [post]"
  then show ?thesis
    by (intro bexI [of _ p])
      (auto simp: webhook_headers_def expected_event_type_def delivery_payload_def terminal_def)
qed

lemma delivery_returned:
  assumes "db_inv d" and "others_ok (y_others env)"
    and "dl_result (process_webhook client env event d) = Inr ()"
  shows "\<exists>p \<in> set (payments (dl_database (process_webhook client env event d))).
    p_id p = e_payment_id event \<and> p_webhook_sent_at p \<noteq> None"
  using assms(3)
proof (cases rule: process_webhook_cases [where client = client and env = env and event = event and d = d])
  case (tried p delivery sent r result d')
  have "result = Inr ()" using tried(6) assms(3) by simp
  with finish_delivery_change [OF others_okD(2) [OF assms(2,1)] tried(5)]
  have "sent_change (e_payment_id event) (e_event_id event) (y_now env) (conn_now (y_final env))
      (y_others env d) (Inr ()) d'" by auto
  then have "\<exists>p \<in> set (payments d'). p_id p = e_payment_id event \<and> p_webhook_sent_at p \<noteq> None"
    unfolding sent_change_def using sent_row_payment by fastforce
  with tried(6) show ?thesis by simp
qed auto

text \<open>Once processing of a webhook event returns, and so the event is acknowledged, the
  payment has its webhook recorded as sent.\<close>

theorem returned_means_sent:
  assumes "db_inv d" and "others_ok (y_others env)"
    and "dl_result (process_webhook client env event d) = Inr ()"
  shows "\<exists>p \<in> set (payments (dl_database (process_webhook client env event d))).
    p_id p = e_payment_id event \<and> p_webhook_sent_at p \<noteq> None"
  using assms by (rule delivery_returned)

text \<open>A run records a webhook as sent only if the merchant answered this run's request with a
  2xx response.\<close>

theorem sent_only_after_2xx:
  assumes "db_inv d" and "others_ok (y_others env)"
    and "p \<in> set (payments (y_others env d))" and "p_webhook_sent_at p = None"
    and "p' \<in> set (payments (dl_database (process_webhook client env event d)))"
    and "p_id p' = p_id p" and "p_webhook_sent_at p' \<noteq> None"
  shows "\<exists>response. y_answer env = Responded response \<and> 200 \<le> x_status_code response \<and>
    x_status_code response < 300"
proof -
  note ok = others_okD [OF assms(2,1)]
  have c: "constraints_ok (y_others env d)" using ok(2) by (simp add: db_inv_def)
  have untouched: False if old: "p' \<in> set (payments d)"
  proof -
    obtain p2 where p2: "p2 \<in> set (payments (y_others env d))" "row_le p' p2" "p_id p2 = p_id p'"
      by (rule history_payment [OF ok(3) old])
    then have "p2 = p" using same_payment [OF c p2(1) assms(3)] assms(6) by simp
    with p2(2) assms(4,7) show False by (auto simp: row_le_def)
  qed
  show ?thesis
  proof (cases rule: process_webhook_cases [where client = client and env = env and event = event and d = d])
    case (tried p0 delivery sent r result d')
    have "d' \<noteq> y_others env d"
      using same_payment [OF c _ assms(3), of p'] assms(4-7) tried(6) by auto
    then have "r = Inr ()" using finish_delivery_change [OF ok(2) tried(5)] by auto
    with tried(4) show ?thesis
      by (cases "y_answer env") (auto simp: deliver_def Let_def split: if_splits)
  qed (use untouched assms(5) in simp_all)
qed

subsection \<open>Webhook events of the outbox\<close>

lemma load_delivery_run:
  assumes inv: "db_inv d" and p: "p \<in> set (payments d)" "p_id p = e_payment_id event"
    and w: "p_webhook_event_id p = Some (e_event_id event)" "p_processed_at p = Some t"
    and st: "terminal (p_status p)" and a: "amount_field_ok (p_amount p)"
  shows "in_session (load_delivery event) (healthy now) d =
    (Inr (if p_webhook_sent_at p \<noteq> None then None
          else Some \<lparr>wd_url = p_webhook_url p, wd_payload = delivery_payload p (e_event_id event) t\<rparr>), d)"
proof -
  have c: "constraints_ok d" using inv by (simp add: db_inv_def)
  have "WebhookPayload (delivery_payload p (e_event_id event) t) = Inr (delivery_payload p (e_event_id event) t)"
    using a st by (auto simp: WebhookPayload_def delivery_payload_def validate_terminal_status_def
        expected_event_type_def terminal_def)
  moreover have "p_status p = SUCCEEDED \<or> p_status p = FAILED" using st by (simp add: terminal_def)
  ultimately show ?thesis
    using c w find_pending [OF inv p(1)] p(2)
    by (auto simp: in_session_def load_delivery_def tx_bind_def tx_lift_def tx_return_def get_by_id_def
        select_id_run split: prod.split)
qed

text \<open>Every webhook event of the outbox can be delivered: loading it finds its payment,
  terminal, with everything the payload needs, and none of the processor's permanent errors is
  raised; it loads nothing exactly when the webhook has been sent already.\<close>

theorem outbox_webhook_is_deliverable:
  assumes "db_inv d" and "ev \<in> set (outbox_events d)" and "o_event_type ev = WEBHOOK_DELIVERY_REQUESTED"
    and "envelope_validate (o_payload ev) = Some event"
    and "list_all (\<lambda>p. amount_field_ok (p_amount p)) (payments d)"
  shows "\<exists>p t. p \<in> set (payments d) \<and> p_id p = o_payment_id ev \<and> p_processed_at p = Some t \<and>
    in_session (load_delivery event) (healthy now) d =
      (Inr (if p_webhook_sent_at p \<noteq> None then None
            else Some \<lparr>wd_url = p_webhook_url p, wd_payload = delivery_payload p (o_id ev) t\<rparr>), d)"
proof -
  from assms(1-4) have e: "e_event_id event = o_id ev" "e_payment_id event = o_payment_id ev"
    by (auto simp: db_inv_def outbox_ok_def payload_of_def)
  from assms(1-3) obtain p where p: "p \<in> set (payments d)" "p_id p = o_payment_id ev"
    "p_webhook_event_id p = Some (o_id ev)"
    by (auto simp: db_inv_def outbox_ok_def event_of_def)
  then have "row_ok p" using assms(1) by (simp add: db_inv_def)
  with p(3) have st: "terminal (p_status p)" and "p_processed_at p \<noteq> None" by (auto simp: row_ok_def)
  then obtain t where t: "p_processed_at p = Some t" by auto
  have "amount_field_ok (p_amount p)" using assms(5) p(1) by (simp add: list_all_iff)
  with load_delivery_run [OF assms(1) p(1) _ _ t st, of event now] p e t show ?thesis by auto
qed

lemma mark_sent_run:
  assumes inv: "db_inv d" and p: "p \<in> set (payments d)" "p_webhook_sent_at p = None"
    and w: "p_webhook_event_id p = Some w"
  shows "in_session (mark_sent (p_id p) w t) (healthy now) d = (Inr (), sent_row t now p d)"
proof -
  have c: "constraints_ok d" using inv by (simp add: db_inv_def)
  have "row_ok p" using inv p by (simp add: db_inv_def)
  with w have st: "p_status p = SUCCEEDED \<or> p_status p = FAILED" by (auto simp: row_ok_def terminal_def)
  have ne: "p\<lparr>p_webhook_sent_at := Some t\<rparr> \<noteq> p"
    by (rule notI, drule arg_cong [of _ _ p_webhook_sent_at]) (simp add: p)
  have "\<not> conflicts (p\<lparr>p_webhook_sent_at := Some t\<rparr>) (payments d)"
    using constraints_unique [OF c p(1)] by (auto simp: conflicts_iff same_unique_def)
  then have "update_payment now (p\<lparr>p_webhook_sent_at := Some t\<rparr>) d = Inr (sent_row t now p d)"
    using update_payment_changed [OF c p(1) _ ne, of now] by (simp add: sent_row_def)
  with c p w st find_pending [OF inv p(1)] show ?thesis
    by (simp add: in_session_def mark_sent_def rollback_on_error_def tx_bind_def tx_return_def
        get_by_id_for_update_def select_id_run flush_payment_def statement_answered commit_answered)
qed

lemma delivery_run:
  assumes inv: "db_inv d" and p: "p \<in> set (payments d)" "terminal (p_status p)" "amount_field_ok (p_amount p)"
    and w: "p_webhook_event_id p = Some (e_event_id event)" "p_processed_at p = Some t" "p_webhook_sent_at p = None"
    and event: "e_event_type event = WEBHOOK_DELIVERY_REQUESTED" "e_payment_id event = p_id p" "1 \<le> e_attempt event"
    and env: "y_load env = healthy t1" "y_others env = (\<lambda>d. d)" "y_final env = healthy t2"
    and answer: "y_answer env = Responded x" "200 \<le> x_status_code x" "x_status_code x < 300"
  shows "process_webhook client env event d =
    \<lparr>dl_result = Inr (),
     dl_sent = [\<lparr>hp_url = p_webhook_url p, hp_body = delivery_payload p (e_event_id event) t,
       hp_headers = webhook_headers (e_event_id event) (e_attempt event),
       hp_timeout = wh_timeout_seconds client, hp_follow_redirects = False\<rparr>],
     dl_database = sent_row (y_now env) t2 p d\<rparr>"
  using load_delivery_run [OF inv p(1) event(2) [symmetric] w(1,2) p(2,3), of t1]
    mark_sent_run [OF inv p(1) w(3,1), of "y_now env" t2] w(3) event env answer
  by (simp add: process_webhook_def deliver_def)

subsection \<open>Concrete runs\<close>

definition settled_payment :: payment where
  "settled_payment = processed_payment sample_response 79 (UUID 3) sample_payment\<lparr>p_updated_at := 80\<rparr>"

definition sample_webhook_event :: outbox_event where
  "sample_webhook_event = created 80 (Some 79) (webhook_outbox_event (webhook_envelope (UUID 3) (UUID 1) 79))"

definition sample_notified :: database where
  "sample_notified = sent_row 90 91 settled_payment sample_settled"

definition sample_delivery :: delivery_env where
  "sample_delivery = \<lparr>y_load = healthy 85, y_others = (\<lambda>d. d), y_final = healthy 91,
     y_answer = Responded approved_response, y_now = 90\<rparr>"

lemma settled_payment_simps [simp]:
  "p_id settled_payment = UUID 1" "p_status settled_payment = SUCCEEDED"
  "p_webhook_event_id settled_payment = Some (UUID 3)" "p_processed_at settled_payment = Some 79"
  "p_provider_payment_id settled_payment = Some (UUID 9)"
  "p_amount settled_payment = p_amount sample_payment" "p_webhook_sent_at settled_payment = None"
  by (simp_all add: settled_payment_def processed_payment_def sample_response_def)
    (simp add: sample_payment_def new_row_def build_payment_def)

lemma sample_settled_eq:
  "sample_settled = \<lparr>payments = [settled_payment],
     outbox_events = [build_process_requested_event sample_env sample_payment, sample_webhook_event]\<rparr>"
  by (simp add: sample_settled_def settled_rows_def with_resolution_def replace_row_def
      settled_payment_def sample_webhook_event_def sample_database_def with_payment_def)
    (simp add: processed_payment_def)

lemma sample_settled_inv: "db_inv sample_settled"
proof -
  have "db_step\<^sup>*\<^sup>* sample_database sample_settled"
    using process_steps [OF sample_database_inv, of sample_processing sample_client sample_event sample_breaker]
    by (simp add: sample_run) (simp add: sample_processing_def)
  then show ?thesis using sample_database_inv by (rule db_steps_inv)
qed

lemma sample_webhook_validates:
  "envelope_validate (o_payload sample_webhook_event) = Some (webhook_envelope (UUID 3) (UUID 1) 79)"
  "o_event_type sample_webhook_event = WEBHOOK_DELIVERY_REQUESTED" "o_payment_id sample_webhook_event = UUID 1"
  "o_id sample_webhook_event = UUID 3"
  by (simp_all add: sample_webhook_event_def created_def webhook_outbox_event_def webhook_envelope_def
      envelope_validate_dump envelope_ok_def)

abbreviation sample_webhook_run :: delivered where
  "sample_webhook_run \<equiv>
     process_webhook \<lparr>wh_timeout_seconds = 5\<rparr> sample_delivery (webhook_envelope (UUID 3) (UUID 1) 79) sample_settled"

definition sample_post :: webhook_post where
  "sample_post = \<lparr>hp_url = p_webhook_url settled_payment, hp_body = delivery_payload settled_payment (UUID 3) 79,
     hp_headers = webhook_headers (UUID 3) 1, hp_timeout = 5, hp_follow_redirects = False\<rparr>"

lemma sample_webhook_result:
  "sample_webhook_run = \<lparr>dl_result = Inr (), dl_sent = [sample_post], dl_database = sample_notified\<rparr>"
  by (rule trans [OF delivery_run [OF sample_settled_inv, of settled_payment, where x = approved_response]])
    (simp_all add: sample_settled_eq sample_amount_ok webhook_envelope_def sample_delivery_def approved_response_def
      sample_post_def sample_notified_def)

lemma webhook_reports_the_payment_witness:
  "\<exists>p \<in> set (payments sample_settled). p_id p = UUID 1 \<and> hp_url sample_post = p_webhook_url p"
  using webhook_reports_the_payment [of sample_post "\<lparr>wh_timeout_seconds = 5\<rparr>" sample_delivery
      "webhook_envelope (UUID 3) (UUID 1) 79" sample_settled]
  unfolding sample_webhook_result by (auto simp: webhook_envelope_def)

lemma returned_means_sent_witness:
  "\<exists>p \<in> set (payments sample_notified). p_id p = UUID 1 \<and> p_webhook_sent_at p \<noteq> None"
  using returned_means_sent [OF sample_settled_inv, of sample_delivery "\<lparr>wh_timeout_seconds = 5\<rparr>"
      "webhook_envelope (UUID 3) (UUID 1) 79"]
  unfolding sample_webhook_result by (simp add: sample_delivery_def webhook_envelope_def)

lemma sent_only_after_2xx_witness:
  "\<exists>response. y_answer sample_delivery = Responded response \<and> 200 \<le> x_status_code response \<and>
     x_status_code response < 300"
proof (rule sent_only_after_2xx [OF sample_settled_inv, where p = settled_payment
      and p' = "settled_payment\<lparr>p_webhook_sent_at := Some 90, p_updated_at := 91\<rparr>"])
  show "settled_payment\<lparr>p_webhook_sent_at := Some 90, p_updated_at := 91\<rparr> \<in> set (payments (dl_database sample_webhook_run))"
    unfolding sample_webhook_result
    by (simp add: sample_notified_def sent_row_def set_replace_row sample_settled_eq)
qed (simp_all add: sample_delivery_def sample_settled_eq)

lemma outbox_webhook_is_deliverable_witness:
  "\<exists>p t. p \<in> set (payments sample_settled) \<and> p_id p = UUID 1 \<and> p_processed_at p = Some t \<and>
    in_session (load_delivery (webhook_envelope (UUID 3) (UUID 1) 79)) (healthy 85) sample_settled =
      (Inr (if p_webhook_sent_at p \<noteq> None then None
            else Some \<lparr>wd_url = p_webhook_url p, wd_payload = delivery_payload p (UUID 3) t\<rparr>), sample_settled)"
  using outbox_webhook_is_deliverable [OF sample_settled_inv, of sample_webhook_event
      "webhook_envelope (UUID 3) (UUID 1) 79" 85]
  by (simp add: sample_settled_eq sample_webhook_validates sample_amount_ok)

end
