(* ===== verification/Dispatcher.thy ===== *)
theory Dispatcher
  imports Webhook_Processor
begin

text \<open>
  \<open>app/worker/dispatcher.py\<close> and the wiring of \<open>app/worker/subscriber.py\<close>: every message of the
  work queue goes to the consumer, whose processor is the dispatcher. The dispatcher's contract
  rests on those of the two processors.
\<close>

type_synonym worker_env = "(provider_client \<times> breaker \<times> processing_env) \<times> (webhook_client \<times> delivery_env)"

definition dispatch :: "worker_env \<Rightarrow> event_envelope \<Rightarrow> database \<Rightarrow> unit outcome \<times> database" where
  "dispatch env event d =
     (case e_event_type event of
        PAYMENT_PROCESS_REQUESTED \<Rightarrow> payment_processing (fst env) event d
      | WEBHOOK_DELIVERY_REQUESTED \<Rightarrow> webhook_processing (snd env) event d)"

definition dispatch_admissible :: "worker_env \<Rightarrow> bool" where
  "dispatch_admissible env \<longleftrightarrow> processing_admissible (fst env) \<and> delivery_admissible (snd env)"

interpretation dispatcher: event_processor dispatch dispatch_admissible "\<lambda>_. True"
  by unfold_locales
    (auto simp: dispatch_def dispatch_admissible_def split: event_type.split
      intro: payment_processor.moves webhook_processor.moves)

text \<open>\<open>handle_payment_queue_message\<close>: one message of the work queue.\<close>

definition handle_payment_queue_message ::
  "worker_env \<Rightarrow> (settlement \<Rightarrow> unit outcome) \<Rightarrow> seconds \<Rightarrow> raw_event \<Rightarrow> broker \<Rightarrow> database \<Rightarrow> database handled" where
  "handle_payment_queue_message env = handle (dispatch env)"

text \<open>Handling any message, valid or not, under any faults, keeps the invariant and the
  history of the database.\<close>

theorem worker_keeps_lifecycle:
  assumes "db_inv d" and "dispatch_admissible env"
  shows "db_inv (hd_world (handle_payment_queue_message env settled t body b d)) \<and>
    history_le d (hd_world (handle_payment_queue_message env settled t body b d))"
proof -
  have "db_step\<^sup>*\<^sup>* d (hd_world (handle_payment_queue_message env settled t body b d))"
    unfolding handle_payment_queue_message_def by (rule dispatcher.handle_moves [OF assms])
  then show ?thesis using assms(1) db_steps_inv db_steps_history by blast
qed

lemma dispatch_returned:
  assumes "db_inv d" and "dispatch_admissible env" and "fst (dispatch env event d) = Inr ()"
  shows "\<exists>p \<in> set (payments (snd (dispatch env event d))). p_id p = e_payment_id event \<and>
    (if e_event_type event = PAYMENT_PROCESS_REQUESTED then p_status p \<noteq> PENDING
     else p_webhook_sent_at p \<noteq> None)"
proof -
  obtain client b penv wclient wenv where env: "env = ((client, b, penv), (wclient, wenv))"
    by (cases env) (metis prod.collapse)
  show ?thesis
  proof (cases "e_event_type event")
    case PAYMENT_PROCESS_REQUESTED
    with assms process_returned [of d penv client event b] show ?thesis
      by (simp add: env dispatch_def dispatch_admissible_def processing_admissible_def payment_processing_def)
  next
    case WEBHOOK_DELIVERY_REQUESTED
    with assms delivery_returned [of d wenv wclient event] show ?thesis
      by (simp add: env dispatch_def dispatch_admissible_def delivery_admissible_def webhook_processing_def)
  qed
qed

text \<open>C12. What an acknowledgement of the worker stands for: the payment of a processing event is no
  longer pending, the webhook of a delivery event is recorded as sent, or the broker holds the
  next attempt at the same event.\<close>

theorem worker_ack_guarantee:
  assumes "db_inv d" and "dispatch_admissible env"
    and "hd_settlement (handle_payment_queue_message env settled t body b d) = Some Ack"
  shows "\<exists>event. envelope_validate body = Some event \<and>
    ((\<exists>p \<in> set (payments (hd_world (handle_payment_queue_message env settled t body b d))).
        p_id p = e_payment_id event \<and>
        (if e_event_type event = PAYMENT_PROCESS_REQUESTED then p_status p \<noteq> PENDING
         else p_webhook_sent_at p \<noteq> None)) \<or>
     (e_attempt event < 3 \<and>
      b_messages (hd_broker (handle_payment_queue_message env settled t body b d)) =
        b_messages b @ [retry_message t event]))"
proof -
  let ?h = "handle (dispatch env) settled t body b d"
  from ack_cases [OF assms(3) [unfolded handle_payment_queue_message_def]]
  obtain event where v: "envelope_validate body = Some event"
    and c: "fst (dispatch env event d) = Inr () \<or>
      (e_attempt event < 3 \<and> b_messages (hd_broker ?h) = b_messages b @ [retry_message t event])"
    by blast
  have w: "hd_world ?h = snd (dispatch env event d)" by (simp add: handle_world v)
  from c dispatch_returned [OF assms(1,2), of event] v show ?thesis
    unfolding handle_payment_queue_message_def w by blast
qed

text \<open>The sample payment's processing event, handled.\<close>

definition sample_worker :: worker_env where
  "sample_worker = ((sample_client, sample_breaker, sample_processing),
     (\<lparr>wh_timeout_seconds = 5\<rparr>, sample_delivery))"

lemma sample_worker_ok: "dispatch_admissible sample_worker"
  by (simp add: sample_worker_def dispatch_admissible_def processing_admissible_def
      delivery_admissible_def sample_processing_def sample_delivery_def)

lemma sample_worker_run:
  "handle_payment_queue_message sample_worker (\<lambda>_. Inr ()) 5 (envelope_dump sample_event) b sample_database =
     \<lparr>hd_settlement = Some Ack, hd_result = Inr (), hd_broker = b, hd_world = sample_settled\<rparr>"
  by (simp add: handle_payment_queue_message_def handle_valid envelope_validate_dump dispatch_def
      sample_worker_def payment_processing_def sample_run settle_def)

lemma worker_keeps_lifecycle_witness: "db_inv sample_settled \<and> history_le sample_database sample_settled"
  using worker_keeps_lifecycle [OF sample_database_inv sample_worker_ok, of "\<lambda>_. Inr ()" 5 "envelope_dump sample_event"]
  by (simp add: sample_worker_run)

lemma worker_ack_guarantee_witness:
  "\<exists>event. envelope_validate (envelope_dump sample_event) = Some event \<and>
    ((\<exists>p \<in> set (payments sample_settled). p_id p = e_payment_id event \<and>
        (if e_event_type event = PAYMENT_PROCESS_REQUESTED then p_status p \<noteq> PENDING
         else p_webhook_sent_at p \<noteq> None)) \<or>
     (e_attempt event < 3 \<and> [] = [retry_message 5 event]))"
  using worker_ack_guarantee [OF sample_database_inv sample_worker_ok, of "\<lambda>_. Inr ()" 5
      "envelope_dump sample_event" "\<lparr>b_messages = [], b_replies = []\<rparr>"]
  by (simp add: sample_worker_run)

end
