(* ===== verification/Outbox_Relay.thy ===== *)
theory Outbox_Relay
  imports Rabbit Payment_Service "HOL-Library.Multiset"
begin

text \<open>
  \<open>app/services/outbox_relay.py\<close>: publishing the outbox.

  \<open>relay_batch\<close> is \<open>process_batch\<close>: one session reads a batch, publishes its events in order,
  marks them and commits. The broker is state of its own, so the session's pieces are put
  together explicitly; \<open>relay_run\<close> is the polling loop over the turns it makes before the stop
  event is set.
\<close>

record relay =
  rl_batch_size :: int
  rl_timeout_seconds :: seconds

text \<open>The \<open>for\<close> loop: the marked events, or the exception that ended it. \<open>clock i\<close> is the time
  at which the event at position \<open>i\<close> is marked.\<close>

fun publish_events ::
  "seconds \<Rightarrow> (nat \<Rightarrow> time) \<Rightarrow> nat \<Rightarrow> outbox_event list \<Rightarrow> broker \<Rightarrow> outbox_event list outcome \<times> broker" where
  "publish_events timeout clock i [] b = (Inr [], b)"
| "publish_events timeout clock i (event # events) b =
     (case envelope_validate (o_payload event) of
        None \<Rightarrow> (Inl (ValueError ''ValidationError''), b)
      | Some envelope \<Rightarrow>
          (case publish timeout envelope b of
             (Inl e, b') \<Rightarrow> (Inl e, b')
           | (Inr _, b') \<Rightarrow>
               (case publish_events timeout clock (i + 1) events b' of
                  (Inl e, b'') \<Rightarrow> (Inl e, b'')
                | (Inr marked, b'') \<Rightarrow> (Inr (mark_published (clock i) event # marked), b''))))"

text \<open>\<open>except Exception: await session.rollback(); raise\<close>, then the end of the session.\<close>

definition close_failed :: "exn \<Rightarrow> session \<Rightarrow> database" where
  "close_failed e s = committed (if is_exception e then snd (rollback s) else s)"

definition relay_batch ::
  "relay \<Rightarrow> (nat \<Rightarrow> time) \<Rightarrow> connection \<Rightarrow> broker \<Rightarrow> database \<Rightarrow> nat outcome \<times> broker \<times> database" where
  "relay_batch relay clock c b d =
     (case get_unpublished_batch (rl_batch_size relay) (begin_session d c) of
        (Inl e, s) \<Rightarrow> (Inl e, b, close_failed e s)
      | (Inr events, s) \<Rightarrow>
          (case publish_events (rl_timeout_seconds relay) clock 0 events b of
             (Inl e, b') \<Rightarrow> (Inl e, b', close_failed e s)
           | (Inr marked, b') \<Rightarrow>
               (case tx_bind (flush_outbox marked) (\<lambda>_. commit) s of
                  (Inl e, s') \<Rightarrow> (Inl e, b', close_failed e s')
                | (Inr _, s') \<Rightarrow> (Inr (length events), b', committed s'))))"

text \<open>One turn of the loop: what other transactions commit before it, its clock and its
  connection. An \<open>Exception\<close> is logged and the loop goes on.\<close>

record relay_turn =
  rt_others :: "database \<Rightarrow> database"
  rt_clock :: "nat \<Rightarrow> time"
  rt_connection :: connection

fun relay_run :: "relay \<Rightarrow> relay_turn list \<Rightarrow> broker \<Rightarrow> database \<Rightarrow> unit outcome \<times> broker \<times> database" where
  "relay_run relay [] b d = (Inr (), b, d)"
| "relay_run relay (t # turns) b d =
     (case relay_batch relay (rt_clock t) (rt_connection t) b (rt_others t d) of
        (Inl e, b', d') \<Rightarrow> if is_exception e then relay_run relay turns b' d' else (Inl e, b', d')
      | (Inr _, b', d') \<Rightarrow> relay_run relay turns b' d')"

subsection \<open>A batch\<close>

text \<open>The message of an event whose payload validates.\<close>

definition message_of :: "seconds \<Rightarrow> outbox_event \<Rightarrow> rabbit_message" where
  "message_of timeout event =
     message_for timeout (the (envelope_validate (o_payload event))) (qu_routing_key PAYMENTS_NEW_QUEUE)"

fun mark_all :: "(nat \<Rightarrow> time) \<Rightarrow> nat \<Rightarrow> outbox_event list \<Rightarrow> outbox_event list" where
  "mark_all clock i [] = []"
| "mark_all clock i (ev # evs) = mark_published (clock i) ev # mark_all clock (i + 1) evs"

lemma publish_events_Inr:
  "publish_events t clock i evs b = (Inr marked, b') \<Longrightarrow>
     marked = mark_all clock i evs \<and> b_messages b' = b_messages b @ map (message_of t) evs"
proof (induction evs arbitrary: i b marked)
  case (Cons ev evs)
  then show ?case
    by (auto split: option.splits prod.splits sum.splits dest!: publish_Inr simp: message_of_def)
qed simp

lemma mark_all_ids [simp]: "map o_id (mark_all clock i evs) = map o_id evs"
  by (induction evs arbitrary: i) (simp_all add: mark_published_def)

lemma mark_all_id_set [simp]: "o_id ` set (mark_all clock i evs) = o_id ` set evs"
  by (metis list.set_map mark_all_ids)

text \<open>Marking a batch is a sequence of publication steps.\<close>

lemma publish_steps:
  assumes "set evs \<subseteq> set (outbox_events d)" and "distinct (map o_id evs)"
    and "\<forall>ev \<in> set evs. o_published_at ev = None"
  shows "db_step\<^sup>*\<^sup>* d (fold update_outbox_event (mark_all clock i evs) d)"
  using assms
proof (induction evs arbitrary: i d)
  case (Cons ev evs)
  let ?d = "update_outbox_event (mark_published (clock i) ev) d"
  have "db_step d ?d"
    using db_step.publish [of ev d "clock i"] Cons.prems by (simp add: mark_published_def)
  moreover have "db_step\<^sup>*\<^sup>* ?d (fold update_outbox_event (mark_all clock (i + 1) evs) ?d)"
  proof (rule Cons.IH)
    show "set evs \<subseteq> set (outbox_events ?d)"
    proof
      fix x assume x: "x \<in> set evs"
      then have "x \<in> set (outbox_events d)" "o_id x \<noteq> o_id ev" using Cons.prems by (auto simp: image_iff)
      then show "x \<in> set (outbox_events ?d)"
        by (simp add: update_outbox_event_def set_replace_row mark_published_def)
    qed
  qed (use Cons.prems in auto)
  ultimately show ?case by simp
qed simp

lemma unpublished_batch:
  assumes "constraints_ok d"
  shows "set (select_unpublished n l d) \<subseteq> set (outbox_events d)"
    and "distinct (map o_id (select_unpublished n l d))"
    and "\<forall>ev \<in> set (select_unpublished n l d). o_published_at ev = None"
proof -
  show "set (select_unpublished n l d) \<subseteq> set (outbox_events d)"
    using select_unpublished_props(1) by blast
  show "distinct (map o_id (select_unpublished n l d))"
    unfolding select_unpublished_def
    by (rule distinct_select_rows) (use assms in \<open>simp add: constraints_ok_def\<close>)
  show "\<forall>ev \<in> set (select_unpublished n l d). o_published_at ev = None"
    using select_unpublished_props(2) by blast
qed

lemma get_batch_cases:
  assumes "get_unpublished_batch n (begin_session d c) = (r, s)"
  shows "committed s = d \<and> working s = d \<and>
    (\<forall>evs. r = Inr evs \<longrightarrow> evs = select_unpublished n (conn_locked c) d)"
  using assms
  by (auto simp: get_unpublished_batch_def statement_def next_reply_def tx_raise_def begin_session_def
      split: if_splits prod.splits db_reply.splits list.splits)

lemma flush_commit_cases:
  assumes "tx_bind (flush_outbox marked) (\<lambda>_. commit) s = (r, s')" and "working s = committed s"
  shows "committed s' = committed s \<and> (\<exists>e. r = Inl e) \<or>
    committed s' = fold update_outbox_event marked (committed s)"
  using assms
  by (auto simp: tx_bind_def flush_outbox_def statement_def commit_def next_reply_def
      split: prod.splits db_reply.splits list.splits sum.splits)

lemma close_failed_committed [simp]: "close_failed e s = committed s"
  by (simp add: close_failed_def rollback_def)

text \<open>A batch, whatever is answered: either nothing is marked, or every event of the batch has
  been confirmed and all are marked.\<close>

definition batch_left :: "relay \<Rightarrow> (nat \<Rightarrow> time) \<Rightarrow> uuid list \<Rightarrow> broker \<Rightarrow> database \<Rightarrow> nat outcome \<Rightarrow> broker \<Rightarrow> database \<Rightarrow> bool" where
  "batch_left relay clock locked b d r b' d' \<longleftrightarrow>
     (let evs = select_unpublished (rl_batch_size relay) locked d
      in (d' = d \<and> (\<exists>e. r = Inl e) \<and> (\<exists>ms. b_messages b' = b_messages b @ ms)) \<or>
         (d' = fold update_outbox_event (mark_all clock 0 evs) d \<and>
          b_messages b' = b_messages b @ map (message_of (rl_timeout_seconds relay)) evs \<and>
          (\<forall>n. r = Inr n \<longrightarrow> n = length evs)))"

lemma publish_events_grow:
  "publish_events t clock i evs b = (r, b') \<Longrightarrow> \<exists>ms. b_messages b' = b_messages b @ ms"
proof (induction evs arbitrary: i b r b')
  case (Cons ev evs)
  show ?case
  proof (cases "envelope_validate (o_payload ev)")
    case (Some e)
    obtain x b1 where pub: "publish t e b = (x, b1)" by (cases "publish t e b")
    then have g: "\<exists>ms. b_messages b1 = b_messages b @ ms"
      using broker_publish_cases [OF pub [unfolded publish_def publish_with_key_def]] by auto
    obtain y b2 where rest: "publish_events t clock (i + 1) evs b1 = (y, b2)"
      by (cases "publish_events t clock (i + 1) evs b1")
    with Cons.IH [OF rest] g Cons.prems Some pub show ?thesis by (auto split: sum.splits)
  qed (use Cons.prems in auto)
qed simp

lemma relay_batch_left:
  assumes run: "relay_batch relay clock c b d = (r, b', d')"
  shows "batch_left relay clock (conn_locked c) b d r b' d'"
proof -
  let ?n = "rl_batch_size relay" and ?t = "rl_timeout_seconds relay"
  let ?evs = "select_unpublished ?n (conn_locked c) d"
  obtain x s where get: "get_unpublished_batch ?n (begin_session d c) = (x, s)"
    by (cases "get_unpublished_batch ?n (begin_session d c)")
  note g = get_batch_cases [OF get]
  show ?thesis
  proof (cases x)
    case (Inl e)
    with run get g show ?thesis by (auto simp: relay_batch_def batch_left_def Let_def)
  next
    case (Inr evs)
    with g have evs: "evs = ?evs" by simp
    obtain y b1 where pub: "publish_events ?t clock 0 evs b = (y, b1)"
      by (cases "publish_events ?t clock 0 evs b")
    show ?thesis
    proof (cases y)
      case (Inl e)
      with run get g Inr pub publish_events_grow [OF pub] show ?thesis
        by (auto simp: relay_batch_def batch_left_def Let_def)
    next
      case marked: (Inr marked)
      note m = publish_events_Inr [OF pub [unfolded marked]]
      obtain z s' where fin: "tx_bind (flush_outbox marked) (\<lambda>_. commit) s = (z, s')"
        by (cases "tx_bind (flush_outbox marked) (\<lambda>_. commit) s")
      have "d' = committed s' \<and> b' = b1 \<and> (\<forall>e. z = Inl e \<longrightarrow> r = Inl e) \<and> (\<forall>n. r = Inr n \<longrightarrow> n = length evs)"
        using run get Inr pub marked fin by (auto simp: relay_batch_def split: sum.splits)
      with flush_commit_cases [OF fin] g m evs show ?thesis
        by (auto simp: batch_left_def Let_def)
    qed
  qed
qed

text \<open>A batch is marked as a whole or not at all, and only when the broker has confirmed
  every message of it, in the order of the events' creation: a failure before the commit leaves
  the outbox as it was, with messages that will be sent again.\<close>

theorem relay_batch_all_or_nothing:
  assumes "relay_batch relay clock c b d = (r, b', d')"
  shows "(d' = d \<and> (\<exists>e. r = Inl e) \<and> (\<exists>ms. b_messages b' = b_messages b @ ms)) \<or>
    (let evs = select_unpublished (rl_batch_size relay) (conn_locked c) d
     in d' = fold update_outbox_event (mark_all clock 0 evs) d \<and>
        b_messages b' = b_messages b @ map (message_of (rl_timeout_seconds relay)) evs \<and>
        sorted (map (\<lambda>ev. (o_created_at ev, o_id ev)) evs) \<and> (\<forall>n. r = Inr n \<longrightarrow> n = length evs))"
  using relay_batch_left [OF assms] sorted_select_rows
  by (auto simp: batch_left_def Let_def select_unpublished_def)

subsection \<open>The relay keeps the contract of a transaction\<close>

definition relay_transaction ::
  "relay \<times> (nat \<Rightarrow> time) \<times> broker \<Rightarrow> connection \<Rightarrow> database \<Rightarrow> nat outcome \<times> database" where
  "relay_transaction = (\<lambda>(relay, clock, b) c d.
     (fst (relay_batch relay clock c b d), snd (snd (relay_batch relay clock c b d))))"

lemma relay_batch_steps:
  assumes "db_inv d" and "relay_batch relay clock c b d = (r, b', d')"
  shows "db_step\<^sup>*\<^sup>* d d'"
proof -
  have "constraints_ok d" using assms(1) by (simp add: db_inv_def)
  then show ?thesis
    using relay_batch_left [OF assms(2)] publish_steps [OF unpublished_batch]
    by (auto simp: batch_left_def Let_def)
qed

interpretation relay: transaction relay_transaction "\<lambda>_. True"
proof
  fix d :: database and a :: "relay \<times> (nat \<Rightarrow> time) \<times> broker" and c
  assume inv: "db_inv d"
  obtain relay clock b where a: "a = (relay, clock, b)" by (cases a)
  obtain r b' d' where run: "relay_batch relay clock c b d = (r, b', d')"
    by (cases "relay_batch relay clock c b d")
  show "db_step\<^sup>*\<^sup>* d (snd (relay_transaction a c d))"
    using relay_batch_steps [OF inv run] by (simp add: a relay_transaction_def run)
qed

subsection \<open>What has been published\<close>

lemma fold_update:
  assumes "distinct (map o_id ms)"
  shows "outbox_events (fold update_outbox_event ms d) =
      map (\<lambda>x. case find_row o_id (o_id x) ms of None \<Rightarrow> x | Some m \<Rightarrow> m) (outbox_events d)"
  using assms
proof (induction ms arbitrary: d)
  case Nil
  then show ?case by (simp add: find_row_def)
next
  case (Cons m ms)
  have "find_row o_id (o_id m) ms = None" using Cons.prems by (simp add: find_row_None)
  with Cons show ?case
    by (auto simp: update_outbox_event_def replace_row_def find_row_def)
qed

lemma payments_marked: "payments (fold update_outbox_event ms d) = payments d"
  by (induction ms arbitrary: d) (simp_all add: update_outbox_event_def)

lemma marked_ids: "map o_id (outbox_events (fold update_outbox_event ms d)) = map o_id (outbox_events d)"
  by (induction ms arbitrary: d) (simp_all add: update_outbox_event_def)

lemma find_mark_all:
  "find_row o_id i (mark_all clock k evs) = Some m \<Longrightarrow>
     \<exists>ev \<in> set evs. \<exists>j. o_id ev = i \<and> m = ev\<lparr>o_published_at := Some (clock j)\<rparr>"
proof (induction evs arbitrary: k)
  case (Cons ev evs)
  show ?case
  proof (cases "o_id ev = i")
    case True
    with Cons.prems show ?thesis by (auto simp: find_row_def mark_published_def)
  next
    case False
    with Cons.prems have "find_row o_id i (mark_all clock (k + 1) evs) = Some m"
      by (simp add: find_row_def mark_published_def)
    from Cons.IH [OF this] show ?thesis by auto
  qed
qed (simp add: find_row_def)

text \<open>The outbox after a batch has been marked.\<close>

lemma marked_outbox:
  assumes "constraints_ok d"
  shows "outbox_events (fold update_outbox_event (mark_all clock 0 (select_unpublished n l d)) d) =
    map (\<lambda>x. case find_row o_id (o_id x) (mark_all clock 0 (select_unpublished n l d)) of
               None \<Rightarrow> x | Some m \<Rightarrow> m) (outbox_events d)"
  using unpublished_batch(2) [OF assms] by (intro fold_update) simp

lemma marked_event:
  assumes c: "constraints_ok d" and x: "x \<in> set (outbox_events d)"
  shows "\<exists>j. (case find_row o_id (o_id x) (mark_all clock 0 (select_unpublished n l d)) of
               None \<Rightarrow> x | Some m \<Rightarrow> m) =
    (if x \<in> set (select_unpublished n l d) then x\<lparr>o_published_at := Some (clock j)\<rparr> else x)"
proof (cases "find_row o_id (o_id x) (mark_all clock 0 (select_unpublished n l d))")
  case None
  then have "x \<notin> set (select_unpublished n l d)" by (auto simp: find_row_None)
  with None show ?thesis by simp
next
  case (Some m)
  from find_mark_all [OF this] obtain ev j where ev: "ev \<in> set (select_unpublished n l d)" "o_id ev = o_id x"
    "m = ev\<lparr>o_published_at := Some (clock j)\<rparr>" by blast
  then have "ev = x"
    using x unpublished_batch(1) [OF c] inj_onD [of o_id "set (outbox_events d)" ev x] c
    by (auto simp: constraints_ok_def distinct_map)
  with Some ev show ?thesis by auto
qed

lemma message_of_published [simp]: "message_of t (ev\<lparr>o_published_at := p\<rparr>) = message_of t ev"
  by (simp add: message_of_def)

definition published_stored :: "seconds \<Rightarrow> broker \<Rightarrow> database \<Rightarrow> bool" where
  "published_stored t b d \<longleftrightarrow>
     (\<forall>ev \<in> set (outbox_events d). o_published_at ev \<noteq> None \<longrightarrow> message_of t ev \<in> set (b_messages b))"

text \<open>The other transactions mark nothing as published.\<close>

definition marks_nothing :: "(database \<Rightarrow> database) \<Rightarrow> bool" where
  "marks_nothing f \<longleftrightarrow>
     (\<forall>d. \<forall>ev' \<in> set (outbox_events (f d)). o_published_at ev' \<noteq> None \<longrightarrow>
        (\<exists>ev \<in> set (outbox_events d). o_published_at ev \<noteq> None \<and> o_payload ev = o_payload ev'))"

lemma marks_nothing_stored: "marks_nothing f \<Longrightarrow> published_stored t b d \<Longrightarrow> published_stored t b (f d)"
  unfolding marks_nothing_def published_stored_def message_of_def by metis

lemma relay_batch_stored:
  assumes "db_inv d" and "published_stored (rl_timeout_seconds relay) b d"
    and "relay_batch relay clock c b d = (r, b', d')"
  shows "published_stored (rl_timeout_seconds relay) b' d'"
proof -
  let ?t = "rl_timeout_seconds relay"
  let ?evs = "select_unpublished (rl_batch_size relay) (conn_locked c) d"
  have c: "constraints_ok d" using assms(1) by (simp add: db_inv_def)
  consider "d' = d" "\<exists>ms. b_messages b' = b_messages b @ ms"
    | "d' = fold update_outbox_event (mark_all clock 0 ?evs) d"
      "b_messages b' = b_messages b @ map (message_of ?t) ?evs"
    using relay_batch_left [OF assms(3)] by (auto simp: batch_left_def Let_def)
  then show ?thesis
  proof cases
    case 1
    with assms(2) show ?thesis by (auto simp: published_stored_def)
  next
    case 2
    have "message_of ?t y \<in> set (b_messages b')"
      if y: "y \<in> set (outbox_events d')" "o_published_at y \<noteq> None" for y
    proof -
      from y(1) 2(1) marked_outbox [OF c] obtain x where x: "x \<in> set (outbox_events d)"
        "y = (case find_row o_id (o_id x) (mark_all clock 0 ?evs) of None \<Rightarrow> x | Some m \<Rightarrow> m)"
        by auto
      with marked_event [OF c x(1)] obtain j where
        "y = (if x \<in> set ?evs then x\<lparr>o_published_at := Some (clock j)\<rparr> else x)" by metis
      then show ?thesis
        using x(1) y(2) 2(2) assms(2) by (auto simp: published_stored_def split: if_splits)
    qed
    then show ?thesis by (simp add: published_stored_def)
  qed
qed

lemma relay_run_stored:
  assumes "db_inv d" and "published_stored (rl_timeout_seconds relay) b d"
    and "\<forall>t \<in> set turns. others_ok (rt_others t) \<and> marks_nothing (rt_others t)"
    and "relay_run relay turns b d = (r, b', d')"
  shows "published_stored (rl_timeout_seconds relay) b' d' \<and> db_inv d'"
  using assms
proof (induction turns arbitrary: b d)
  case (Cons t turns)
  let ?d = "rt_others t d"
  have others: "others_ok (rt_others t)" "marks_nothing (rt_others t)" using Cons.prems(3) by simp_all
  note ok = others_okD [OF others(1) Cons.prems(1)]
  obtain x b1 d1 where batch: "relay_batch relay (rt_clock t) (rt_connection t) b ?d = (x, b1, d1)"
    by (cases "relay_batch relay (rt_clock t) (rt_connection t) b ?d")
  have st: "published_stored (rl_timeout_seconds relay) b1 d1"
    by (rule relay_batch_stored [OF ok(2) marks_nothing_stored [OF others(2) Cons.prems(2)] batch])
  have inv: "db_inv d1" by (rule db_steps_inv [OF relay_batch_steps [OF ok(2) batch] ok(2)])
  show ?case
    using Cons.IH [OF inv st] Cons.prems(3,4) batch st inv
    by (auto split: sum.splits if_splits)
qed simp

text \<open>However long the relay runs, with whatever faults and whatever other transactions in
  between, every event it has marked as published has its message stored in the broker: nothing is
  lost between the outbox and the queue.\<close>

theorem published_events_are_stored:
  assumes "db_inv d" and "published_stored (rl_timeout_seconds relay) b d"
    and "\<forall>t \<in> set turns. others_ok (rt_others t) \<and> marks_nothing (rt_others t)"
    and "relay_run relay turns b d = (r, b', d')"
  shows "published_stored (rl_timeout_seconds relay) b' d' \<and> db_inv d'"
  using assms by (rule relay_run_stored)

subsection \<open>A relay without faults\<close>

lemma publish_run:
  assumes "b_replies b = []"
  shows "publish t e b =
    (Inr (), b\<lparr>b_messages := b_messages b @ [message_for t e (qu_routing_key PAYMENTS_NEW_QUEUE)]\<rparr>)"
  using assms lands_in_new [of t e]
  by (simp add: publish_def publish_with_key_def broker_publish_def Let_def flip: lands_in_def)

lemma publish_events_run:
  assumes "\<forall>ev \<in> set evs. payload_of ev" and "b_replies b = []"
  shows "publish_events t clock i evs b =
    (Inr (mark_all clock i evs), b\<lparr>b_messages := b_messages b @ map (message_of t) evs\<rparr>)"
  using assms
proof (induction evs arbitrary: i b)
  case (Cons ev evs)
  from Cons.prems(1) obtain e where "envelope_validate (o_payload ev) = Some e"
    by (auto simp: payload_of_def split: option.splits)
  with Cons show ?case by (simp add: publish_run message_of_def)
qed simp

lemma relay_batch_run:
  assumes inv: "db_inv d" and n: "1 \<le> rl_batch_size relay" and b: "b_replies b = []"
  defines "evs \<equiv> select_unpublished (rl_batch_size relay) [] d"
  shows "relay_batch relay clock (healthy now) b d =
    (Inr (length evs), b\<lparr>b_messages := b_messages b @ map (message_of (rl_timeout_seconds relay)) evs\<rparr>,
     fold update_outbox_event (mark_all clock 0 evs) d)"
proof -
  have c: "constraints_ok d" using inv by (simp add: db_inv_def)
  have "\<forall>ev \<in> set evs. payload_of ev"
    using unpublished_batch(1) [OF c] inv unfolding evs_def db_inv_def outbox_ok_def by blast
  from publish_events_run [OF this b] show ?thesis
    using n by (simp add: relay_batch_def get_unpublished_batch_def statement_answered evs_def
        tx_bind_def flush_outbox_def commit_answered)
qed

definition unpublished :: "database \<Rightarrow> outbox_event list" where
  "unpublished d = filter (\<lambda>ev. o_published_at ev = None) (outbox_events d)"

lemma distinct_outbox: "constraints_ok d \<Longrightarrow> distinct (outbox_events d)"
  by (simp add: constraints_ok_def distinct_map)

lemma unpublished_after:
  fixes d :: database and n :: int
  assumes c: "constraints_ok d"
  defines "evs \<equiv> select_unpublished n [] d"
  shows "unpublished (fold update_outbox_event (mark_all clock 0 evs) d) =
    filter (\<lambda>ev. ev \<notin> set evs) (unpublished d)"
proof -
  let ?f = "\<lambda>x. case find_row o_id (o_id x) (mark_all clock 0 evs) of None \<Rightarrow> x | Some m \<Rightarrow> m"
  have f: "?f x = x \<and> x \<notin> set evs \<or> o_published_at (?f x) \<noteq> None \<and> x \<in> set evs"
    if x: "x \<in> set (outbox_events d)" for x
  proof -
    obtain j where "?f x = (if x \<in> set evs then x\<lparr>o_published_at := Some (clock j)\<rparr> else x)"
      using marked_event [OF c x, of clock n "[]"] unfolding evs_def by blast
    then show ?thesis by (cases "x \<in> set evs") simp_all
  qed
  have "filter (\<lambda>ev. o_published_at ev = None) (map ?f xs) =
      filter (\<lambda>ev. ev \<notin> set evs) (filter (\<lambda>ev. o_published_at ev = None) xs)"
    if "set xs \<subseteq> set (outbox_events d)" for xs
    using that by (induction xs) (use f in fastforce)+
  then show ?thesis
    unfolding unpublished_def using marked_outbox [OF c, of clock n "[]"] by (simp add: evs_def)
qed

lemma batch_and_rest:
  fixes d :: database and n :: int
  assumes c: "constraints_ok d"
  defines "evs \<equiv> select_unpublished n [] d"
  shows "mset (unpublished d) = mset evs + mset (filter (\<lambda>ev. ev \<notin> set evs) (unpublished d))"
    and "length evs = min (nat n) (length (unpublished d))"
proof -
  have d: "distinct (unpublished d)" using distinct_outbox [OF c] by (simp add: unpublished_def)
  have "distinct evs" using unpublished_batch(2) [OF c] by (simp add: evs_def distinct_map)
  moreover have "set evs \<subseteq> set (unpublished d)"
    using unpublished_batch(1,3) [OF c] by (auto simp: evs_def unpublished_def)
  ultimately have "mset (filter (\<lambda>ev. ev \<in> set evs) (unpublished d)) = mset evs"
    using d by (intro set_eq_iff_mset_eq_distinct [THEN iffD1]) auto
  then show "mset (unpublished d) = mset evs + mset (filter (\<lambda>ev. ev \<notin> set evs) (unpublished d))"
    using multiset_partition [of "mset (unpublished d)" "\<lambda>ev. ev \<in> set evs"] by simp
  show "length evs = min (nat n) (length (unpublished d))"
    by (simp add: evs_def select_unpublished_def select_rows_def unpublished_def)
qed

definition healthy_turn :: "relay_turn \<Rightarrow> bool" where
  "healthy_turn t \<longleftrightarrow> rt_others t = (\<lambda>d. d) \<and> (\<exists>now. rt_connection t = healthy now)"

lemma relay_drains:
  assumes "db_inv d" and "1 \<le> rl_batch_size relay" and "b_replies b = []"
    and "\<forall>t \<in> set turns. healthy_turn t"
    and "length (unpublished d) \<le> length turns * nat (rl_batch_size relay)"
  shows "\<exists>ms d'. relay_run relay turns b d = (Inr (), b\<lparr>b_messages := b_messages b @ ms\<rparr>, d') \<and>
    unpublished d' = [] \<and>
    mset ms = image_mset (message_of (rl_timeout_seconds relay)) (mset (unpublished d))"
  using assms
proof (induction turns arbitrary: b d)
  case (Cons t turns)
  let ?evs = "select_unpublished (rl_batch_size relay) [] d" and ?t = "rl_timeout_seconds relay"
  let ?d = "fold update_outbox_event (mark_all (rt_clock t) 0 ?evs) d"
  let ?b = "b\<lparr>b_messages := b_messages b @ map (message_of ?t) ?evs\<rparr>"
  have c: "constraints_ok d" using Cons.prems(1) by (simp add: db_inv_def)
  from Cons.prems(4) obtain now where t: "rt_others t = (\<lambda>d. d)" "rt_connection t = healthy now"
    by (auto simp: healthy_turn_def)
  note batch = relay_batch_run [OF Cons.prems(1-3), of "rt_clock t" now]
  have rest: "unpublished ?d = filter (\<lambda>ev. ev \<notin> set ?evs) (unpublished d)"
    by (rule unpublished_after [OF c])
  note parts = batch_and_rest [OF c, of "rl_batch_size relay"]
  have len: "length (unpublished ?d) + length ?evs = length (unpublished d)"
    using arg_cong [OF parts(1), of size] unfolding rest by (simp only: size_union size_mset add.commute)
  have "length (unpublished ?d) \<le> length turns * nat (rl_batch_size relay)"
    using len parts(2) Cons.prems(5) by (auto simp: min_def split: if_splits)
  moreover have "db_inv ?d" by (rule db_steps_inv [OF relay_batch_steps [OF Cons.prems(1) batch] Cons.prems(1)])
  ultimately obtain ms d' where run: "relay_run relay turns ?b ?d = (Inr (), ?b\<lparr>b_messages := b_messages ?b @ ms\<rparr>, d')"
    and ms: "unpublished d' = []" "mset ms = image_mset (message_of ?t) (mset (unpublished ?d))"
    using Cons.IH [of ?d ?b] Cons.prems(2-4) by auto
  have "relay_run relay (t # turns) b d = (Inr (), b\<lparr>b_messages := b_messages b @ (map (message_of ?t) ?evs @ ms)\<rparr>, d')"
    using batch run by (simp add: t)
  moreover have "mset (map (message_of ?t) ?evs @ ms) = image_mset (message_of ?t) (mset (unpublished d))"
    unfolding parts(1) using ms(2) rest by simp
  ultimately show ?case using ms(1) by blast
qed (auto intro: exI [of _ "[]"])

text \<open>C25. Without faults the relay drains the outbox: after as many turns as it takes to cover
  the unpublished events in batches, every event is published and its message has been sent
  exactly once. No event can block the others: every payload in the outbox validates.\<close>

theorem relay_drains_outbox:
  assumes "db_inv d" and "1 \<le> rl_batch_size relay" and "b_replies b = []"
    and "\<forall>t \<in> set turns. healthy_turn t"
    and "length (unpublished d) \<le> length turns * nat (rl_batch_size relay)"
  shows "\<exists>ms d'. relay_run relay turns b d = (Inr (), b\<lparr>b_messages := b_messages b @ ms\<rparr>, d') \<and>
    unpublished d' = [] \<and>
    mset ms = image_mset (message_of (rl_timeout_seconds relay)) (mset (unpublished d))"
  using assms by (rule relay_drains)

subsection \<open>Concrete turns\<close>

definition sample_relay :: relay where
  "sample_relay = \<lparr>rl_batch_size = 2, rl_timeout_seconds = 5\<rparr>"

definition empty_broker :: broker where
  "empty_broker = \<lparr>b_messages = [], b_replies = []\<rparr>"

definition sample_turn :: relay_turn where
  "sample_turn = \<lparr>rt_others = (\<lambda>d. d), rt_clock = (\<lambda>i. 70 + int i), rt_connection = healthy 75\<rparr>"

lemma new_event_unpublished [simp]: "o_published_at (build_process_requested_event env p) = None"
  by (simp add: build_process_requested_event_def Let_def)

definition sample_queued :: broker where
  "sample_queued = empty_broker\<lparr>b_messages := map (message_of 5) (select_unpublished 2 [] sample_database)\<rparr>"

definition sample_published :: database where
  "sample_published = fold update_outbox_event
     (mark_all (\<lambda>i. 70 + int i) 0 (select_unpublished 2 [] sample_database)) sample_database"

lemma sample_batch_run:
  "relay_batch sample_relay (\<lambda>i. 70 + int i) (healthy 75) empty_broker sample_database =
     (Inr (length (select_unpublished 2 [] sample_database)), sample_queued, sample_published)"
  using relay_batch_run [OF sample_database_inv, of sample_relay empty_broker "\<lambda>i. 70 + int i" 75]
  by (simp add: sample_relay_def empty_broker_def sample_queued_def sample_published_def)

lemma sample_turn_run:
  "relay_run sample_relay [sample_turn] empty_broker sample_database = (Inr (), sample_queued, sample_published)"
  by (simp add: sample_turn_def sample_batch_run)

lemma sample_unpublished: "unpublished sample_database = [build_process_requested_event sample_env sample_payment]"
  by (simp add: unpublished_def)

lemma sample_selected:
  "select_unpublished 2 [] sample_database = [build_process_requested_event sample_env sample_payment]"
  by (simp add: select_unpublished_def select_rows_def)

lemma relay_batch_all_or_nothing_witness:
  "(sample_published = sample_database \<and> (\<exists>e. Inr (1 :: nat) = (Inl e :: nat outcome)) \<and>
      (\<exists>ms. b_messages sample_queued = b_messages empty_broker @ ms)) \<or>
   (let evs = select_unpublished 2 [] sample_database
    in sample_published = fold update_outbox_event (mark_all (\<lambda>i. 70 + int i) 0 evs) sample_database \<and>
       b_messages sample_queued = b_messages empty_broker @ map (message_of 5) evs \<and>
       sorted (map (\<lambda>ev. (o_created_at ev, o_id ev)) evs) \<and>
       (\<forall>n. (Inr 1 :: nat outcome) = Inr n \<longrightarrow> n = length evs))"
  using relay_batch_all_or_nothing [OF sample_batch_run]
  by (simp add: sample_relay_def sample_selected)

lemma published_events_are_stored_witness: "published_stored 5 sample_queued sample_published \<and> db_inv sample_published"
proof -
  have "published_stored 5 empty_broker sample_database"
    by (simp add: published_stored_def)
  moreover have "marks_nothing (\<lambda>d. d)" by (auto simp: marks_nothing_def)
  ultimately show ?thesis
    using published_events_are_stored [OF sample_database_inv _ _ sample_turn_run]
    by (simp add: sample_relay_def sample_turn_def)
qed

lemma relay_drains_outbox_witness:
  "\<exists>ms d'. relay_run sample_relay [sample_turn] empty_broker sample_database =
      (Inr (), empty_broker\<lparr>b_messages := b_messages empty_broker @ ms\<rparr>, d') \<and>
    unpublished d' = [] \<and>
    mset ms = image_mset (message_of 5) (mset (unpublished sample_database))"
proof -
  have "1 \<le> rl_batch_size sample_relay" "b_replies empty_broker = []" "rl_timeout_seconds sample_relay = 5"
    "length (unpublished sample_database) \<le> length [sample_turn] * nat (rl_batch_size sample_relay)"
    by (simp_all add: sample_relay_def empty_broker_def sample_unpublished)
  moreover have "\<forall>t \<in> set [sample_turn]. healthy_turn t"
    by (auto simp: healthy_turn_def sample_turn_def)
  ultimately show ?thesis
    using relay_drains_outbox [OF sample_database_inv, of sample_relay empty_broker "[sample_turn]"] by metis
qed

end
