(* ===== verification/Reconciliation.thy ===== *)
theory Reconciliation
  imports Webhook_Processor
begin

text \<open>
  \<open>app/services/payment_reconciliation.py\<close>: resolving payments whose outcome at the provider is
  unknown. The three methods with a session are session programs; \<open>reconcile_one\<close> is the body of
  the loop over the claimed payments and \<open>process_batch\<close> the whole round, given for each payment
  what the clocks, the connections, the provider and the other transactions contribute.
\<close>

record reconciler =
  rc_batch_size :: int
  rc_stale_after_seconds :: seconds
  rc_poll_interval_seconds :: seconds
  rc_lease_seconds :: seconds
  rc_max_attempts :: int

definition PaymentReconciliationWorker ::
  "int \<Rightarrow> seconds \<Rightarrow> seconds \<Rightarrow> seconds \<Rightarrow> int \<Rightarrow> reconciler outcome" where
  "PaymentReconciliationWorker batch_size stale_after poll_interval lease_seconds max_tries =
     (if batch_size < 1 then Inl (ValueError ''batch_size must be at least 1'')
      else if stale_after < 0 then Inl (ValueError ''stale_after_seconds must not be negative'')
      else if poll_interval \<le> 0 then Inl (ValueError ''poll_interval_seconds must be greater than zero'')
      else if lease_seconds \<le> 0 then Inl (ValueError ''lease_seconds must be greater than zero'')
      else if max_tries < 1 then Inl (ValueError ''max_attempts must be at least 1'')
      else Inr \<lparr>rc_batch_size = batch_size, rc_stale_after_seconds = stale_after,
                rc_poll_interval_seconds = poll_interval, rc_lease_seconds = lease_seconds,
                rc_max_attempts = max_tries\<rparr>)"

definition claim_batch :: "reconciler \<Rightarrow> time \<Rightarrow> uuid \<Rightarrow> (uuid \<times> uuid list) tx" where
  "claim_batch worker now lease_token =
     rollback_on_error
       (tx_bind
          (claim_reconciliation_batch (now - timedelta_us (rc_stale_after_seconds worker)) now lease_token
             (now + timedelta_us (rc_lease_seconds worker)) (rc_batch_size worker))
          (\<lambda>payment_ids. tx_bind commit (\<lambda>_. tx_return (lease_token, payment_ids))))"

definition renew_claim :: "reconciler \<Rightarrow> time \<Rightarrow> uuid \<Rightarrow> uuid \<Rightarrow> bool tx" where
  "renew_claim worker now payment_id lease_token =
     rollback_on_error
       (tx_bind (renew_reconciliation_lease payment_id lease_token now (now + timedelta_us (rc_lease_seconds worker)))
          (\<lambda>renewed. if \<not> renewed then tx_bind rollback (\<lambda>_. tx_return False)
             else tx_bind commit (\<lambda>_. tx_return True)))"

text \<open>The lookup through the breaker, on the paths requested so far.\<close>

record lookup_env =
  u_begun :: seconds
  u_ended :: seconds
  u_breaker_others :: "breaker \<Rightarrow> breaker"
  u_answer :: answer

definition lookup_provider ::
  "lookup_env \<Rightarrow> uuid \<Rightarrow> breaker \<Rightarrow> provider_response option outcome \<times> string list \<times> breaker" where
  "lookup_provider env payment_id b =
     (case call (u_begun env) (u_breaker_others env) (u_ended env)
             (\<lambda>i paths. (get_payment_by_idempotency_key (u_answer env), paths @ [lookup_path i]))
             payment_id [] b of
        (r, paths, b') \<Rightarrow>
          (case r of
             Inl CircuitBreakerOpenError \<Rightarrow> (Inr None, paths, b')
           | Inl (Provider_exn _) \<Rightarrow> (Inr None, paths, b')
           | Inl e \<Rightarrow> (Inl e, paths, b')
           | Inr response \<Rightarrow> (Inr response, paths, b')))"

definition unanswered_payment :: "int \<Rightarrow> payment \<Rightarrow> payment" where
  "unanswered_payment max_tries p =
     (let p1 = p\<lparr>p_reconciliation_attempts := p_reconciliation_attempts p + 1\<rparr>;
          p2 = (if p_reconciliation_attempts p1 \<ge> max_tries
                then p1\<lparr>p_requires_manual_review := True\<rparr> else p1)
      in p2\<lparr>p_reconciliation_lease_token := None, p_reconciliation_lease_until := None\<rparr>)"

definition reconciled_payment :: "provider_response \<Rightarrow> time \<Rightarrow> uuid \<Rightarrow> payment \<Rightarrow> payment" where
  "reconciled_payment provider_response processed_at webhook_event_id p =
     p\<lparr>p_status := (if s_status provider_response = APPROVED then SUCCEEDED else FAILED),
       p_provider_payment_id := Some (s_provider_payment_id provider_response),
       p_processed_at := Some processed_at, p_webhook_event_id := Some webhook_event_id,
       p_reconciliation_lease_token := None, p_reconciliation_lease_until := None\<rparr>"

definition persist_resolution ::
  "reconciler \<Rightarrow> time \<Rightarrow> time \<Rightarrow> uuid \<Rightarrow> uuid \<Rightarrow> uuid \<Rightarrow> provider_response option \<Rightarrow> bool tx" where
  "persist_resolution worker now processed_at webhook_event_id payment_id lease_token provider_response =
     rollback_on_error
       (tx_bind (get_claimed_payment_for_update payment_id lease_token now) (\<lambda>payment. case payment of
          None \<Rightarrow> tx_bind rollback (\<lambda>_. tx_return False)
        | Some p \<Rightarrow>
            (case provider_response of
               None \<Rightarrow>
                 tx_bind (flush_payment (unanswered_payment (rc_max_attempts worker) p))
                   (\<lambda>_. tx_bind commit (\<lambda>_. tx_return False))
             | Some response \<Rightarrow>
                 tx_bind
                   (persist_resolution_rows (reconciled_payment response processed_at webhook_event_id p) None
                      (webhook_outbox_event (webhook_envelope webhook_event_id (p_id p) processed_at)))
                   (\<lambda>_. tx_return True))))"

subsection \<open>A round\<close>

record reconcile_env =
  k_others1 :: "database \<Rightarrow> database"
  k_renew_now :: time
  k_renew :: connection
  k_lookup :: lookup_env
  k_others2 :: "database \<Rightarrow> database"
  k_persist_now :: time
  k_processed_at :: time
  k_webhook_event_id :: uuid
  k_persist :: connection

record reconciled =
  rr_result :: "bool outcome"
  rr_paths :: "string list"
  rr_breaker :: breaker
  rr_database :: database

definition reconcile_one :: "reconciler \<Rightarrow> reconcile_env \<Rightarrow> uuid \<Rightarrow> uuid \<Rightarrow> breaker \<Rightarrow> database \<Rightarrow> reconciled" where
  "reconcile_one worker env lease_token payment_id b d =
     (case in_session (renew_claim worker (k_renew_now env) payment_id lease_token) (k_renew env)
             (k_others1 env d) of
        (Inl e, d1) \<Rightarrow> \<lparr>rr_result = Inl e, rr_paths = [], rr_breaker = b, rr_database = d1\<rparr>
      | (Inr False, d1) \<Rightarrow> \<lparr>rr_result = Inr False, rr_paths = [], rr_breaker = b, rr_database = d1\<rparr>
      | (Inr True, d1) \<Rightarrow>
          (case lookup_provider (k_lookup env) payment_id b of
             (Inl e, paths, b') \<Rightarrow>
               \<lparr>rr_result = Inl e, rr_paths = paths, rr_breaker = b', rr_database = k_others2 env d1\<rparr>
           | (Inr response, paths, b') \<Rightarrow>
               (case in_session (persist_resolution worker (k_persist_now env) (k_processed_at env)
                       (k_webhook_event_id env) payment_id lease_token response) (k_persist env)
                       (k_others2 env d1) of
                  (r, d2) \<Rightarrow> \<lparr>rr_result = r, rr_paths = paths, rr_breaker = b', rr_database = d2\<rparr>)))"

text \<open>The loop: an \<open>Exception\<close> is logged and the next payment is taken; a payment that was
  resolved counts.\<close>

fun reconcile_all ::
  "reconciler \<Rightarrow> (uuid \<Rightarrow> reconcile_env) \<Rightarrow> uuid \<Rightarrow> uuid list \<Rightarrow> nat \<Rightarrow> breaker \<Rightarrow> database \<Rightarrow>
     nat outcome \<times> breaker \<times> database" where
  "reconcile_all worker env lease_token [] n b d = (Inr n, b, d)"
| "reconcile_all worker env lease_token (i # ids) n b d =
     (let x = reconcile_one worker (env i) lease_token i b d
      in case rr_result x of
           Inl e \<Rightarrow>
             if is_exception e then reconcile_all worker env lease_token ids n (rr_breaker x) (rr_database x)
             else (Inl e, rr_breaker x, rr_database x)
         | Inr reconciled \<Rightarrow>
             reconcile_all worker env lease_token ids (if reconciled then n + 1 else n)
               (rr_breaker x) (rr_database x))"

definition process_batch ::
  "reconciler \<Rightarrow> time \<Rightarrow> uuid \<Rightarrow> connection \<Rightarrow> (uuid \<Rightarrow> reconcile_env) \<Rightarrow> breaker \<Rightarrow> database \<Rightarrow>
     nat outcome \<times> breaker \<times> database" where
  "process_batch worker now lease_token c env b d =
     (case in_session (claim_batch worker now lease_token) c d of
        (Inl e, d1) \<Rightarrow> (Inl e, b, d1)
      | (Inr (token, payment_ids), d1) \<Rightarrow> reconcile_all worker env token payment_ids 0 b d1)"

subsection \<open>The budget of lookups\<close>

text \<open>No payment has used more than \<open>m\<close> attempts, and one that has used them all waits for a
  manual review. \<open>limited m\<close> are the steps of the lifecycle that keep this.\<close>

definition attempts_limited :: "int \<Rightarrow> database \<Rightarrow> bool" where
  "attempts_limited m d \<longleftrightarrow>
     (\<forall>p \<in> set (payments d). p_reconciliation_attempts p \<le> m \<and>
        (p_reconciliation_attempts p = m \<longrightarrow> p_requires_manual_review p))"

definition limited :: "int \<Rightarrow> database \<Rightarrow> database \<Rightarrow> bool" where
  "limited m d d' \<longleftrightarrow> db_step d d' \<and> (attempts_limited m d \<longrightarrow> attempts_limited m d')"

lemma limited_steps: "(limited m)\<^sup>*\<^sup>* d d' \<Longrightarrow> db_step\<^sup>*\<^sup>* d d'"
  by (rule rtranclp_mono [THEN predicate2D]) (auto simp: limited_def)

lemma limited_attempts: "(limited m)\<^sup>*\<^sup>* d d' \<Longrightarrow> attempts_limited m d \<Longrightarrow> attempts_limited m d'"
  by (induction rule: rtranclp_induct) (auto simp: limited_def)

lemma limited_replace:
  assumes "db_step d d'" and "payments d' = replace_row p_id p' (payments d)" and "p \<in> set (payments d)"
    and "p_reconciliation_attempts p \<le> m \<and> (p_reconciliation_attempts p = m \<longrightarrow> p_requires_manual_review p) \<Longrightarrow>
      p_reconciliation_attempts p' \<le> m \<and> (p_reconciliation_attempts p' = m \<longrightarrow> p_requires_manual_review p')"
  shows "limited m d d'"
  using assms by (auto simp: limited_def attempts_limited_def set_replace_row)

subsection \<open>The transactions\<close>

lemma leased_step:
  assumes p: "p \<in> set (payments d)" "p_status p = UNKNOWN" "\<not> p_requires_manual_review p"
    and p': "p'\<lparr>p_updated_at := now\<rparr> =
      p\<lparr>p_reconciliation_lease_token := Some k, p_reconciliation_lease_until := Some u, p_updated_at := now\<rparr>"
    and d': "d' = d\<lparr>payments := replace_row p_id (p'\<lparr>p_updated_at := now\<rparr>) (payments d)\<rparr>"
  shows "limited m d d'"
proof (rule limited_replace [OF _ _ p(1)])
  show "db_step d d'"
    unfolding d' p' by (rule db_step.change [OF p(1) row_step.leased [OF p(2,3)]])
  show "payments d' = replace_row p_id (p'\<lparr>p_updated_at := now\<rparr>) (payments d)" by (simp add: d')
qed (simp add: p')

text \<open>Exactly the payments under \<open>ids\<close> carry the lease now, are unknown and not up for review; the
  others, and the outbox, are as they were.\<close>

definition leases :: "uuid \<Rightarrow> time \<Rightarrow> uuid set \<Rightarrow> database \<Rightarrow> database \<Rightarrow> bool" where
  "leases k u ids d d' \<longleftrightarrow>
     (\<forall>x \<in> set (payments d'). p_id x \<in> ids \<longrightarrow> p_status x = UNKNOWN \<and> \<not> p_requires_manual_review x \<and>
        p_reconciliation_lease_token x = Some k \<and> p_reconciliation_lease_until x = Some u) \<and>
     (\<forall>x. p_id x \<notin> ids \<longrightarrow> x \<in> set (payments d') \<longleftrightarrow> x \<in> set (payments d)) \<and>
     outbox_events d' = outbox_events d"

lemma leases_trans: "leases k u A d d1 \<Longrightarrow> leases k u B d1 d2 \<Longrightarrow> leases k u (A \<union> B) d d2"
  unfolding leases_def by (intro conjI) (blast, blast, simp)

lemma update_payment_leases:
  assumes c: "constraints_ok d" and p: "p \<in> set (payments d)" "p_status p = UNKNOWN" "\<not> p_requires_manual_review p"
    and upd: "update_payment now (set_lease k u p) d = Inr d'"
  shows "(limited m)\<^sup>*\<^sup>* d d' \<and> leases k u {p_id p} d d'"
proof (cases "set_lease k u p = p")
  case True
  with p c have "find_row p_id (p_id p) (payments d) = Some p"
    by (intro find_row_unique) (simp_all add: constraints_ok_def)
  with upd True have "d' = d" by (simp add: update_payment_def)
  moreover have "p_status x = UNKNOWN \<and> \<not> p_requires_manual_review x \<and>
      p_reconciliation_lease_token x = Some k \<and> p_reconciliation_lease_until x = Some u" if "x \<in> set (payments d)" "p_id x = p_id p" for x
  proof -
    have "x = set_lease k u p" using same_payment [OF c that(1) p(1) that(2)] True by simp
    with p(2,3) show ?thesis by (simp add: set_lease_def)
  qed
  ultimately show ?thesis by (auto simp: leases_def)
next
  case False
  have id: "p_id (set_lease k u p) = p_id p" by (simp add: set_lease_def)
  have d': "d' = d\<lparr>payments := replace_row p_id (set_lease k u p\<lparr>p_updated_at := now\<rparr>) (payments d)\<rparr>"
    using upd update_payment_changed [OF c p(1) id False] by (auto split: if_splits)
  have "limited m d d'" by (rule leased_step [OF p _ d']) (simp add: set_lease_def)
  then show ?thesis by (auto simp: d' set_replace_row set_lease_def leases_def p(2,3))
qed

lemma update_payments_leased:
  assumes "constraints_ok d" and "distinct (map p_id ps)"
    and "\<forall>p \<in> set ps. p \<in> set (payments d) \<and> p_status p = UNKNOWN \<and> \<not> p_requires_manual_review p"
    and "update_payments now (map (set_lease k u) ps) d = Inr d'"
  shows "(limited m)\<^sup>*\<^sup>* d d' \<and> leases k u (p_id ` set ps) d d'"
  using assms
proof (induction ps arbitrary: d)
  case (Cons p ps)
  from Cons.prems(4) obtain d1 where d1: "update_payment now (set_lease k u p) d = Inr d1"
    and rest: "update_payments now (map (set_lease k u) ps) d1 = Inr d'"
    by (auto split: sum.splits)
  have one: "(limited m)\<^sup>*\<^sup>* d d1 \<and> leases k u {p_id p} d d1"
    using Cons.prems(3) by (intro update_payment_leases [OF Cons.prems(1) _ _ _ d1]) simp_all
  have "q \<in> set (payments d1)" if "q \<in> set ps" for q
  proof -
    from that have "p_id q \<noteq> p_id p" "q \<in> set (payments d)" using Cons.prems(2,3) by (auto simp: image_iff)
    with one show ?thesis by (simp add: leases_def)
  qed
  then have "(limited m)\<^sup>*\<^sup>* d1 d' \<and> leases k u (p_id ` set ps) d1 d'"
    using Cons.prems(2,3) by (intro Cons.IH [OF constraints_update_payment [OF Cons.prems(1) d1] _ _ rest]) simp_all
  with one leases_trans show ?case by (fastforce intro: rtranclp_trans)
qed (simp add: leases_def)

lemma claimable_props: "claimable a b p \<Longrightarrow> p_status p = UNKNOWN \<and> \<not> p_requires_manual_review p"
  by (simp add: claimable_def)

text \<open>A claim leaves the database as it was, or leases exactly the payments it selected.\<close>

definition claim_left :: "int \<Rightarrow> uuid \<Rightarrow> time \<Rightarrow> payment list \<Rightarrow> database \<Rightarrow> (uuid \<times> uuid list) outcome \<Rightarrow> database \<Rightarrow> bool" where
  "claim_left m k u ps d r d' \<longleftrightarrow>
     (limited m)\<^sup>*\<^sup>* d d' \<and> (d' = d \<or> leases k u (p_id ` set ps) d d') \<and>
     (\<forall>x. r = Inr x \<longrightarrow> x = (k, map p_id ps) \<and> leases k u (p_id ` set ps) d d')"

lemma claim_batch_left:
  assumes inv: "db_inv d" and run: "in_session (claim_batch w now k) c d = (r, d')"
  shows "claim_left m k (now + timedelta_us (rc_lease_seconds w))
    (select_claimable (now - timedelta_us (rc_stale_after_seconds w)) now (rc_batch_size w) (conn_locked c) d) d r d'"
proof -
  have c: "constraints_ok d" using inv by (simp add: db_inv_def)
  let ?u = "now + timedelta_us (rc_lease_seconds w)"
  let ?ps = "select_claimable (now - timedelta_us (rc_stale_after_seconds w)) now (rc_batch_size w) (conn_locked c) d"
  let ?P = "claim_left m k ?u ?ps d"
  have ps: "distinct (map p_id ?ps)"
    "\<forall>p \<in> set ?ps. p \<in> set (payments d) \<and> p_status p = UNKNOWN \<and> \<not> p_requires_manual_review p"
    using c select_claimable_props(1,2) claimable_props
    by (auto simp: select_claimable_def constraints_ok_def intro!: distinct_select_rows) blast+
  have "wp (claim_batch w now k) (\<lambda>x s. ?P (Inr x) (committed s)) (\<lambda>e s. ?P (Inl e) (committed s))
      (begin_session d c)"
    unfolding claim_batch_def claim_reconciliation_batch_def flush_payments_def tx_simps
    by (intro wp_intros)
      (auto simp: claim_left_def split: sum.splits dest!: update_payments_leased [OF c ps])
  from in_session_cases [OF run, where P = ?P, OF this] show ?thesis .
qed

text \<open>A renewal changes nothing, or moves the end of a lease that is held.\<close>

definition renewed_row :: "time \<Rightarrow> time \<Rightarrow> payment \<Rightarrow> database \<Rightarrow> database" where
  "renewed_row u now p d =
     d\<lparr>payments := replace_row p_id (p\<lparr>p_reconciliation_lease_until := Some u, p_updated_at := now\<rparr>) (payments d)\<rparr>"

definition renew_left :: "int \<Rightarrow> uuid \<Rightarrow> uuid \<Rightarrow> time \<Rightarrow> time \<Rightarrow> time \<Rightarrow> database \<Rightarrow> bool outcome \<Rightarrow> database \<Rightarrow> bool" where
  "renew_left m i k now u t d r d' \<longleftrightarrow>
     (d' = d \<and> r \<noteq> Inr True \<and>
        (r = Inr False \<longrightarrow> (\<forall>p \<in> set (payments d). \<not> lease_held i k now p))) \<or>
     (\<exists>p \<in> set (payments d). lease_held i k now p \<and> d' = renewed_row u t p d \<and> limited m d d' \<and> r \<noteq> Inr False)"

lemma map_one_row:
  assumes "distinct (map key rows)" and "p \<in> set rows" and "P p" and "\<And>q. q \<in> set rows \<Longrightarrow> P q \<Longrightarrow> key q = key p"
    and "key (f p) = key p"
  shows "map (\<lambda>q. if P q then f q else q) rows = replace_row key (f p) rows"
proof -
  have "(if P q then f q else q) = (if key q = key (f p) then f p else q)" if "q \<in> set rows" for q
  proof (cases "key q = key p")
    case True
    with assms(1,2) that have "q = p" using inj_onD [of key "set rows" q p] by (simp add: distinct_map)
    with assms(3,5) show ?thesis by simp
  next
    case False
    with assms(4,5) that show ?thesis by auto
  qed
  then show ?thesis by (simp add: replace_row_def)
qed

lemma renew_step:
  assumes c: "constraints_ok d" and p: "p \<in> set (payments d)" "lease_held i k now p"
  shows "d\<lparr>payments := map (\<lambda>q. if lease_held i k now q
      then q\<lparr>p_reconciliation_lease_until := Some u, p_updated_at := t\<rparr> else q) (payments d)\<rparr> =
    renewed_row u t p d"
    and "limited m d (renewed_row u t p d)"
proof -
  show "d\<lparr>payments := map (\<lambda>q. if lease_held i k now q
      then q\<lparr>p_reconciliation_lease_until := Some u, p_updated_at := t\<rparr> else q) (payments d)\<rparr> =
    renewed_row u t p d"
    unfolding renewed_row_def
    using c p map_one_row [of p_id "payments d" p "lease_held i k now"
        "\<lambda>q. q\<lparr>p_reconciliation_lease_until := Some u, p_updated_at := t\<rparr>"]
    by (simp add: constraints_ok_def lease_held_def)
  have "p\<lparr>p_reconciliation_lease_until := Some u, p_updated_at := t\<rparr> =
      p\<lparr>p_reconciliation_lease_token := Some k, p_reconciliation_lease_until := Some u, p_updated_at := t\<rparr>"
    using p(2) by (simp add: lease_held_def)
  then show "limited m d (renewed_row u t p d)"
    using p lease_held_props [OF p(2)]
    by (intro leased_step [where p = p and k = k and u = u and now = t
          and p' = "p\<lparr>p_reconciliation_lease_until := Some u\<rparr>"]) (simp_all add: renewed_row_def)
qed

lemma renew_claim_left:
  assumes inv: "db_inv d" and run: "in_session (renew_claim w now i k) c d = (r, d')"
  shows "renew_left m i k now (now + timedelta_us (rc_lease_seconds w)) (conn_now c) d r d'"
proof -
  have c: "constraints_ok d" using inv by (simp add: db_inv_def)
  let ?u = "now + timedelta_us (rc_lease_seconds w)"
  let ?P = "renew_left m i k now ?u (conn_now c) d"
  have none: "\<forall>p \<in> set (payments d). \<not> lease_held i k now p"
    if "scalar_one_or_none (filter (lease_held i k now) (payments d)) = Inr None"
    using that by (simp add: scalar_one_or_none_None filter_empty_conv)
  have some: "\<exists>p \<in> set (payments d). lease_held i k now p \<and>
      d\<lparr>payments := map (\<lambda>q. if lease_held i k now q
        then q\<lparr>p_reconciliation_lease_until := Some ?u, p_updated_at := conn_now c\<rparr> else q) (payments d)\<rparr> =
      renewed_row ?u (conn_now c) p d \<and> limited m d (renewed_row ?u (conn_now c) p d)"
    if "scalar_one_or_none (filter (lease_held i k now) (payments d)) = Inr (Some p)" for p
  proof -
    have p: "p \<in> set (payments d)" "lease_held i k now p" using scalar_filter_SomeD [OF that] by simp_all
    show ?thesis
      by (rule bexI [OF _ p(1)]) (intro conjI p(2) renew_step [OF c p])
  qed
  have "wp (renew_claim w now i k) (\<lambda>x s. ?P (Inr x) (committed s)) (\<lambda>e s. ?P (Inl e) (committed s))
      (begin_session d c)"
    unfolding renew_claim_def renew_reconciliation_lease_def wp_rollback_on_error wp_bind
  proof (rule wp_statementI, goal_cases)
    case (2 x d1 rs)
    then obtain q where q: "scalar_one_or_none (filter (lease_held i k now) (payments d)) = Inr q" "x = (q \<noteq> None)"
      "d1 = d\<lparr>payments := map (\<lambda>q. if lease_held i k now q
        then q\<lparr>p_reconciliation_lease_until := Some ?u, p_updated_at := conn_now c\<rparr> else q) (payments d)\<rparr>"
      by (auto split: sum.splits)
    show ?case
    proof (cases q)
      case None
      with q none show ?thesis by (simp add: tx_simps renew_left_def)
    next
      case (Some p)
      with q some [of p] show ?thesis
        by (auto simp: tx_simps renew_left_def intro!: wp_commitI)
    qed
  qed (auto simp: renew_left_def)
  from in_session_cases [OF run, where P = ?P, OF this] show ?thesis .
qed

text \<open>Persisting changes nothing, or it makes the one change that the lookup's answer asks for, to
  a payment whose lease is held.\<close>

definition persisted ::
  "reconciler \<Rightarrow> time \<Rightarrow> uuid \<Rightarrow> time \<Rightarrow> provider_response option \<Rightarrow> payment \<Rightarrow> database \<Rightarrow> database" where
  "persisted w processed_at event_id t response p d =
     (case response of
        None \<Rightarrow>
          d\<lparr>payments := replace_row p_id
             (unanswered_payment (rc_max_attempts w) p\<lparr>p_updated_at := t\<rparr>) (payments d)\<rparr>
      | Some r \<Rightarrow>
          with_resolution (reconciled_payment r processed_at event_id p\<lparr>p_updated_at := t\<rparr>)
            (created t None (webhook_outbox_event (webhook_envelope event_id (p_id p) processed_at))) d)"

definition persist_left ::
  "int \<Rightarrow> (payment \<Rightarrow> database \<Rightarrow> database) \<Rightarrow> provider_response option \<Rightarrow> uuid \<Rightarrow> uuid \<Rightarrow> time \<Rightarrow> database \<Rightarrow>
     bool outcome \<Rightarrow> database \<Rightarrow> bool" where
  "persist_left m change response i k now d r d' \<longleftrightarrow>
     (d' = d \<and> r \<noteq> Inr True \<and> (r = Inr False \<longrightarrow> (\<forall>p \<in> set (payments d). \<not> lease_held i k now p))) \<or>
     (\<exists>p \<in> set (payments d). lease_held i k now p \<and> d' = change p d \<and> limited m d d' \<and>
        (\<forall>x. r = Inr x \<longrightarrow> x = (response \<noteq> None)))"

lemma unanswered_step:
  assumes "p_status p = UNKNOWN" and "\<not> p_requires_manual_review p"
  shows "row_step p (unanswered_payment m p\<lparr>p_updated_at := t\<rparr>)"
proof -
  have "unanswered_payment m p\<lparr>p_updated_at := t\<rparr> =
    p\<lparr>p_reconciliation_attempts := p_reconciliation_attempts p + 1,
      p_requires_manual_review := p_reconciliation_attempts p + 1 \<ge> m,
      p_reconciliation_lease_token := None, p_reconciliation_lease_until := None, p_updated_at := t\<rparr>"
    using assms(2) by (cases p) (auto simp: unanswered_payment_def Let_def)
  then show ?thesis using row_step.unanswered [OF assms] by simp
qed

lemma unanswered_simps [simp]:
  "p_id (unanswered_payment m p) = p_id p"
  "p_reconciliation_attempts (unanswered_payment m p) = p_reconciliation_attempts p + 1"
  "p_requires_manual_review (unanswered_payment m p) \<longleftrightarrow>
     p_requires_manual_review p \<or> p_reconciliation_attempts p + 1 \<ge> m"
  "p_status (unanswered_payment m p) = p_status p"
  by (simp_all add: unanswered_payment_def Let_def)

lemma unanswered_limited:
  assumes "p \<in> set (payments d)" and "lease_held i k now p" and "1 \<le> rc_max_attempts w"
    and "db_step d (persisted w a e t None p d)"
  shows "limited (rc_max_attempts w) d (persisted w a e t None p d)"
  by (rule limited_replace [OF assms(4) _ assms(1)])
    (use lease_held_props [OF assms(2)] in \<open>auto simp: persisted_def\<close>)

lemma reconciled_allowed:
  assumes "lease_held i k now p"
  shows "resolution_allowed p (reconciled_payment r t w p) w"
proof -
  have "reconciled_payment r t w p\<lparr>p_updated_at := u\<rparr> =
      resolved (status_for (s_status r)) (s_provider_payment_id r) t w u p" for u
    by (simp add: reconciled_payment_def resolved_def status_for_def)
  moreover have "terminal (status_for (s_status r))" by simp
  ultimately show ?thesis using lease_held_props [OF assms] unfolding resolution_allowed_def by blast
qed

lemma reconciled_limited:
  assumes "p \<in> set (payments d)" and "db_step d (persisted w a e t (Some r) p d)"
  shows "limited m d (persisted w a e t (Some r) p d)"
  by (rule limited_replace [OF assms(2) _ assms(1), where p' = "reconciled_payment r a e p\<lparr>p_updated_at := t\<rparr>"])
    (simp_all add: persisted_def with_resolution_def reconciled_payment_def)

text \<open>The two branches of the transaction, once the row has been read.\<close>

lemma wp_unanswered:
  assumes inv: "db_inv d" and p: "p \<in> set (payments d)" "lease_held i k now p" and m: "1 \<le> rc_max_attempts w"
    and s: "committed s = d" "working s = d" "tx_now s = t"
    and P: "\<And>r d'. persist_left (rc_max_attempts w) (persisted w a e t None) None i k now d r d' \<Longrightarrow> P r d'"
  shows "wp (tx_bind (flush_payment (unanswered_payment (rc_max_attempts w) p)) (\<lambda>_. tx_bind commit (\<lambda>_. tx_return False)))
    (\<lambda>x s'. P (Inr x) (committed s')) (\<lambda>x s'. P (Inl x) (committed s')) s"
proof -
  have c: "constraints_ok (committed s)" using inv s by (simp add: db_inv_def)
  have "wp (tx_bind (flush_payment (unanswered_payment (rc_max_attempts w) p)) (\<lambda>_. commit))
    (\<lambda>_ s'. P (Inr False) (committed s')) (\<lambda>x s'. P (Inl x) (committed s')) s"
  proof (rule wp_flush_commit [OF c, where p = p and res = "persisted w a e t None p d"])
    show "unanswered_payment (rc_max_attempts w) p \<noteq> p"
      by (rule notI, drule arg_cong [of _ _ p_reconciliation_attempts]) simp
    show "row_step p (unanswered_payment (rc_max_attempts w) p\<lparr>p_updated_at := u\<rparr>)" for u
      using unanswered_step lease_held_props [OF p(2)] by blast
    show "P (Inl x) (committed s')" if "committed s' = committed s" for x s'
      using that s by (intro P) (simp add: persist_left_def)
    show "(\<forall>x. P (Inl x) (committed s')) \<and> P (Inr False) (committed s')"
      if "db_step (committed s) (persisted w a e t None p d)" "committed s' = persisted w a e t None p d" for s'
      using that s p unanswered_limited [OF p m] by (auto intro!: P simp: persist_left_def)
  qed (use s p in \<open>simp_all add: persisted_def\<close>)
  then show ?thesis by (simp add: tx_simps)
qed

lemma wp_reconciled:
  assumes inv: "db_inv d" and p: "p \<in> set (payments d)" "lease_held i k now p"
    and s: "committed s = d" "working s = d" "tx_now s = t"
    and P: "\<And>r' d'. persist_left m (persisted w a e t (Some r)) (Some r) i k now d r' d' \<Longrightarrow> P r' d'"
  shows "wp (tx_bind (persist_resolution_rows (reconciled_payment r a e p) None
      (webhook_outbox_event (webhook_envelope e (p_id p) a))) (\<lambda>_. tx_return True))
    (\<lambda>x s'. P (Inr x) (committed s')) (\<lambda>x s'. P (Inl x) (committed s')) s"
proof -
  have c: "constraints_ok (committed s)" using inv s by (simp add: db_inv_def)
  have "wp (persist_resolution_rows (reconciled_payment r a e p) None
      (webhook_outbox_event (webhook_envelope e (p_id p) a)))
    (\<lambda>_ s'. P (Inr True) (committed s')) (\<lambda>x s'. P (Inl x) (committed s')) s"
  proof (rule wp_persist [OF c, where p = p and res = "persisted w a e t (Some r) p d"])
    show "P (Inl x) (committed s')" if "committed s' = committed s" for x s'
      using that s by (intro P) (simp add: persist_left_def)
    show "(\<forall>x. P (Inl x) (committed s')) \<and> P (Inr True) (committed s')"
      if "db_step (committed s) (persisted w a e t (Some r) p d)" "committed s' = persisted w a e t (Some r) p d" for s'
      using that s p reconciled_limited [OF p(1)] by (auto intro!: P simp: persist_left_def)
  qed (use s p reconciled_allowed [OF p(2)] in \<open>simp_all add: persisted_def webhook_event_new\<close>)
  then show ?thesis by (simp add: tx_simps)
qed

lemma persist_resolution_left:
  assumes inv: "db_inv d" and m: "1 \<le> rc_max_attempts w"
    and run: "in_session (persist_resolution w now a e i k response) c d = (r, d')"
  shows "persist_left (rc_max_attempts w) (persisted w a e (conn_now c) response) response i k now d r d'"
proof -
  let ?P = "persist_left (rc_max_attempts w) (persisted w a e (conn_now c) response) response i k now d"
  have "wp (persist_resolution w now a e i k response) (\<lambda>x s. ?P (Inr x) (committed s))
      (\<lambda>x s. ?P (Inl x) (committed s)) (begin_session d c)"
    unfolding persist_resolution_def get_claimed_payment_for_update_def wp_rollback_on_error wp_bind
  proof (rule wp_select_payment, goal_cases)
    case (2 q rs)
    show ?case
    proof (cases q)
      case None
      with 2 show ?thesis
        by (auto simp: tx_simps persist_left_def scalar_one_or_none_None filter_empty_conv)
    next
      case (Some p)
      with 2 have p: "p \<in> set (payments d)" "lease_held i k now p" by (auto dest: scalar_filter_SomeD)
      have E: "(\<lambda>x s'. ?P (Inl x) (committed (if is_exception x then s'\<lparr>working := committed s'\<rparr> else s'))) =
          (\<lambda>x s'. ?P (Inl x) (committed s'))" by auto
      show ?thesis
        unfolding Some option.case E
        by (cases response)
          (auto intro!: wp_unanswered [OF inv p m] wp_reconciled [OF inv p, where w = w and m = "rc_max_attempts w"])
    qed
  qed (simp add: persist_left_def)
  from in_session_cases [OF run, where P = ?P, OF this] show ?thesis .
qed

subsection \<open>A round is made of steps\<close>

text \<open>The steps between the lifecycle's and the limited ones: \<open>rel\<close> is either, so that one proof
  serves the invariant and the budget.\<close>

definition between :: "int \<Rightarrow> (database \<Rightarrow> database \<Rightarrow> bool) \<Rightarrow> bool" where
  "between m rel \<longleftrightarrow> (\<forall>d d'. limited m d d' \<longrightarrow> rel d d') \<and> (\<forall>d d'. rel d d' \<longrightarrow> db_step d d')"

lemma between_db_step: "between m db_step" and between_limited: "between m (limited m)"
  by (simp_all add: between_def limited_def)

lemma between_steps: "between m rel \<Longrightarrow> (limited m)\<^sup>*\<^sup>* d d' \<Longrightarrow> rel\<^sup>*\<^sup>* d d'"
  by (rule rtranclp_mono [THEN predicate2D]) (auto simp: between_def)

lemma between_inv: "between m rel \<Longrightarrow> rel\<^sup>*\<^sup>* d d' \<Longrightarrow> db_inv d \<Longrightarrow> db_inv d'"
proof (rule db_steps_inv)
  show "between m rel \<Longrightarrow> rel\<^sup>*\<^sup>* d d' \<Longrightarrow> db_step\<^sup>*\<^sup>* d d'"
    by (rule rtranclp_mono [THEN predicate2D]) (auto simp: between_def)
qed

definition moves_by :: "(database \<Rightarrow> database \<Rightarrow> bool) \<Rightarrow> (database \<Rightarrow> database) \<Rightarrow> bool" where
  "moves_by rel f \<longleftrightarrow> (\<forall>d. db_inv d \<longrightarrow> rel\<^sup>*\<^sup>* d (f d))"

definition env_moves_by :: "(database \<Rightarrow> database \<Rightarrow> bool) \<Rightarrow> reconcile_env \<Rightarrow> bool" where
  "env_moves_by rel env \<longleftrightarrow> moves_by rel (k_others1 env) \<and> moves_by rel (k_others2 env)"

lemma moves_by_db_step: "moves_by db_step f \<longleftrightarrow> others_ok f"
  by (simp add: moves_by_def others_ok_def)

lemma renew_steps: "db_inv d \<Longrightarrow> in_session (renew_claim w now i k) c d = (r, d') \<Longrightarrow> (limited m)\<^sup>*\<^sup>* d d'"
  using renew_claim_left [of d w now i k c r d' m] by (auto simp: renew_left_def)

lemma persist_steps:
  "db_inv d \<Longrightarrow> 1 \<le> rc_max_attempts w \<Longrightarrow>
     in_session (persist_resolution w now a e i k response) c d = (r, d') \<Longrightarrow>
     (limited (rc_max_attempts w))\<^sup>*\<^sup>* d d'"
  using persist_resolution_left [of d w now a e i k response c r d'] by (auto simp: persist_left_def)

lemma reconcile_one_cases:
  obtains
    (not_renewed) r d1 where "in_session (renew_claim w (k_renew_now env) i k) (k_renew env) (k_others1 env d) = (r, d1)"
      "r \<noteq> Inr True" "reconcile_one w env k i b d = \<lparr>rr_result = r, rr_paths = [], rr_breaker = b, rr_database = d1\<rparr>"
  | (no_lookup) d1 e paths b' where
      "in_session (renew_claim w (k_renew_now env) i k) (k_renew env) (k_others1 env d) = (Inr True, d1)"
      "lookup_provider (k_lookup env) i b = (Inl e, paths, b')"
      "reconcile_one w env k i b d =
         \<lparr>rr_result = Inl e, rr_paths = paths, rr_breaker = b', rr_database = k_others2 env d1\<rparr>"
  | (looked_up) d1 response paths b' r d2 where
      "in_session (renew_claim w (k_renew_now env) i k) (k_renew env) (k_others1 env d) = (Inr True, d1)"
      "lookup_provider (k_lookup env) i b = (Inr response, paths, b')"
      "in_session (persist_resolution w (k_persist_now env) (k_processed_at env) (k_webhook_event_id env) i k response)
         (k_persist env) (k_others2 env d1) = (r, d2)"
      "reconcile_one w env k i b d = \<lparr>rr_result = r, rr_paths = paths, rr_breaker = b', rr_database = d2\<rparr>"
proof -
  obtain r d1 where renew: "in_session (renew_claim w (k_renew_now env) i k) (k_renew env) (k_others1 env d) = (r, d1)"
    by (cases "in_session (renew_claim w (k_renew_now env) i k) (k_renew env) (k_others1 env d)")
  obtain x paths b' where lookup: "lookup_provider (k_lookup env) i b = (x, paths, b')"
    by (cases "lookup_provider (k_lookup env) i b")
  show thesis
  proof (cases "r = Inr True")
    case False
    with renew show ?thesis
      by (intro not_renewed [OF renew]) (auto simp: reconcile_one_def split: sum.split bool.split)
  next
    case True
    show ?thesis
    proof (cases x)
      case (Inl e)
      with True renew lookup show ?thesis by (intro no_lookup) (simp_all add: reconcile_one_def)
    next
      case (Inr response)
      obtain r2 d2 where "in_session (persist_resolution w (k_persist_now env) (k_processed_at env)
          (k_webhook_event_id env) i k response) (k_persist env) (k_others2 env d1) = (r2, d2)"
        by (cases "in_session (persist_resolution w (k_persist_now env) (k_processed_at env)
          (k_webhook_event_id env) i k response) (k_persist env) (k_others2 env d1)")
      with True Inr renew lookup show ?thesis by (intro looked_up) (simp_all add: reconcile_one_def)
    qed
  qed
qed

lemma reconcile_one_steps:
  assumes rel: "between (rc_max_attempts w) rel" and inv: "db_inv d" and m: "1 \<le> rc_max_attempts w"
    and env: "env_moves_by rel env"
  shows "rel\<^sup>*\<^sup>* d (rr_database (reconcile_one w env k i b d))"
proof -
  have first: "rel\<^sup>*\<^sup>* d d1 \<and> db_inv d1"
    if "in_session (renew_claim w (k_renew_now env) i k) (k_renew env) (k_others1 env d) = (r, d1)" for r d1
  proof -
    have o1: "rel\<^sup>*\<^sup>* d (k_others1 env d)" using env inv by (simp add: env_moves_by_def moves_by_def)
    note inv1 = between_inv [OF rel o1 inv]
    have "rel\<^sup>*\<^sup>* (k_others1 env d) d1" by (rule between_steps [OF rel renew_steps [OF inv1 that]])
    with o1 inv1 between_inv [OF rel] show ?thesis by (meson rtranclp_trans)
  qed
  have second: "rel\<^sup>*\<^sup>* d1 (k_others2 env d1)" if "db_inv d1" for d1
    using env that by (simp add: env_moves_by_def moves_by_def)
  show ?thesis
  proof (cases rule: reconcile_one_cases [where w = w and env = env and i = i and k = k and b = b and d = d])
    case (not_renewed r d1)
    with first show ?thesis by simp
  next
    case (no_lookup d1 e paths b')
    with first second show ?thesis by (auto intro: rtranclp_trans)
  next
    case (looked_up d1 response paths b' r d2)
    note f = first [OF looked_up(1)]
    have inv2: "db_inv (k_others2 env d1)" using f second between_inv [OF rel] by blast
    have "rel\<^sup>*\<^sup>* (k_others2 env d1) d2" by (rule between_steps [OF rel persist_steps [OF inv2 m looked_up(3)]])
    with f second [of d1] looked_up(4) show ?thesis by (auto intro: rtranclp_trans)
  qed
qed

lemma reconcile_all_steps:
  assumes rel: "between (rc_max_attempts w) rel" and m: "1 \<le> rc_max_attempts w"
    and env: "\<And>i. env_moves_by rel (env i)" and inv: "db_inv d"
  shows "rel\<^sup>*\<^sup>* d (snd (snd (reconcile_all w env k ids n b d)))"
  using inv
proof (induction ids arbitrary: n b d)
  case (Cons i ids)
  let ?x = "reconcile_one w (env i) k i b d"
  have one: "rel\<^sup>*\<^sup>* d (rr_database ?x)" by (rule reconcile_one_steps [OF rel Cons.prems m env])
  then have "db_inv (rr_database ?x)" using between_inv [OF rel] Cons.prems by blast
  from Cons.IH [OF this] one show ?case
    by (auto simp: Let_def split: sum.split intro: rtranclp_trans)
qed simp

lemma process_batch_steps:
  assumes rel: "between (rc_max_attempts w) rel" and m: "1 \<le> rc_max_attempts w"
    and env: "\<And>i. env_moves_by rel (env i)" and inv: "db_inv d"
  shows "rel\<^sup>*\<^sup>* d (snd (snd (process_batch w now k c env b d)))"
proof -
  obtain r d1 where claim: "in_session (claim_batch w now k) c d = (r, d1)"
    by (cases "in_session (claim_batch w now k) c d")
  have "rel\<^sup>*\<^sup>* d d1"
    using claim_batch_left [OF inv claim, of "rc_max_attempts w"] between_steps [OF rel]
    by (simp add: claim_left_def)
  moreover from this have "db_inv d1" using between_inv [OF rel] inv by blast
  ultimately show ?thesis
    using claim rtranclp_trans [OF _ reconcile_all_steps [OF rel m env]]
    by (cases r) (auto simp: process_batch_def)
qed

subsection \<open>The contract, and what rests on it\<close>

definition round_run ::
  "reconciler \<times> time \<times> uuid \<times> (uuid \<Rightarrow> reconcile_env) \<times> breaker \<Rightarrow> connection \<Rightarrow> database \<Rightarrow> nat outcome \<times> database" where
  "round_run = (\<lambda>(w, now, k, env, b) c d.
     (fst (process_batch w now k c env b d), snd (snd (process_batch w now k c env b d))))"

definition round_admissible :: "reconciler \<times> time \<times> uuid \<times> (uuid \<Rightarrow> reconcile_env) \<times> breaker \<Rightarrow> bool" where
  "round_admissible = (\<lambda>(w, now, k, env, b).
     1 \<le> rc_max_attempts w \<and> (\<forall>i. others_ok (k_others1 (env i)) \<and> others_ok (k_others2 (env i))))"

interpretation reconciliation: transaction round_run round_admissible
proof
  fix d :: database and a :: "reconciler \<times> time \<times> uuid \<times> (uuid \<Rightarrow> reconcile_env) \<times> breaker" and c
  assume inv: "db_inv d" and adm: "round_admissible a"
  obtain w now k env b where a: "a = (w, now, k, env, b)" by (cases a)
  have "env_moves_by db_step (env i)" for i
    using adm by (simp add: a round_admissible_def env_moves_by_def moves_by_db_step)
  moreover have "1 \<le> rc_max_attempts w" using adm by (simp add: a round_admissible_def)
  ultimately show "db_step\<^sup>*\<^sup>* d (snd (round_run a c d))"
    using process_batch_steps [OF between_db_step _ _ inv] by (simp add: a round_run_def)
qed

lemma worker_attempts: "PaymentReconciliationWorker n s p l m = Inr w \<Longrightarrow> 1 \<le> rc_max_attempts w"
  by (auto simp: PaymentReconciliationWorker_def split: if_splits)

text \<open>A round of reconciliation, with any faults and any other transactions in between, keeps
  the invariant and the history of the database.\<close>

theorem reconciliation_keeps_lifecycle:
  assumes "PaymentReconciliationWorker n s p l m = Inr w" and "db_inv d"
    and "\<forall>i. others_ok (k_others1 (env i)) \<and> others_ok (k_others2 (env i))"
  shows "db_inv (snd (snd (process_batch w now k c env b d))) \<and>
    history_le d (snd (snd (process_batch w now k c env b d)))"
  using reconciliation.keeps_invariant [OF assms(2), of "(w, now, k, env, b)" c]
    reconciliation.keeps_history [OF assms(2), of "(w, now, k, env, b)" c] assms(3) worker_attempts [OF assms(1)]
  by (simp add: round_run_def round_admissible_def)

text \<open>C24. The budget: as long as every worker keeps to \<open>max_attempts\<close>, no payment ever has more
  unanswered attempts than that, and one that has used them all is up for manual review, where no
  claim will pick it up again.\<close>

theorem lookups_are_bounded:
  assumes "PaymentReconciliationWorker n s p l m = Inr w" and "db_inv d" and "attempts_limited (rc_max_attempts w) d"
    and "\<forall>i. env_moves_by (limited (rc_max_attempts w)) (env i)"
  shows "attempts_limited (rc_max_attempts w) (snd (snd (process_batch w now k c env b d))) \<and>
    (\<forall>q \<in> set (payments (snd (snd (process_batch w now k c env b d)))).
       p_reconciliation_attempts q = rc_max_attempts w \<longrightarrow> \<not> claimable t t' q)"
proof -
  have "(limited (rc_max_attempts w))\<^sup>*\<^sup>* d (snd (snd (process_batch w now k c env b d)))"
    by (rule process_batch_steps [OF between_limited worker_attempts [OF assms(1)] _ assms(2)])
      (use assms(4) in simp)
  from limited_attempts [OF this assms(3)] show ?thesis
    by (auto simp: attempts_limited_def claimable_def)
qed


text \<open>A worker that has lost its lease, to time or to another worker, writes nothing: neither
  renewing nor persisting changes the database, and no lookup is made.\<close>

theorem stale_lease_writes_nothing:
  assumes "db_inv d" and "1 \<le> rc_max_attempts w"
    and "\<forall>q \<in> set (payments d). p_id q = i \<longrightarrow>
      p_reconciliation_lease_token q \<noteq> Some k \<or>
      (\<forall>u. p_reconciliation_lease_until q = Some u \<longrightarrow> u \<le> now)"
  shows "snd (in_session (persist_resolution w now a e i k response) c d) = d \<and>
    snd (in_session (renew_claim w now i k) c d) = d \<and>
    (k_others1 env = (\<lambda>d. d) \<and> k_renew_now env = now \<longrightarrow> rr_paths (reconcile_one w env k i b d) = [])"
proof -
  have none: "\<not> lease_held i k now q" if "q \<in> set (payments d)" for q
    using assms(3) that by (auto simp: lease_held_def split: option.splits)
  have "snd (in_session (persist_resolution w now a e i k response) c d) = d"
    by (cases "in_session (persist_resolution w now a e i k response) c d")
      (use persist_resolution_left [OF assms(1,2)] none in \<open>fastforce simp: persist_left_def\<close>)
  moreover have renew: "d1 = d \<and> r \<noteq> Inr True" if "in_session (renew_claim w now i k) c' d = (r, d1)" for c' r d1
    using renew_claim_left [OF assms(1) that, of 1] none by (auto simp: renew_left_def)
  moreover have "rr_paths (reconcile_one w env k i b d) = []"
    if "k_others1 env = (\<lambda>d. d)" "k_renew_now env = now"
    by (cases rule: reconcile_one_cases [where w = w and env = env and i = i and k = k and b = b and d = d])
      (use that renew in fastforce)+
  ultimately show ?thesis by (metis prod.collapse)
qed

lemma lookup_response:
  assumes "lookup_provider env i b = (Inr (Some response), paths, b')"
  shows "paths = [lookup_path i] \<and> get_payment_by_idempotency_key (u_answer env) = Inr (Some response)"
  using assms
  by (auto simp: lookup_provider_def call_def split: prod.splits sum.splits exn.splits)

lemma lookup_answer:
  assumes "get_payment_by_idempotency_key answer = Inr (Some response)"
  shows "\<exists>x. answer = Responded x \<and> 200 \<le> x_status_code x \<and> x_status_code x < 300 \<and>
    Option.bind (x_json x) provider_response_validate = Some response"
  using assms
  by (cases answer) (auto simp: get_payment_by_idempotency_key_def Let_def split: if_splits option.splits)

lemma reconciled_agrees:
  assumes "db_inv d" and "1 \<le> rc_max_attempts w" and "env_moves_by db_step env"
    and "rr_result (reconcile_one w env k i b d) = Inr True"
  shows "\<exists>x response. rr_paths (reconcile_one w env k i b d) = [lookup_path i] \<and>
    u_answer (k_lookup env) = Responded x \<and> 200 \<le> x_status_code x \<and> x_status_code x < 300 \<and>
    Option.bind (x_json x) provider_response_validate = Some response \<and>
    (\<exists>p \<in> set (payments (rr_database (reconcile_one w env k i b d))).
       p_id p = i \<and> p_status p = status_for (s_status response) \<and>
       p_provider_payment_id p = Some (s_provider_payment_id response))"
  using assms(4)
proof (cases rule: reconcile_one_cases [where w = w and env = env and i = i and k = k and b = b and d = d])
  case (looked_up d1 response paths b' r d2)
  have inv1: "db_inv (k_others1 env d)"
    using assms(1,3) db_steps_inv by (auto simp: env_moves_by_def moves_by_def)
  have "db_inv d1" by (rule db_steps_inv [OF limited_steps [OF renew_steps [OF inv1 looked_up(1), of 1]] inv1])
  then have inv2: "db_inv (k_others2 env d1)"
    using assms(3) db_steps_inv by (auto simp: env_moves_by_def moves_by_def)
  have r: "r = Inr True" using looked_up(4) assms(4) by simp
  from persist_resolution_left [OF inv2 assms(2) looked_up(3)] r obtain p y where
    p: "p \<in> set (payments (k_others2 env d1))" "lease_held i k (k_persist_now env) p"
    and y: "response = Some y"
    and d2: "d2 = persisted w (k_processed_at env) (k_webhook_event_id env) (conn_now (k_persist env)) (Some y) p (k_others2 env d1)"
    by (auto simp: persist_left_def)
  let ?p = "reconciled_payment y (k_processed_at env) (k_webhook_event_id env) p\<lparr>p_updated_at := conn_now (k_persist env)\<rparr>"
  have "?p \<in> set (payments d2)"
    using p(1) by (simp add: d2 persisted_def with_resolution_def set_replace_row reconciled_payment_def)
  moreover have "p_id ?p = i \<and> p_status ?p = status_for (s_status y) \<and>
      p_provider_payment_id ?p = Some (s_provider_payment_id y)"
    using p(2) by (simp add: reconciled_payment_def status_for_def lease_held_def)
  moreover note lookup_response [OF looked_up(2) [unfolded y]]
  ultimately have "\<exists>q \<in> set (payments d2). p_id q = i \<and> p_status q = status_for (s_status y) \<and>
      p_provider_payment_id q = Some (s_provider_payment_id y)"
    and "paths = [lookup_path i]" and "get_payment_by_idempotency_key (u_answer (k_lookup env)) = Inr (Some y)"
    by blast+
  with lookup_answer [OF this(3)] looked_up(4) show ?thesis by auto
qed auto

text \<open>A payment counts as reconciled only when the provider was asked for it by its id and
  answered with a result, and it is then terminal with that result's status and provider id, under
  a lease that was still held.\<close>

theorem reconciled_agrees_with_provider:
  assumes "db_inv d" and "1 \<le> rc_max_attempts w" and "env_moves_by db_step env"
    and "rr_result (reconcile_one w env k i b d) = Inr True"
  shows "\<exists>x response. rr_paths (reconcile_one w env k i b d) = [lookup_path i] \<and>
    u_answer (k_lookup env) = Responded x \<and> 200 \<le> x_status_code x \<and> x_status_code x < 300 \<and>
    Option.bind (x_json x) provider_response_validate = Some response \<and>
    (\<exists>p \<in> set (payments (rr_database (reconcile_one w env k i b d))).
       p_id p = i \<and> p_status p = status_for (s_status response) \<and>
       p_provider_payment_id p = Some (s_provider_payment_id response))"
  using assms by (rule reconciled_agrees)

subsection \<open>Runs without faults\<close>

lemma held_row:
  assumes "constraints_ok d" and "p \<in> set (payments d)" and "lease_held i k now p"
  shows "scalar_one_or_none (filter (lease_held i k now) (payments d)) = Inr (Some p)"
proof -
  have "distinct (payments d)" using assms(1) by (simp add: constraints_ok_def distinct_map)
  then have eq: "scalar_one_or_none (filter (lease_held i k now) (payments d)) =
      Inr (find (lease_held i k now) (payments d))"
    using same_payment [OF assms(1)] by (intro scalar_filter_unique) (auto simp: lease_held_def)
  moreover have "find (lease_held i k now) (payments d) \<noteq> None" using assms(2,3) by (auto simp: find_None_iff)
  then obtain q where q: "find (lease_held i k now) (payments d) = Some q" by blast
  moreover have "q = p"
    using scalar_filter_SomeD [OF eq [unfolded q]] assms(2,3)
    by (intro same_payment [OF assms(1)]) (simp_all add: lease_held_def)
  ultimately show ?thesis by simp
qed

lemma renew_run:
  assumes inv: "db_inv d" and p: "p \<in> set (payments d)" "lease_held i k now p"
  shows "in_session (renew_claim w now i k) (healthy t) d =
    (Inr True, renewed_row (now + timedelta_us (rc_lease_seconds w)) t p d)"
proof -
  have c: "constraints_ok d" using inv by (simp add: db_inv_def)
  show ?thesis
    by (simp add: in_session_def renew_claim_def rollback_on_error_def tx_bind_def
        renew_reconciliation_lease_def statement_answered held_row [OF c p] commit_answered tx_return_def
        renew_step(1) [OF c p])
qed

lemma unanswered_run:
  assumes inv: "db_inv d" and p: "p \<in> set (payments d)" "lease_held i k now p"
  shows "in_session (persist_resolution w now a e i k None) (healthy t) d = (Inr False, persisted w a e t None p d)"
proof -
  have c: "constraints_ok d" using inv by (simp add: db_inv_def)
  let ?p = "unanswered_payment (rc_max_attempts w) p"
  have ne: "?p \<noteq> p" by (rule notI, drule arg_cong [of _ _ p_reconciliation_attempts]) simp
  have "same_unique ?p q = same_unique p q" for q
    by (simp add: same_unique_def unanswered_payment_def Let_def)
  then have "\<not> conflicts ?p (payments d)"
    using constraints_unique [OF c p(1)] by (auto simp: conflicts_iff)
  then have "update_payment t ?p d = Inr (persisted w a e t None p d)"
    using update_payment_changed [OF c p(1) _ ne] by (simp add: persisted_def)
  then show ?thesis
    by (simp add: in_session_def persist_resolution_def rollback_on_error_def tx_bind_def
        get_claimed_payment_for_update_def select_payment_def statement_answered held_row [OF c p]
        flush_payment_def commit_answered tx_return_def)
qed

text \<open>C40. While the breaker is open a reconciliation round asks the provider nothing, and still
  counts an unanswered attempt: a long outage uses up the budget of a payment without a single
  lookup.\<close>

theorem open_breaker_uses_up_attempts:
  assumes "db_inv d" and "p \<in> set (payments d)" and "lease_held i k (k_renew_now env) p"
    and "k_others1 env = (\<lambda>d. d)" and "k_others2 env = (\<lambda>d. d)"
    and "k_renew env = healthy t" and "k_persist env = healthy t'"
    and "k_persist_now env < k_renew_now env + timedelta_us (rc_lease_seconds w)"
    and "b_state b = OPEN" and "opened_at b = Some t0"
    and "u_begun (k_lookup env) - t0 < recovery_timeout_seconds b"
  shows "rr_paths (reconcile_one w env k i b d) = [] \<and>
    (\<exists>q \<in> set (payments (rr_database (reconcile_one w env k i b d))).
       p_id q = i \<and> p_status q = UNKNOWN \<and>
       p_reconciliation_attempts q = p_reconciliation_attempts p + 1 \<and>
       (p_reconciliation_attempts q \<ge> rc_max_attempts w \<longrightarrow> p_requires_manual_review q))"
proof -
  let ?u = "k_renew_now env + timedelta_us (rc_lease_seconds w)"
  let ?p = "p\<lparr>p_reconciliation_lease_until := Some ?u, p_updated_at := t\<rparr>"
  let ?d = "renewed_row ?u t p d"
  have c: "constraints_ok d" using assms(1) by (simp add: db_inv_def)
  have "limited 1 d ?d" by (rule renew_step(2) [OF c assms(2,3)])
  then have inv: "db_inv ?d" using assms(1) by (auto simp: limited_def intro: db_step_inv)
  have mem: "?p \<in> set (payments ?d)" using assms(2) by (simp add: renewed_row_def set_replace_row)
  have held: "lease_held i k (k_persist_now env) ?p" using assms(3,8) by (simp add: lease_held_def)
  have "lookup_provider (k_lookup env) i b = (Inr None, [], b)"
    using assms(9-11) by (simp add: lookup_provider_def call_def before_call_def)
  with renew_run [OF assms(1-3), of w t] unanswered_run [OF inv mem held, of w] assms(4-7)
  have run: "reconcile_one w env k i b d = \<lparr>rr_result = Inr False, rr_paths = [], rr_breaker = b,
      rr_database = persisted w (k_processed_at env) (k_webhook_event_id env) t' None ?p ?d\<rparr>"
    by (simp add: reconcile_one_def)
  let ?q = "unanswered_payment (rc_max_attempts w) ?p\<lparr>p_updated_at := t'\<rparr>"
  have "?q \<in> set (payments (persisted w (k_processed_at env) (k_webhook_event_id env) t' None ?p ?d))"
    using imageI [OF mem, of p_id] by (simp add: persisted_def set_replace_row)
  moreover have "p_id ?q = i \<and> p_status ?q = UNKNOWN" using assms(3) by (simp add: lease_held_def)
  ultimately show ?thesis unfolding run by (auto intro!: bexI [of _ ?q])
qed

subsection \<open>Concrete rounds\<close>

definition sample_reconciler :: reconciler where
  "sample_reconciler = \<lparr>rc_batch_size = 10, rc_stale_after_seconds = 0, rc_poll_interval_seconds = 1,
     rc_lease_seconds = 60, rc_max_attempts = 2\<rparr>"

definition unknown_payment :: payment where
  "unknown_payment = sample_payment\<lparr>p_status := UNKNOWN, p_updated_at := 80\<rparr>"

definition sample_unknown :: database where
  "sample_unknown = unknown_row 80 sample_payment sample_database"

definition claimed_payment :: payment where
  "claimed_payment = unknown_payment\<lparr>p_reconciliation_lease_token := Some (UUID 20),
     p_reconciliation_lease_until := Some 60000100, p_updated_at := 101\<rparr>"

definition sample_claimed :: database where
  "sample_claimed = sample_unknown\<lparr>payments := [claimed_payment]\<rparr>"

lemma sample_reconciler_new: "PaymentReconciliationWorker 10 0 1 60 2 = Inr sample_reconciler"
  by (simp add: PaymentReconciliationWorker_def sample_reconciler_def)

lemma sample_unknown_payments: "payments sample_unknown = [unknown_payment]"
  by (simp add: sample_unknown_def unknown_row_def replace_row_def unknown_payment_def)

lemma sample_payment_fresh [simp]:
  "\<not> p_requires_manual_review sample_payment" "p_reconciliation_attempts sample_payment = 0"
  "p_reconciliation_lease_token sample_payment = None" "p_reconciliation_lease_until sample_payment = None"
  "p_provider_payment_id sample_payment = None" "p_webhook_event_id sample_payment = None"
  by (simp_all add: sample_payment_def) (simp_all add: new_row_def build_payment_def)

lemma sample_unknown_inv: "db_inv sample_unknown"
proof -
  have "db_step sample_database sample_unknown"
    unfolding sample_unknown_def unknown_row_def
    by (rule db_step.change [where p = sample_payment]) (simp_all add: row_step.ambiguous)
  then show ?thesis using sample_database_inv by (rule db_step_inv)
qed

lemma sample_claimed_step: "limited m sample_unknown sample_claimed"
  by (rule leased_step [where p = unknown_payment and now = 101 and k = "UUID 20" and u = 60000100
        and p' = claimed_payment])
    (simp_all add: sample_unknown_payments unknown_payment_def claimed_payment_def sample_claimed_def replace_row_def)

lemma sample_claimed_inv: "db_inv sample_claimed"
  using sample_claimed_step [of 0] sample_unknown_inv by (auto simp: limited_def intro: db_step_inv)

lemma sample_microseconds [simp]: "timedelta_us 60 = 60000000" "timedelta_us 0 = 0"
  by (simp_all add: timedelta_us_def round_half_even_def Let_def)

lemma sample_claim:
  "in_session (claim_batch sample_reconciler 100 (UUID 20)) (healthy 101) sample_unknown =
     (Inr (UUID 20, [UUID 1]), sample_claimed)"
proof -
  have sel: "select_claimable 100 100 10 [] sample_unknown = [unknown_payment]"
    by (simp add: select_claimable_def select_rows_def sample_unknown_payments claimable_def lease_expired_def
        unknown_payment_def)
  let ?p = "set_lease (UUID 20) 60000100 unknown_payment"
  have ne: "?p \<noteq> unknown_payment"
    by (rule notI, drule arg_cong [of _ _ p_reconciliation_lease_token]) (simp add: set_lease_def unknown_payment_def)
  have upd: "update_payment 101 ?p sample_unknown = Inr sample_claimed"
  proof -
    have "constraints_ok sample_unknown" using sample_unknown_inv by (simp add: db_inv_def)
    then have "update_payment 101 ?p sample_unknown =
        (if conflicts ?p (payments sample_unknown) then Inl IntegrityError
         else Inr (sample_unknown\<lparr>payments := replace_row p_id (?p\<lparr>p_updated_at := 101\<rparr>) (payments sample_unknown)\<rparr>))"
      by (rule update_payment_changed [OF _ _ _ ne]) (simp_all add: sample_unknown_payments set_lease_def)
    moreover have "\<not> conflicts ?p (payments sample_unknown)"
      by (simp add: conflicts_iff sample_unknown_payments set_lease_def)
    moreover have "replace_row p_id (?p\<lparr>p_updated_at := 101\<rparr>) (payments sample_unknown) = [claimed_payment]"
      by (simp add: replace_row_def sample_unknown_payments set_lease_def claimed_payment_def)
    ultimately show ?thesis by (simp add: sample_claimed_def)
  qed
  show ?thesis
    by (simp add: in_session_def claim_batch_def rollback_on_error_def tx_bind_def claim_reconciliation_batch_def
        statement_answered sample_reconciler_def sel flush_payments_def upd commit_answered tx_return_def)
      (simp add: unknown_payment_def)
qed

definition approving :: reconcile_env where
  "approving = \<lparr>k_others1 = (\<lambda>d. d), k_renew_now = 200, k_renew = healthy 201,
     k_lookup = \<lparr>u_begun = 10, u_ended = 11, u_breaker_others = (\<lambda>b. b), u_answer = Responded approved_response\<rparr>,
     k_others2 = (\<lambda>d. d), k_persist_now = 300, k_processed_at = 301, k_webhook_event_id = UUID 3,
     k_persist = healthy 302\<rparr>"

lemma approving_env: "env_moves_by rel approving" "others_ok (k_others1 approving)" "others_ok (k_others2 approving)"
  by (simp_all add: env_moves_by_def moves_by_def approving_def)

lemma claimed_held:
  "claimed_payment \<in> set (payments sample_claimed)" "t < 60000100 \<Longrightarrow> lease_held (UUID 1) (UUID 20) t claimed_payment"
  by (simp_all add: sample_claimed_def lease_held_def claimed_payment_def unknown_payment_def)

lemma reconciliation_keeps_lifecycle_witness:
  "db_inv (snd (snd (process_batch sample_reconciler 100 (UUID 20) (healthy 101) (\<lambda>_. approving) sample_breaker sample_unknown))) \<and>
   history_le sample_unknown (snd (snd (process_batch sample_reconciler 100 (UUID 20) (healthy 101) (\<lambda>_. approving) sample_breaker sample_unknown)))"
  by (rule reconciliation_keeps_lifecycle [OF sample_reconciler_new sample_unknown_inv]) (simp add: approving_env)

lemma lookups_are_bounded_witness:
  "attempts_limited 2 (snd (snd (process_batch sample_reconciler 100 (UUID 20) (healthy 101) (\<lambda>_. approving) sample_breaker sample_unknown)))"
proof -
  have "attempts_limited 2 sample_unknown"
    by (simp add: attempts_limited_def sample_unknown_payments unknown_payment_def)
  then show ?thesis
    using lookups_are_bounded [OF sample_reconciler_new sample_unknown_inv, where env = "\<lambda>_. approving"]
      approving_env(1) by (simp add: sample_reconciler_def)
qed


lemma stale_lease_writes_nothing_witness:
  "snd (in_session (persist_resolution sample_reconciler 70000000 5 (UUID 3) (UUID 1) (UUID 20) None) (healthy 9) sample_claimed) =
     sample_claimed"
  using stale_lease_writes_nothing [OF sample_claimed_inv, of sample_reconciler "UUID 1" "UUID 20" 70000000]
  by (simp add: sample_reconciler_def sample_claimed_def claimed_payment_def)

definition stalled :: reconcile_env where
  "stalled = approving\<lparr>k_lookup := \<lparr>u_begun = 10, u_ended = 11, u_breaker_others = (\<lambda>b. b), u_answer = Budget_timeout\<rparr>\<rparr>"

lemma open_breaker_uses_up_attempts_witness:
  "rr_paths (reconcile_one sample_reconciler stalled (UUID 20) (UUID 1) tripped sample_claimed) = []"
  using open_breaker_uses_up_attempts [OF sample_claimed_inv claimed_held(1) claimed_held(2),
      where env = stalled and b = tripped and w = sample_reconciler and t = 201 and t' = 302 and ?t0.0 = 2]
  by (simp add: stalled_def approving_def tripped_def sample_reconciler_def)

lemma sample_reconciled:
  "rr_result (reconcile_one sample_reconciler approving (UUID 20) (UUID 1) sample_breaker sample_claimed) = Inr True"
proof -
  have c: "constraints_ok sample_claimed" using sample_claimed_inv by (simp add: db_inv_def)
  let ?d = "renewed_row 60000200 201 claimed_payment sample_claimed"
  let ?p = "claimed_payment\<lparr>p_reconciliation_lease_until := Some 60000200, p_updated_at := 201\<rparr>"
  have inv: "db_inv ?d"
    using renew_step(2) [OF c claimed_held(1) claimed_held(2), of 200] sample_claimed_inv
    by (auto simp: limited_def intro: db_step_inv)
  have c2: "constraints_ok ?d" using inv by (simp add: db_inv_def)
  have pays: "payments ?d = [?p]" by (simp add: renewed_row_def sample_claimed_def replace_row_def)
  have held: "lease_held (UUID 1) (UUID 20) 300 ?p"
    by (simp add: lease_held_def claimed_payment_def unknown_payment_def)
  let ?q = "reconciled_payment sample_response 301 (UUID 3) ?p"
  have ne: "?q \<noteq> ?p"
    by (rule notI, drule arg_cong [of _ _ p_processed_at])
      (simp add: reconciled_payment_def claimed_payment_def unknown_payment_def, simp add: sample_payment_def new_row_def build_payment_def)
  have evs: "outbox_events ?d = [build_process_requested_event sample_env sample_payment]"
    by (simp add: renewed_row_def sample_claimed_def sample_unknown_def unknown_row_def)
  have look: "lookup_provider (k_lookup approving) (UUID 1) sample_breaker =
      (Inr (Some sample_response), [lookup_path (UUID 1)], sample_breaker)"
    by (simp add: lookup_provider_def approving_def call_def before_call_def sample_breaker_def
        get_payment_by_idempotency_key_def approved_response_def provider_response.decode_encode
        record_outcome_def record_success_def sample_response_def)
  have renew: "in_session (renew_claim sample_reconciler 200 (UUID 1) (UUID 20)) (healthy 201) sample_claimed = (Inr True, ?d)"
    using renew_run [OF sample_claimed_inv claimed_held(1) claimed_held(2), of 200 sample_reconciler 201]
    by (simp add: sample_reconciler_def)
  have "fst (in_session (persist_resolution sample_reconciler 300 301 (UUID 3) (UUID 1) (UUID 20) (Some sample_response))
      (healthy 302) ?d) = Inr True"
    using held_row [OF c2 _ held] ne
    by (simp add: in_session_def persist_resolution_def rollback_on_error_def tx_bind_def tx_return_def
        get_claimed_payment_for_update_def select_payment_def statement_answered pays
        persist_run [where p = ?p] Let_def c2 reconciled_payment_def conflicts_iff evs sample_env_def)
  then show ?thesis
    using look renew by (simp add: reconcile_one_def approving_def case_prod_unfold)
qed

lemma reconciled_agrees_with_provider_witness:
  "rr_paths (reconcile_one sample_reconciler approving (UUID 20) (UUID 1) sample_breaker sample_claimed) =
     [lookup_path (UUID 1)]"
  using reconciled_agrees_with_provider [OF sample_claimed_inv _ approving_env(1) sample_reconciled]
  by (simp add: sample_reconciler_def)

end
