(* ===== verification/Worker_Main.thy ===== *)
theory Worker_Main
  imports Config Dispatcher Outbox_Relay Reconciliation
begin

text \<open>
  \<open>app/worker/main.py\<close>: how the worker process is put together from its settings, started and
  shut down, and the polling loop of the reconciliation it runs beside the outbox relay.

  \<open>build_worker\<close> runs the constructors in the order of the code. \<open>run_worker\<close> is the process as
  the sequence of its awaited calls: each comes with how it ended, and a call that raises skips the
  rest of its block; what the two background tasks do while they run is in their own theories.
\<close>

subsection \<open>Construction\<close>

record worker_parts =
  wk_provider_client :: provider_client
  wk_circuit_breaker :: breaker
  wk_webhook_client :: webhook_client
  wk_outbox_relay :: relay
  wk_reconciliation :: reconciler

definition build_worker :: "settings \<Rightarrow> worker_parts outcome" where
  "build_worker s =
     (case PaymentProviderClient (payment_provider_request_timeout_seconds s) (payment_provider_max_attempts s)
             (payment_provider_retry_base_delay_seconds s) (payment_provider_retry_max_delay_seconds s)
             (payment_provider_retry_total_timeout_seconds s) of
        Inl e \<Rightarrow> Inl e
      | Inr provider_client \<Rightarrow>
     (case CircuitBreaker (payment_provider_circuit_breaker_failure_threshold s)
             (payment_provider_circuit_breaker_recovery_timeout_seconds s) of
        Inl e \<Rightarrow> Inl e
      | Inr circuit_breaker \<Rightarrow>
     (case WebhookClient (webhook_request_timeout_seconds s) of
        Inl e \<Rightarrow> Inl e
      | Inr webhook_client \<Rightarrow>
     (case PaymentReconciliationWorker (payment_reconciliation_batch_size s)
             (payment_reconciliation_stale_after_seconds s) (payment_reconciliation_poll_interval_seconds s)
             (payment_reconciliation_lease_seconds s) (payment_reconciliation_max_attempts s) of
        Inl e \<Rightarrow> Inl e
      | Inr reconciliation \<Rightarrow>
          Inr \<lparr>wk_provider_client = provider_client, wk_circuit_breaker = circuit_breaker,
               wk_webhook_client = webhook_client,
               wk_outbox_relay = \<lparr>rl_batch_size = outbox_relay_batch_size s,
                 rl_timeout_seconds = rabbit_publish_timeout_seconds s\<rparr>,
               wk_reconciliation = reconciliation\<rparr>))))"

text \<open>C33. Settings within their declared ranges make a worker, with parts that satisfy every bound
  their own code checks, except that the greatest retry delay may be below the first one: the
  settings allow it, and the worker then does not start.\<close>

theorem settings_make_worker:
  assumes "Settings s = Inr s'"
  shows "if payment_provider_retry_base_delay_seconds s \<le> payment_provider_retry_max_delay_seconds s
    then \<exists>w. build_worker s' = Inr w \<and> client_ok (wk_provider_client w) \<and> breaker_ok (wk_circuit_breaker w) \<and>
      b_state (wk_circuit_breaker w) = CLOSED \<and> 1 \<le> rl_batch_size (wk_outbox_relay w) \<and>
      1 \<le> rc_max_attempts (wk_reconciliation w)
    else build_worker s' = Inl (ValueError
      ''retry_max_delay_seconds must be greater than or equal to retry_base_delay_seconds'')"
  using Settings_ok [OF assms]
  by (auto simp: build_worker_def settings_fields_ok_def PaymentProviderClient_def CircuitBreaker_def WebhookClient_def
      PaymentReconciliationWorker_def client_ok_def breaker_ok_def)

subsection \<open>The reconciliation loop\<close>

text \<open>One round before the stop event is set: an \<open>Exception\<close> is logged and the loop goes on.\<close>

record reconciliation_turn =
  ru_others :: "database \<Rightarrow> database"
  ru_now :: time
  ru_lease_token :: uuid
  ru_claim :: connection
  ru_env :: "uuid \<Rightarrow> reconcile_env"
  ru_breaker_others :: "breaker \<Rightarrow> breaker"

fun reconciliation_run ::
  "reconciler \<Rightarrow> reconciliation_turn list \<Rightarrow> breaker \<Rightarrow> database \<Rightarrow> unit outcome \<times> breaker \<times> database" where
  "reconciliation_run worker [] b d = (Inr (), b, d)"
| "reconciliation_run worker (t # turns) b d =
     (case process_batch worker (ru_now t) (ru_lease_token t) (ru_claim t) (ru_env t)
             (ru_breaker_others t b) (ru_others t d) of
        (Inl e, b', d') \<Rightarrow> if is_exception e then reconciliation_run worker turns b' d' else (Inl e, b', d')
      | (Inr _, b', d') \<Rightarrow> reconciliation_run worker turns b' d')"

subsection \<open>The process\<close>

datatype worker_action =
    Check_connection | Broker_connect | Declare_topology | Broker_start | Start_outbox
  | Start_reconciliation | Wait_shutdown | Await_outbox | Await_reconciliation | Set_stop
  | Broker_stop | Close_provider_client | Close_webhook_client | Close_database

text \<open>How each awaited call ends, how the two tasks end, and whether they have ended when
  \<open>done()\<close> is asked, after the wait and again in the \<open>finally\<close> block.\<close>

record process_env =
  pe_check :: "unit outcome"
  pe_connect :: "unit outcome"
  pe_declare :: "unit outcome"
  pe_start :: "unit outcome"
  pe_wait :: "unit outcome"
  pe_outbox :: "unit outcome"
  pe_reconciliation :: "unit outcome"
  pe_outbox_done :: bool
  pe_reconciliation_done :: bool
  pe_outbox_done_later :: bool
  pe_reconciliation_done_later :: bool
  pe_stop :: "unit outcome"
  pe_close_provider :: "unit outcome"
  pe_close_webhook :: "unit outcome"
  pe_close_database :: "unit outcome"

definition try_block :: "process_env \<Rightarrow> (worker_action \<times> unit outcome) list" where
  "try_block env =
     [(Check_connection, pe_check env), (Broker_connect, pe_connect env), (Declare_topology, pe_declare env),
      (Broker_start, pe_start env), (Start_outbox, Inr ()), (Start_reconciliation, Inr ()),
      (Wait_shutdown, pe_wait env)] @
     (if pe_outbox_done env then [(Await_outbox, pe_outbox env)] else []) @
     (if pe_reconciliation_done env then [(Await_reconciliation, pe_reconciliation env)] else [])"

text \<open>\<open>suppress(Exception)\<close>.\<close>

definition suppressed :: "unit outcome \<Rightarrow> unit outcome" where
  "suppressed r = (case r of Inl e \<Rightarrow> if is_exception e then Inr () else Inl e | Inr _ \<Rightarrow> Inr ())"

definition broker_connected :: "process_env \<Rightarrow> bool" where
  "broker_connected env \<longleftrightarrow> pe_check env = Inr () \<and> pe_connect env = Inr ()"

definition finally_block :: "process_env \<Rightarrow> worker_action list \<Rightarrow> (worker_action \<times> unit outcome) list" where
  "finally_block env reached =
     [(Set_stop, Inr ())] @
     (if Start_outbox \<in> set reached \<and> \<not> pe_outbox_done_later env then [(Await_outbox, pe_outbox env)] else []) @
     (if Start_reconciliation \<in> set reached \<and> \<not> pe_reconciliation_done_later env
      then [(Await_reconciliation, pe_reconciliation env)] else []) @
     (if broker_connected env then [(Broker_stop, suppressed (pe_stop env))] else []) @
     [(Close_provider_client, pe_close_provider env), (Close_webhook_client, pe_close_webhook env),
      (Close_database, pe_close_database env)]"

definition run_worker :: "settings \<Rightarrow> process_env \<Rightarrow> worker_action list \<times> unit outcome" where
  "run_worker s env =
     (case build_worker s of
        Inl e \<Rightarrow> ([], Inl e)
      | Inr _ \<Rightarrow>
          (case perform (try_block env) of
             (tried, r) \<Rightarrow>
               (case perform (finally_block env tried) of
                  (finished, r') \<Rightarrow> (tried @ finished, case r' of Inl e \<Rightarrow> Inl e | Inr _ \<Rightarrow> r))))"

subsection \<open>Start and shutdown\<close>

text \<open>The \<open>try\<close> block reached the tasks only through the whole start.\<close>

lemma try_block_start:
  assumes "Start_outbox \<in> set (fst (perform (try_block env))) \<or> Start_reconciliation \<in> set (fst (perform (try_block env))) \<or>
    Wait_shutdown \<in> set (fst (perform (try_block env)))"
  shows "broker_connected env \<and>
    (\<exists>rest. fst (perform (try_block env)) =
      [Check_connection, Broker_connect, Declare_topology, Broker_start, Start_outbox, Start_reconciliation,
       Wait_shutdown] @ rest)"
  using assms
  by (cases "pe_check env"; cases "pe_connect env"; cases "pe_declare env"; cases "pe_start env"; cases "pe_wait env")
    (auto simp: try_block_def broker_connected_def split: prod.splits)

lemma try_block_actions: "fst (perform (try_block env)) = tried \<Longrightarrow>
    set tried \<subseteq> {Check_connection, Broker_connect, Declare_topology, Broker_start, Start_outbox,
      Start_reconciliation, Wait_shutdown, Await_outbox, Await_reconciliation}"
  using perform_prefix [of "try_block env"]
  by (auto simp: try_block_def dest!: arg_cong [of _ _ set] split: if_splits)

text \<open>What precedes the broker's stop in the \<open>finally\<close> block.\<close>

lemma finally_stop:
  assumes "fst (perform (finally_block env tried)) = pre @ Broker_stop # post"
  shows "broker_connected env \<and>
    (Start_outbox \<in> set tried \<longrightarrow> pe_outbox_done_later env \<or> Await_outbox \<in> set pre) \<and>
    (Start_reconciliation \<in> set tried \<longrightarrow> pe_reconciliation_done_later env \<or> Await_reconciliation \<in> set pre)"
proof -
  obtain ys where "map fst (finally_block env tried) = pre @ Broker_stop # post @ ys"
    using perform_prefix [of "finally_block env tried"] assms by auto
  then show ?thesis
    by (auto simp: finally_block_def Cons_eq_append_conv split: if_splits)
qed

text \<open>The worker's order of starting and stopping: no message is consumed and no background task
  runs before the database answered, the broker is connected and its topology declared; and the
  broker is stopped only after the relay and the reconciliation have ended.\<close>

theorem worker_start_stop_order:
  assumes "run_worker s env = (tr, r)"
  shows "(Start_outbox \<in> set tr \<or> Start_reconciliation \<in> set tr \<or> Wait_shutdown \<in> set tr \<longrightarrow>
      (\<exists>rest. tr = [Check_connection, Broker_connect, Declare_topology, Broker_start, Start_outbox,
         Start_reconciliation, Wait_shutdown] @ rest)) \<and>
    (\<forall>pre post. tr = pre @ Broker_stop # post \<longrightarrow>
       (Start_outbox \<in> set tr \<longrightarrow> pe_outbox_done_later env \<or> Await_outbox \<in> set pre) \<and>
       (Start_reconciliation \<in> set tr \<longrightarrow> pe_reconciliation_done_later env \<or> Await_reconciliation \<in> set pre))"
proof (cases "build_worker s")
  case (Inl e)
  with assms show ?thesis by (simp add: run_worker_def)
next
  case (Inr w)
  obtain tried q where t: "perform (try_block env) = (tried, q)" by (cases "perform (try_block env)")
  obtain fin q' where f: "perform (finally_block env tried) = (fin, q')"
    by (cases "perform (finally_block env tried)")
  have tr: "tr = tried @ fin" using assms Inr t f by (simp add: run_worker_def)
  have acts: "set tried \<subseteq> {Check_connection, Broker_connect, Declare_topology, Broker_start, Start_outbox,
      Start_reconciliation, Wait_shutdown, Await_outbox, Await_reconciliation}"
    using try_block_actions [of env tried] t by simp
  have fin: "set fin \<subseteq> {Set_stop, Await_outbox, Await_reconciliation, Broker_stop, Close_provider_client,
      Close_webhook_client, Close_database}"
    using perform_prefix [of "finally_block env tried"] f
    by (auto simp: finally_block_def dest!: arg_cong [of _ _ set] split: if_splits)
  show ?thesis
  proof (intro conjI impI allI)
    assume "Start_outbox \<in> set tr \<or> Start_reconciliation \<in> set tr \<or> Wait_shutdown \<in> set tr"
    then have "Start_outbox \<in> set tried \<or> Start_reconciliation \<in> set tried \<or> Wait_shutdown \<in> set tried"
      using fin tr by auto
    then show "\<exists>rest. tr = [Check_connection, Broker_connect, Declare_topology, Broker_start, Start_outbox,
         Start_reconciliation, Wait_shutdown] @ rest"
      using try_block_start [of env] t tr by auto
  next
    fix pre post
    assume split: "tr = pre @ Broker_stop # post"
    have "Broker_stop \<notin> set tried" using acts by auto
    then obtain pre' where pre: "pre = tried @ pre'" "fin = pre' @ Broker_stop # post"
      using split by (auto simp: tr append_eq_append_conv2 Cons_eq_append_conv append_eq_Cons_conv)
    note stop = finally_stop [of env tried pre' post, simplified f fst_conv, OF pre(2)]
    show "pe_outbox_done_later env \<or> Await_outbox \<in> set pre" if "Start_outbox \<in> set tr"
      using that fin stop pre(1) by (auto simp: tr)
    show "pe_reconciliation_done_later env \<or> Await_reconciliation \<in> set pre" if "Start_reconciliation \<in> set tr"
      using that fin stop pre(1) by (auto simp: tr)
  qed
qed

text \<open>However the worker ends, by a shutdown, a failed start, an interruption or the crash of a
  background task, it closes its HTTP clients and its database, stops the broker exactly if it was
  connected, and passes on the exception; provided the tasks it still has to wait for end normally
  and the closing calls do not raise.\<close>

theorem worker_closes_everything:
  assumes "build_worker s = Inr w" and "run_worker s env = (tr, r)"
    and "pe_outbox_done_later env \<or> pe_outbox env = Inr ()"
    and "pe_reconciliation_done_later env \<or> pe_reconciliation env = Inr ()"
    and "suppressed (pe_stop env) = Inr ()" and "pe_close_provider env = Inr ()"
    and "pe_close_webhook env = Inr ()" and "pe_close_database env = Inr ()"
  shows "r = snd (perform (try_block env)) \<and>
    (\<exists>pre. tr = pre @ [Close_provider_client, Close_webhook_client, Close_database] \<and>
       (Broker_stop \<in> set pre \<longleftrightarrow> broker_connected env))"
proof -
  obtain tried q where t: "perform (try_block env) = (tried, q)" by (cases "perform (try_block env)")
  have "list_all (\<lambda>(a, r). r = Inr ()) (finally_block env tried)"
    using assms(3-8) by (auto simp: finally_block_def)
  then have f: "perform (finally_block env tried) = (map fst (finally_block env tried), Inr ())"
    by (rule perform_all)
  have "r = q" and tr: "tr = tried @ map fst (finally_block env tried)"
    using assms(1,2) t f by (simp_all add: run_worker_def)
  moreover have "Broker_stop \<notin> set tried" using try_block_actions [of env tried] t by auto
  ultimately show ?thesis
    by (auto simp: t finally_block_def)
qed

subsection \<open>Concrete runs\<close>

abbreviation sample_settings :: settings where
  "sample_settings \<equiv> default_settings ''key'' ''postgres'' ''amqp'' ''http''"

definition normal_process :: process_env where
  "normal_process =
     \<lparr>pe_check = Inr (), pe_connect = Inr (), pe_declare = Inr (), pe_start = Inr (), pe_wait = Inr (),
      pe_outbox = Inr (), pe_reconciliation = Inr (), pe_outbox_done = False, pe_reconciliation_done = False,
      pe_outbox_done_later = False, pe_reconciliation_done_later = False, pe_stop = Inr (),
      pe_close_provider = Inr (), pe_close_webhook = Inr (), pe_close_database = Inr ()\<rparr>"

theorem settings_make_worker_witness:
  "\<exists>w. build_worker sample_settings = Inr w"
  using settings_make_worker [OF default_settings_ok, of "''key''" "''postgres''" "''amqp''" "''http''"]
  by (auto simp: default_settings_def)

lemma sample_worker: "\<exists>w. build_worker sample_settings = Inr w"
  by (simp add: build_worker_def default_settings_def PaymentProviderClient_def CircuitBreaker_def WebhookClient_def
      PaymentReconciliationWorker_def)

lemma normal_run:
  "run_worker sample_settings normal_process =
     ([Check_connection, Broker_connect, Declare_topology, Broker_start, Start_outbox, Start_reconciliation,
       Wait_shutdown, Set_stop, Await_outbox, Await_reconciliation, Broker_stop, Close_provider_client,
       Close_webhook_client, Close_database], Inr ())"
  using sample_worker
  by (auto simp: run_worker_def try_block_def finally_block_def normal_process_def broker_connected_def suppressed_def)

theorem worker_start_stop_order_witness:
  "Await_outbox \<in> set [Check_connection, Broker_connect, Declare_topology, Broker_start, Start_outbox,
     Start_reconciliation, Wait_shutdown, Set_stop, Await_outbox, Await_reconciliation]"
  using conjunct2 [OF worker_start_stop_order [OF normal_run], rule_format,
      of "[Check_connection, Broker_connect, Declare_topology, Broker_start, Start_outbox,
        Start_reconciliation, Wait_shutdown, Set_stop, Await_outbox, Await_reconciliation]"
        "[Close_provider_client, Close_webhook_client, Close_database]"]
  by simp

theorem worker_closes_everything_witness:
  "snd (run_worker sample_settings normal_process) = snd (perform (try_block normal_process))"
proof -
  obtain w where "build_worker sample_settings = Inr w" using sample_worker by blast
  from worker_closes_everything [OF this normal_run]
  have "Inr () = snd (perform (try_block normal_process))"
    by (simp add: normal_process_def suppressed_def)
  then show ?thesis using normal_run by simp
qed

end
