(* ===== verification/System.thy ===== *)
theory System
  imports Http_Api Worker_Main
begin

text \<open>
  The components together. The state is what they share, the database and the broker; a step is
  one request to the API, one batch of the relay, one message handled by the worker, or one round
  of the reconciliation, each with whatever faults and whatever commits of the others in between
  its own transactions. Only what the broker has stored is ever delivered, any number of times and
  in any order. \<open>system_run\<close> is every interleaving of these.
\<close>

record system =
  sy_database :: database
  sy_broker :: broker

definition fresh_installation :: system where
  "fresh_installation = \<lparr>sy_database = empty_database, sy_broker = \<lparr>b_messages = [], b_replies = []\<rparr>\<rparr>"

inductive system_step :: "system \<Rightarrow> system \<Rightarrow> bool" where
  client_posts: "others_ok (n_others env) \<Longrightarrow> others_ok (n_others_retry env) \<Longrightarrow>
     system_step s (s\<lparr>sy_database := snd (post_payments sha256 expected env req c (sy_database s))\<rparr>)"
| client_gets:
     "system_step s (s\<lparr>sy_database := snd (get_payments parse_url expected k i c (sy_database s))\<rparr>)"
| relay_works: "relay_batch relay clk c (sy_broker s) (sy_database s) = (r, b, d) \<Longrightarrow>
     system_step s \<lparr>sy_database = d, sy_broker = b\<rparr>"
| worker_handles: "m \<in> set (b_messages (sy_broker s)) \<Longrightarrow> dispatch_admissible env \<Longrightarrow>
     h = handle_payment_queue_message env settled t (m_body m) (sy_broker s) (sy_database s) \<Longrightarrow>
     system_step s \<lparr>sy_database = hd_world h, sy_broker = hd_broker h\<rparr>"
| reconciliation_works: "1 \<le> rc_max_attempts w \<Longrightarrow>
     (\<And>i. others_ok (k_others1 (env i)) \<and> others_ok (k_others2 (env i))) \<Longrightarrow>
     system_step s (s\<lparr>sy_database := snd (snd (process_batch w now k c env b (sy_database s)))\<rparr>)"
| broker_changes:
     "system_step s (s\<lparr>sy_broker := (sy_broker s)\<lparr>b_replies := rs\<rparr>\<rparr>)"

inductive_cases system_stepE: "system_step s s'"

abbreviation system_run :: "system \<Rightarrow> system \<Rightarrow> bool" where
  "system_run \<equiv> system_step\<^sup>*\<^sup>*"

subsection \<open>Every step refines the lifecycle\<close>

lemma post_payments_steps:
  assumes "db_inv d" and "others_ok (n_others env)" and "others_ok (n_others_retry env)"
  shows "db_step\<^sup>*\<^sup>* d (snd (post_payments sha256 expected env req c d))"
proof (cases rule: post_payments_cases [of sha256 expected env req c d])
  case (run data key r d')
  have "db_step\<^sup>*\<^sup>* d d'"
    using creation.refines [OF assms(1), of "(sha256, env, data, strip key)" c] assms(2,3) run(7)
    by (simp add: creation_admissible_def creation_run_def)
  with run(8) show ?thesis by (simp add: create_endpoint_cases [OF run(6,7)])
qed simp

lemma query_committed: "in_session (query_payment i) c d = (r, d') \<Longrightarrow> d' = d"
  by (auto simp: in_session_def query_payment_def get_by_id_def select_payment_def statement_def next_reply_def
      begin_session_def split: prod.splits db_reply.splits list.splits sum.splits)

lemma get_payments_steps: "snd (get_payments parse_url expected k i c d) = d"
  by (auto simp: get_payments_def get_payment_endpoint_def refuse_validation_def
      split: sum.splits option.splits prod.splits dest: query_committed)

lemma system_step_refines:
  assumes "system_step s s'" and "db_inv (sy_database s)"
  shows "db_step\<^sup>*\<^sup>* (sy_database s) (sy_database s')"
  using assms
proof (induction rule: system_step.induct)
  case (client_posts env s sha256 expected req c)
  then show ?case using post_payments_steps by simp
next
  case (client_gets s parse_url expected k i c)
  then show ?case by (simp add: get_payments_steps)
next
  case (relay_works relay clk c s r b d)
  then show ?case using relay_batch_steps by simp
next
  case (worker_handles m s env h settled t)
  then show ?case
    using dispatcher.handle_moves [of "sy_database s" env settled t "m_body m" "sy_broker s"]
    by (simp add: handle_payment_queue_message_def)
next
  case (reconciliation_works w env s now k c b)
  then show ?case
    using reconciliation.refines [of "sy_database s" "(w, now, k, env, b)" c]
    by (simp add: round_run_def round_admissible_def)
qed simp

lemma system_run_refines:
  assumes "system_run s s'" and "db_inv (sy_database s)"
  shows "db_step\<^sup>*\<^sup>* (sy_database s) (sy_database s')"
  using assms
proof (induction rule: rtranclp_induct)
  case (step s' s'')
  then have "db_inv (sy_database s')" using db_steps_inv by blast
  from system_step_refines [OF step(2) this] step show ?case by simp
qed simp

text \<open>C1. Refinement: every interleaving of API requests, relay batches, handled messages and
  reconciliation rounds, under any faults, is a run of the abstract lifecycle on the database; so
  it keeps the invariant, and of every payment the order and its outcome once it has one.\<close>

theorem system_refines_lifecycle:
  assumes "db_inv (sy_database s)" and "system_run s s'"
  shows "db_step\<^sup>*\<^sup>* (sy_database s) (sy_database s') \<and> db_inv (sy_database s') \<and>
    history_le (sy_database s) (sy_database s')"
  using system_run_refines [OF assms(2,1)] assms(1) db_steps_inv db_steps_history by blast

text \<open>C2. The transactional outbox: in every state the installation can reach, each payment has
  exactly one event requesting its processing, and it has an event requesting its webhook exactly
  when it is terminal, the one it names.\<close>

theorem outbox_is_complete:
  assumes "system_run fresh_installation s" and "p \<in> set (payments (sy_database s))"
  shows "(\<exists>!ev. ev \<in> set (outbox_events (sy_database s)) \<and> requested_by p ev) \<and>
    (terminal (p_status p) \<longleftrightarrow>
       (\<exists>ev \<in> set (outbox_events (sy_database s)). o_event_type ev = WEBHOOK_DELIVERY_REQUESTED \<and>
          o_payment_id ev = p_id p \<and> p_webhook_event_id p = Some (o_id ev)))"
proof -
  have "db_inv (sy_database s)"
    using system_run_refines [OF assms(1)] db_steps_inv empty_database_inv
    by (fastforce simp: fresh_installation_def)
  then have row: "row_ok p" and out: "outbox_ok (sy_database s)" and c: "constraints_ok (sy_database s)"
    using assms(2) by (simp_all add: db_inv_def)
  have same: "ev = ev'" if "ev \<in> set (outbox_events (sy_database s))" "ev' \<in> set (outbox_events (sy_database s))"
    "o_id ev = o_id ev'" for ev ev'
    using c that inj_onD [of o_id "set (outbox_events (sy_database s))" ev ev']
    by (simp add: constraints_ok_def distinct_map)
  from out assms(2) obtain ev where ev: "ev \<in> set (outbox_events (sy_database s))" "requested_by p ev"
    unfolding outbox_ok_def by blast
  have "\<exists>!ev. ev \<in> set (outbox_events (sy_database s)) \<and> requested_by p ev"
    using ev out assms(2) same unfolding outbox_ok_def by (intro ex1I [of _ ev]) blast+
  moreover have "terminal (p_status p) \<longleftrightarrow>
       (\<exists>ev \<in> set (outbox_events (sy_database s)). o_event_type ev = WEBHOOK_DELIVERY_REQUESTED \<and>
          o_payment_id ev = p_id p \<and> p_webhook_event_id p = Some (o_id ev))"
    using row out assms(2) unfolding outbox_ok_def row_ok_def by fastforce
  ultimately show ?thesis by blast
qed

subsection \<open>What the queues hold\<close>

text \<open>A message about a stored payment: a copy of an event of the outbox, up to its attempt.\<close>

definition from_outbox :: "database \<Rightarrow> raw_event \<Rightarrow> bool" where
  "from_outbox d body \<longleftrightarrow>
     (\<exists>event. envelope_validate body = Some event \<and>
        (\<exists>ev \<in> set (outbox_events d). o_id ev = e_event_id event \<and> o_event_type ev = e_event_type event \<and>
           o_payment_id ev = e_payment_id event))"

definition queues_ok :: "system \<Rightarrow> bool" where
  "queues_ok s \<longleftrightarrow> (\<forall>m \<in> set (b_messages (sy_broker s)). from_outbox (sy_database s) (m_body m))"

lemma from_outbox_later:
  assumes "history_le d d'" and "from_outbox d body"
  shows "from_outbox d' body"
proof -
  from assms(2) obtain event ev where ev: "envelope_validate body = Some event" "ev \<in> set (outbox_events d)"
    "o_id ev = e_event_id event" "o_event_type ev = e_event_type event" "o_payment_id ev = e_payment_id event"
    unfolding from_outbox_def by blast
  with assms(1) obtain ev' where "ev' \<in> set (outbox_events d')" "event_le ev ev'" unfolding history_le_def by blast
  with ev show ?thesis unfolding from_outbox_def event_le_def by auto
qed

lemma publish_events_sent:
  "publish_events t clk i evs b = (r, b') \<Longrightarrow>
     \<exists>ms. b_messages b' = b_messages b @ ms \<and> set ms \<subseteq> message_of t ` set evs"
proof (induction evs arbitrary: i b r b')
  case (Cons ev evs)
  show ?case
  proof (cases "envelope_validate (o_payload ev)")
    case (Some e)
    obtain x b1 where pub: "publish t e b = (x, b1)" by (cases "publish t e b")
    have first: "b_messages b1 = b_messages b \<or> b_messages b1 = b_messages b @ [message_of t ev]"
      using broker_publish_cases [OF pub [unfolded publish_def publish_with_key_def]] Some
      by (auto simp: message_of_def)
    obtain y b2 where rest: "publish_events t clk (i + 1) evs b1 = (y, b2)"
      by (cases "publish_events t clk (i + 1) evs b1")
    then obtain ms where "b_messages b2 = b_messages b1 @ ms" "set ms \<subseteq> message_of t ` set evs"
      using Cons.IH [OF rest] by blast
    with first Cons.prems Some pub rest show ?thesis by (fastforce split: sum.splits)
  qed (use Cons.prems in auto)
qed simp

lemma relay_batch_sent:
  assumes "relay_batch relay clk c b d = (r, b', d')"
  shows "\<exists>ms. b_messages b' = b_messages b @ ms \<and>
    set ms \<subseteq> message_of (rl_timeout_seconds relay) ` set (outbox_events d)"
proof -
  obtain x s where get: "get_unpublished_batch (rl_batch_size relay) (begin_session d c) = (x, s)"
    by (cases "get_unpublished_batch (rl_batch_size relay) (begin_session d c)")
  show ?thesis
  proof (cases x)
    case (Inr evs)
    then have "set evs \<subseteq> set (outbox_events d)"
      using get_batch_cases [OF get] select_unpublished_props(1) by blast
    moreover obtain y b1 where pub: "publish_events (rl_timeout_seconds relay) clk 0 evs b = (y, b1)"
      by (cases "publish_events (rl_timeout_seconds relay) clk 0 evs b")
    moreover have "b' = b1" using assms get Inr pub by (auto simp: relay_batch_def split: sum.splits prod.splits)
    ultimately show ?thesis using publish_events_sent [OF pub] by blast
  qed (use assms get in \<open>auto simp: relay_batch_def\<close>)
qed

lemma message_of_outbox:
  assumes "db_inv d" and "ev \<in> set (outbox_events d)"
  shows "from_outbox d (m_body (message_of t ev))"
proof -
  have "payload_of ev" using assms by (simp add: db_inv_def outbox_ok_def)
  then obtain e where e: "envelope_validate (o_payload ev) = Some e"
    and same: "e_event_id e = o_id ev" "e_event_type e = o_event_type ev" "e_payment_id e = o_payment_id ev"
    by (auto simp: payload_of_def split: option.splits)
  then have "envelope_validate (m_body (message_of t ev)) = Some e"
    by (simp add: message_of_def message_for_def envelope_validate_dump envelope_validate_ok)
  with same assms(2) show ?thesis unfolding from_outbox_def by auto
qed

lemma handle_broker:
  "b_messages (hd_broker (handle proc settled t body b w)) = b_messages b \<or>
     (\<exists>event. envelope_validate body = Some event \<and>
        b_messages (hd_broker (handle proc settled t body b w)) = b_messages b @ [retry_message t event])"
proof (cases "envelope_validate body")
  case (Some event)
  note ok = envelope_validate_ok [OF Some]
  have retried: "b_messages (hd_broker (retry_or_reject settled t event b w')) = b_messages b \<or>
      b_messages (hd_broker (retry_or_reject settled t event b w')) = b_messages b @ [retry_message t event]" for w'
    using ok broker_publish_cases
    by (auto simp: retry_or_reject_cases split: prod.splits sum.splits)
  obtain r w' where "proc event w = (r, w')" by (cases "proc event w")
  with Some retried [of w'] show ?thesis by (cases r) (simp_all add: handle_valid)
qed (simp add: handle_def)

lemma retry_message_outbox:
  assumes "from_outbox d body" and "envelope_validate body = Some event"
  shows "from_outbox d (m_body (retry_message t event))"
proof -
  have "envelope_validate (m_body (retry_message t event)) = Some (retry_of event)"
    using envelope_validate_ok [OF assms(2)] by (simp add: retry_message_def message_for_def envelope_validate_dump)
  with assms show ?thesis by (auto simp: from_outbox_def retry_of_def)
qed

lemma queues_ok_step:
  assumes "system_step s s'" and "db_inv (sy_database s)" and "queues_ok s"
  shows "queues_ok s'"
proof -
  have later: "from_outbox (sy_database s') body" if "from_outbox (sy_database s) body" for body
    using from_outbox_later that system_step_refines [OF assms(1,2)] assms(2) db_steps_history by blast
  have new: "\<exists>ms. b_messages (sy_broker s') = b_messages (sy_broker s) @ ms \<and>
      (\<forall>m \<in> set ms. from_outbox (sy_database s) (m_body m))"
    using assms
  proof (induction rule: system_step.induct)
    case (relay_works relay clk c s r b d)
    then show ?case using relay_batch_sent message_of_outbox by fastforce
  next
    case (worker_handles m s env h settled t)
    then have "from_outbox (sy_database s) (m_body m)" by (simp add: queues_ok_def)
    with handle_broker [of "dispatch env" settled t "m_body m" "sy_broker s" "sy_database s"] worker_handles(3)
    show ?case by (auto simp: handle_payment_queue_message_def intro: retry_message_outbox)
  qed simp_all
  with later assms(3) show ?thesis by (auto simp: queues_ok_def)
qed

lemma queues_ok_run:
  assumes "system_run s s'" and "db_inv (sy_database s)" and "queues_ok s"
  shows "queues_ok s'"
  using assms
proof (induction rule: rtranclp_induct)
  case (step s' s'')
  then have "db_inv (sy_database s')" using system_run_refines db_steps_inv by blast
  with step show ?case by (blast intro: queues_ok_step)
qed simp


subsection \<open>A run\<close>

definition stored_system :: system where
  "stored_system = \<lparr>sy_database = sample_database, sy_broker = empty_broker\<rparr>"

definition queued_system :: system where
  "queued_system = \<lparr>sy_database = sample_published, sy_broker = sample_queued\<rparr>"

lemma stored_run: "system_run fresh_installation stored_system"
proof -
  have "others_ok (n_others sample_env)" "others_ok (n_others_retry sample_env)"
    by (simp_all add: sample_env_def)
  from client_posts [OF this, of fresh_installation rev "''secret''" sample_create_request "healthy 60"]
  have "system_step fresh_installation stored_system"
    by (simp add: fresh_installation_def stored_system_def sample_post empty_broker_def)
  then show ?thesis by simp
qed

lemma queued_run: "system_run fresh_installation queued_system"
proof -
  have "system_step stored_system queued_system"
    using relay_works [of sample_relay "\<lambda>i. 70 + int i" "healthy 75" stored_system]
    by (simp add: stored_system_def queued_system_def sample_batch_run)
  with stored_run show ?thesis by simp
qed

theorem system_refines_lifecycle_witness: "db_step\<^sup>*\<^sup>* empty_database sample_published"
  using system_refines_lifecycle [OF _ queued_run] empty_database_inv
  by (simp add: fresh_installation_def queued_system_def)

theorem outbox_is_complete_witness:
  "\<exists>!ev. ev \<in> set (outbox_events sample_database) \<and> requested_by sample_payment ev"
  using outbox_is_complete [OF stored_run, of sample_payment] by (simp add: stored_system_def)


end
