(* ===== verification/End_To_End.thy ===== *)
theory End_To_End
  imports System
begin

text \<open>
  The way of one payment without faults: the API accepts it, the relay publishes its processing
  event, the worker settles it with the provider, the relay publishes the webhook event this adds,
  the worker notifies the merchant, and the API shows the outcome. The parts are the runs without
  faults of the components.
\<close>

text \<open>The request the worker sends for a payment.\<close>

definition order_request :: "payment \<Rightarrow> provider_request" where
  "order_request p = \<lparr>q_payment_id = p_id p, q_amount = p_amount p, q_currency = p_currency p\<rparr>"

lemma relay_batch_keeps:
  assumes "relay_batch relay clk c b d = (r, b', d')"
  shows "payments d' = payments d \<and> map o_id (outbox_events d') = map o_id (outbox_events d)"
  using relay_batch_left [OF assms] by (auto simp: batch_left_def Let_def payments_marked marked_ids)

lemma relay_run_keeps:
  assumes "\<forall>t \<in> set turns. healthy_turn t" and "relay_run relay turns b d = (r, b', d')" and "db_inv d"
  shows "payments d' = payments d \<and> map o_id (outbox_events d') = map o_id (outbox_events d) \<and> db_inv d'"
  using assms
proof (induction turns arbitrary: b d)
  case (Cons t turns)
  have d: "rt_others t d = d" using Cons.prems(1) by (simp add: healthy_turn_def)
  obtain x b1 d1 where batch: "relay_batch relay (rt_clock t) (rt_connection t) b d = (x, b1, d1)"
    by (cases "relay_batch relay (rt_clock t) (rt_connection t) b d")
  note keeps = relay_batch_keeps [OF batch] db_steps_inv [OF relay_batch_steps [OF Cons.prems(3) batch] Cons.prems(3)]
  from Cons.prems(2) d batch consider "(r, b', d') = (r, b1, d1)" | "relay_run relay turns b1 d1 = (r, b', d')"
    by (auto split: sum.splits if_splits)
  then show ?case using keeps Cons.IH [of b1 d1] Cons.prems(1) by cases auto
qed simp

text \<open>What a healthy relay makes of an event that is still to be published.\<close>

lemma relay_publishes:
  assumes "db_inv d" and "1 \<le> rl_batch_size relay" and "b_replies b = []" and "\<forall>t \<in> set turns. healthy_turn t"
    and "length (unpublished d) \<le> length turns * nat (rl_batch_size relay)"
  obtains b' d' where "relay_run relay turns b d = (Inr (), b', d')" "b_replies b' = []" "db_inv d'"
    "payments d' = payments d" "map o_id (outbox_events d') = map o_id (outbox_events d)" "unpublished d' = []"
    "message_of (rl_timeout_seconds relay) ` set (unpublished d) \<subseteq> set (b_messages b')"
proof -
  from relay_drains [OF assms] obtain ms d' where run: "relay_run relay turns b d = (Inr (), b\<lparr>b_messages := b_messages b @ ms\<rparr>, d')"
    and d': "unpublished d' = []" and ms: "mset ms = image_mset (message_of (rl_timeout_seconds relay)) (mset (unpublished d))"
    by blast
  have "set ms = message_of (rl_timeout_seconds relay) ` set (unpublished d)"
    using arg_cong [OF ms, of set_mset] by simp
  with run d' relay_run_keeps [OF assms(4) run assms(1)] assms(3) show thesis by (intro that [OF run]) auto
qed

text \<open>The message of an outbox event is an envelope of the event, at its first attempt.\<close>

lemma message_envelope:
  assumes "db_inv d" and "ev \<in> set (outbox_events d)"
  obtains event where "envelope_validate (m_body (message_of t ev)) = Some event"
    "e_event_type event = o_event_type ev" "e_payment_id event = o_payment_id ev" "e_event_id event = o_id ev"
    "e_attempt event = 1"
proof -
  have "payload_of ev" using assms by (simp add: db_inv_def outbox_ok_def)
  then obtain e where "envelope_validate (o_payload ev) = Some e" "e_event_type e = o_event_type ev"
    "e_payment_id e = o_payment_id ev" "e_event_id e = o_id ev" "e_attempt e = 1"
    by (auto simp: payload_of_def split: option.splits)
  then show thesis
    by (intro that [of e]) (simp_all add: message_of_def message_for_def envelope_validate_dump envelope_validate_ok)
qed

text \<open>The worker on that message, when nothing fails.\<close>

definition paid :: "provider_response \<Rightarrow> processing_env \<Rightarrow> time \<Rightarrow> payment \<Rightarrow> payment" where
  "paid resp env t p = processed_payment resp (v_processed_at env) (v_webhook_event_id env) p\<lparr>p_updated_at := t\<rparr>"

lemma paid_simps [simp]:
  "p_id (paid resp env t p) = p_id p" "p_amount (paid resp env t p) = p_amount p"
  "terminal (p_status (paid resp env t p))" "p_status (paid resp env t p) = status_for (s_status resp)"
  "p_webhook_event_id (paid resp env t p) = Some (v_webhook_event_id env)"
  "p_processed_at (paid resp env t p) = Some (v_processed_at env)"
  "p_webhook_sent_at (paid resp env t p) = p_webhook_sent_at p"
  "p_provider_payment_id (paid resp env t p) = Some (s_provider_payment_id resp)"
  by (simp_all add: paid_def processed_payment_def status_for_def)

lemma worker_settles:
  assumes "db_inv d" and "p \<in> set (payments d)" and "p_status p = PENDING" and "amount_field_ok (p_amount p)"
    and "envelope_validate body = Some event" and "e_event_type event = PAYMENT_PROCESS_REQUESTED"
    and "e_payment_id event = p_id p"
    and "v_load env = healthy t1" and "v_final env = healthy t2" and "v_others env = (\<lambda>d. d)"
    and "b_state cb = CLOSED"
    and "process_payment (v_parsedate env) client (v_started_at env) (v_attempts env) (order_request p) = (trace, Inr resp)"
    and "unused (s_provider_payment_id resp) (v_webhook_event_id env) d"
  shows "handle_payment_queue_message ((client, cb, env), wenv) (\<lambda>_. Inr ()) t body b d =
    \<lparr>hd_settlement = Some Ack, hd_result = Inr (), hd_broker = b,
     hd_world = settled_rows resp (v_processed_at env) (v_webhook_event_id env) t2 p d\<rparr>"
  using settles_run [OF assms(1-4,6-11)] assms(5,6,12,13)
  by (simp add: handle_payment_queue_message_def handle_valid dispatch_def payment_processing_def settle_def
      order_request_def)

lemma worker_notifies:
  assumes "db_inv d" and "p \<in> set (payments d)" and "terminal (p_status p)" and "amount_field_ok (p_amount p)"
    and "p_webhook_event_id p = Some (e_event_id event)" and "p_processed_at p = Some u" and "p_webhook_sent_at p = None"
    and "envelope_validate body = Some event" and "e_event_type event = WEBHOOK_DELIVERY_REQUESTED"
    and "e_payment_id event = p_id p"
    and "y_load env = healthy t1" and "y_others env = (\<lambda>d. d)" and "y_final env = healthy t2"
    and "y_answer env = Responded x" and "200 \<le> x_status_code x" and "x_status_code x < 300"
  shows "handle_payment_queue_message (penv, (client, env)) (\<lambda>_. Inr ()) t body b d =
    \<lparr>hd_settlement = Some Ack, hd_result = Inr (), hd_broker = b, hd_world = sent_row (y_now env) t2 p d\<rparr>"
proof -
  have "1 \<le> e_attempt event" using envelope_validate_ok [OF assms(8)] by (simp add: envelope_ok_def)
  from delivery_run [OF assms(1-7,9,10) this assms(11-16)] assms(8,9) show ?thesis
    by (simp add: handle_payment_queue_message_def handle_valid dispatch_def webhook_processing_def settle_def)
qed

text \<open>From the event of the creation to the settled payment.\<close>

lemma payment_is_settled:
  assumes "db_inv d" and "p \<in> set (payments d)" and "p_status p = PENDING" and "amount_field_ok (p_amount p)"
    and "ev \<in> set (unpublished d)" and "requested_by p ev"
    and "1 \<le> rl_batch_size relay" and "b_replies b = []" and "\<forall>t \<in> set turns. healthy_turn t"
    and "length (unpublished d) \<le> length turns * nat (rl_batch_size relay)"
    and "v_load env = healthy t1" and "v_final env = healthy t2" and "v_others env = (\<lambda>d. d)" and "b_state cb = CLOSED"
    and "process_payment (v_parsedate env) client (v_started_at env) (v_attempts env) (order_request p) = (trace, Inr resp)"
    and "unused (s_provider_payment_id resp) (v_webhook_event_id env) d" and "y_others wenv = (\<lambda>d. d)"
  obtains b1 d1 d2 ev' where "relay_run relay turns b d = (Inr (), b1, d1)"
    "message_of (rl_timeout_seconds relay) ev \<in> set (b_messages b1)"
    "handle_payment_queue_message ((client, cb, env), (wclient, wenv)) (\<lambda>_. Inr ()) t
        (m_body (message_of (rl_timeout_seconds relay) ev)) b1 d1 =
      \<lparr>hd_settlement = Some Ack, hd_result = Inr (), hd_broker = b1, hd_world = d2\<rparr>"
    "b_replies b1 = []" "db_inv d2" "paid resp env t2 p \<in> set (payments d2)" "unpublished d2 = [ev']"
    "o_event_type ev' = WEBHOOK_DELIVERY_REQUESTED" "o_payment_id ev' = p_id p" "o_id ev' = v_webhook_event_id env"
proof -
  let ?T = "rl_timeout_seconds relay" and ?w = "v_webhook_event_id env"
  from relay_publishes [OF assms(1,7-10)] obtain b1 d1
    where run1: "relay_run relay turns b d = (Inr (), b1, d1)" and b1: "b_replies b1 = []" and inv1: "db_inv d1"
      and d1: "payments d1 = payments d" "map o_id (outbox_events d1) = map o_id (outbox_events d)" "unpublished d1 = []"
      and sent1: "message_of ?T ` set (unpublished d) \<subseteq> set (b_messages b1)" by blast
  have "ev \<in> set (outbox_events d)" using assms(5) by (simp add: unpublished_def)
  from message_envelope [OF assms(1) this, of ?T] assms(6) obtain event
    where event: "envelope_validate (m_body (message_of ?T ev)) = Some event"
      "e_event_type event = PAYMENT_PROCESS_REQUESTED" "e_payment_id event = p_id p"
    by (metis requested_by_def)
  have "o_id ` set (outbox_events d1) = o_id ` set (outbox_events d)" using d1(2) by (metis set_map)
  with assms(16) d1(1) have new: "unused (s_provider_payment_id resp) ?w d1" by (simp add: unused_def)
  let ?d2 = "settled_rows resp (v_processed_at env) ?w t2 p d1"
  let ?ev = "created t2 (Some (v_processed_at env)) (webhook_outbox_event (webhook_envelope ?w (p_id p) (v_processed_at env)))"
  have p1: "p \<in> set (payments d1)" using assms(2) d1(1) by simp
  have first: "handle_payment_queue_message ((client, cb, env), (wclient, wenv)) (\<lambda>_. Inr ()) t (m_body (message_of ?T ev)) b1 d1 =
      \<lparr>hd_settlement = Some Ack, hd_result = Inr (), hd_broker = b1, hd_world = ?d2\<rparr>"
    by (rule worker_settles [OF inv1 p1 assms(3,4) event assms(11-15) new])
  have "dispatch_admissible ((client, cb, env), (wclient, wenv))"
    by (simp add: dispatch_admissible_def processing_admissible_def delivery_admissible_def assms(13,17))
  from dispatcher.handle_moves [OF inv1 this, of "\<lambda>_. Inr ()" t "m_body (message_of ?T ev)" b1]
  have inv2: "db_inv ?d2"
    using db_steps_inv [OF _ inv1] first by (simp add: handle_payment_queue_message_def)
  have d2: "payments ?d2 = replace_row p_id (paid resp env t2 p) (payments d1)" "outbox_events ?d2 = outbox_events d1 @ [?ev]"
    by (simp_all add: settled_rows_def with_resolution_def paid_def)
  have unpub: "unpublished ?d2 = [?ev]"
    using d1(3) by (simp add: unpublished_def d2(2) created_def webhook_outbox_event_def)
  have paid: "paid resp env t2 p \<in> set (payments ?d2)" using p1 by (simp add: d2(1) set_replace_row)
  have sent: "message_of ?T ev \<in> set (b_messages b1)" using sent1 assms(5) by blast
  have ev': "o_event_type ?ev = WEBHOOK_DELIVERY_REQUESTED" "o_payment_id ?ev = p_id p" "o_id ?ev = ?w"
    by (simp_all add: created_def webhook_outbox_event_def webhook_envelope_def)
  show thesis by (rule that [OF run1 sent first b1 inv2 paid unpub ev'])
qed

text \<open>From the event of the settlement to the notified merchant.\<close>

lemma merchant_is_notified:
  assumes "db_inv d" and "p \<in> set (payments d)" and "terminal (p_status p)" and "amount_field_ok (p_amount p)"
    and "p_webhook_event_id p = Some (o_id ev)" and "p_processed_at p = Some u" and "p_webhook_sent_at p = None"
    and "unpublished d = [ev]" and "o_event_type ev = WEBHOOK_DELIVERY_REQUESTED" and "o_payment_id ev = p_id p"
    and "1 \<le> rl_batch_size relay" and "b_replies b = []" and "\<forall>t \<in> set turns. healthy_turn t" and "turns \<noteq> []"
    and "y_load wenv = healthy t3" and "y_others wenv = (\<lambda>d. d)" and "y_final wenv = healthy t4"
    and "y_answer wenv = Responded x" and "200 \<le> x_status_code x" and "x_status_code x < 300"
    and "dispatch_admissible (penv, (wclient, wenv))"
  obtains b1 d1 d2 where "relay_run relay turns b d = (Inr (), b1, d1)"
    "message_of (rl_timeout_seconds relay) ev \<in> set (b_messages b1)"
    "handle_payment_queue_message (penv, (wclient, wenv)) (\<lambda>_. Inr ()) t
        (m_body (message_of (rl_timeout_seconds relay) ev)) b1 d1 =
      \<lparr>hd_settlement = Some Ack, hd_result = Inr (), hd_broker = b1, hd_world = d2\<rparr>"
    "p\<lparr>p_webhook_sent_at := Some (y_now wenv), p_updated_at := t4\<rparr> \<in> set (payments d2)" "db_inv d2"
proof -
  let ?T = "rl_timeout_seconds relay"
  have "length (unpublished d) \<le> length turns * nat (rl_batch_size relay)"
    using assms(11,14) by (simp add: assms(8) Suc_le_eq)
  then obtain b1 d1
    where run: "relay_run relay turns b d = (Inr (), b1, d1)" and "b_replies b1 = []" and inv1: "db_inv d1"
      and d1: "payments d1 = payments d" and "map o_id (outbox_events d1) = map o_id (outbox_events d)"
      and "unpublished d1 = []" and "message_of ?T ` set (unpublished d) \<subseteq> set (b_messages b1)"
    by (rule relay_publishes [OF assms(1,11,12,13)])
  then have sent: "message_of ?T ev \<in> set (b_messages b1)" by (simp add: assms(8))
  have "ev \<in> set (unpublished d)" by (simp add: assms(8))
  then have "ev \<in> set (outbox_events d)" by (simp add: unpublished_def)
  from message_envelope [OF assms(1) this, of ?T] obtain event
    where event: "envelope_validate (m_body (message_of ?T ev)) = Some event"
      "e_event_type event = WEBHOOK_DELIVERY_REQUESTED" "e_payment_id event = p_id p" "e_event_id event = o_id ev"
    using assms(9,10) by metis
  have p1: "p \<in> set (payments d1)" by (simp add: d1 assms(2))
  have "p_webhook_event_id p = Some (e_event_id event)" by (simp add: event(4) assms(5))
  note second = worker_notifies [OF inv1 p1 assms(3,4) this assms(6,7) event(1-3) assms(15-20)]
  have "p\<lparr>p_webhook_sent_at := Some (y_now wenv), p_updated_at := t4\<rparr> \<in> set (payments (sent_row (y_now wenv) t4 p d1))"
    using imageI [OF p1, of p_id] by (simp add: sent_row_def set_replace_row)
  moreover have "db_inv (sent_row (y_now wenv) t4 p d1)"
    using dispatcher.handle_moves [OF inv1 assms(21), of "\<lambda>_. Inr ()" t "m_body (message_of ?T ev)" b1]
      db_steps_inv [OF _ inv1] second [of penv wclient t b1]
    by (simp add: handle_payment_queue_message_def)
  ultimately show thesis using run sent second by (intro that)
qed

text \<open>Both, from the relay's first turn to the acknowledgement of the webhook event.\<close>

lemma payment_processed_and_notified:
  assumes "db_inv d" and "p \<in> set (payments d)" and "p_status p = PENDING" and "amount_field_ok (p_amount p)"
    and "ev \<in> set (unpublished d)" and "requested_by p ev"
    and "1 \<le> rl_batch_size relay" and "b_replies b = []" and "\<forall>t \<in> set (turns @ turns'). healthy_turn t"
    and "length (unpublished d) \<le> length turns * nat (rl_batch_size relay)" and "turns' \<noteq> []"
    and "v_load env = healthy t1" and "v_final env = healthy t2" and "v_others env = (\<lambda>d. d)" and "b_state cb = CLOSED"
    and "process_payment (v_parsedate env) client (v_started_at env) (v_attempts env) (order_request p) = (trace, Inr resp)"
    and "unused (s_provider_payment_id resp) (v_webhook_event_id env) d"
    and "y_load wenv = healthy t3" and "y_others wenv = (\<lambda>d. d)" and "y_final wenv = healthy t4"
    and "y_answer wenv = Responded x" and "200 \<le> x_status_code x" and "x_status_code x < 300"
  obtains b1 d1 d2 ev' b3 d3 d4 where "relay_run relay turns b d = (Inr (), b1, d1)"
    "message_of (rl_timeout_seconds relay) ev \<in> set (b_messages b1)"
    "handle_payment_queue_message ((client, cb, env), (wclient, wenv)) (\<lambda>_. Inr ()) t
        (m_body (message_of (rl_timeout_seconds relay) ev)) b1 d1 =
      \<lparr>hd_settlement = Some Ack, hd_result = Inr (), hd_broker = b1, hd_world = d2\<rparr>"
    "relay_run relay turns' b1 d2 = (Inr (), b3, d3)"
    "message_of (rl_timeout_seconds relay) ev' \<in> set (b_messages b3)"
    "handle_payment_queue_message ((client, cb, env), (wclient, wenv)) (\<lambda>_. Inr ()) t
        (m_body (message_of (rl_timeout_seconds relay) ev')) b3 d3 =
      \<lparr>hd_settlement = Some Ack, hd_result = Inr (), hd_broker = b3, hd_world = d4\<rparr>"
    "paid resp env t2 p\<lparr>p_webhook_sent_at := Some (y_now wenv), p_updated_at := t4\<rparr> \<in> set (payments d4)" "db_inv d4"
proof -
  from assms(9) have healthy: "\<forall>t \<in> set turns. healthy_turn t" "\<forall>t \<in> set turns'. healthy_turn t" by auto
  let ?p = "paid resp env t2 p"
  obtain b1 d1 d2 ev' where first: "relay_run relay turns b d = (Inr (), b1, d1)"
      "message_of (rl_timeout_seconds relay) ev \<in> set (b_messages b1)"
      "handle_payment_queue_message ((client, cb, env), (wclient, wenv)) (\<lambda>_. Inr ()) t
          (m_body (message_of (rl_timeout_seconds relay) ev)) b1 d1 =
        \<lparr>hd_settlement = Some Ack, hd_result = Inr (), hd_broker = b1, hd_world = d2\<rparr>"
    and b1: "b_replies b1 = []" and d2: "db_inv d2" "?p \<in> set (payments d2)" "unpublished d2 = [ev']"
    and ev': "o_event_type ev' = WEBHOOK_DELIVERY_REQUESTED" "o_payment_id ev' = p_id p"
      "o_id ev' = v_webhook_event_id env"
    by (rule payment_is_settled [OF assms(1-8) healthy(1) assms(10,12-17,19)])
  have i: "o_payment_id ev' = p_id ?p" by (simp add: ev'(2))
  have "row_ok p" using assms(1,2) by (simp add: db_inv_def)
  then have unsent: "p_webhook_sent_at ?p = None" using assms(3) by (simp add: row_ok_open)
  have amount: "amount_field_ok (p_amount ?p)" using assms(4) by simp
  have event: "p_webhook_event_id ?p = Some (o_id ev')" by (simp add: ev'(3))
  have adm: "dispatch_admissible ((client, cb, env), (wclient, wenv))"
    by (simp add: dispatch_admissible_def processing_admissible_def delivery_admissible_def assms(14,19))
  show thesis
    by (rule merchant_is_notified [OF d2(1,2) paid_simps(3) amount event paid_simps(6) unsent d2(3) ev'(1) i assms(7) b1
          healthy(2) assms(11,18-23) adm]) (rule that [OF first])
qed

text \<open>The request that creates the payment.\<close>

lemma payment_is_posted:
  assumes "db_inv d" and "is_ascii expected" and "payment_create_ok data" and "idempotency_header_ok key" and "strip key \<noteq> []"
    and "build_request_fingerprint sha256 data = Inr f" and "strip key \<notin> p_idempotency_key ` set (payments d)"
    and "n_payment_id cenv \<notin> p_id ` set (payments d)" and "n_event_id cenv \<notin> o_id ` set (outbox_events d)"
    and "n_others cenv = (\<lambda>d. d)" and "p = new_row cenv now data (strip key) f"
  shows "post_payments sha256 expected cenv
      \<lparr>g_api_key = Some expected, g_idempotency_key = Some key, g_body = Json (Some data)\<rparr> (healthy now) d =
      (Inr \<lparr>ar_status_code = 202, ar_body = Accepted \<lparr>pa_payment_id = p_id p, pa_status = PUBLIC_PENDING,
         pa_created_at = now\<rparr>, ar_request_id = None\<rparr>, with_payment cenv p d)"
    and "db_inv (with_payment cenv p d)"
proof -
  have c: "constraints_ok d" using assms(1) by (simp add: db_inv_def)
  have run: "in_session (create_payment sha256 cenv data (strip key)) (healthy now) d =
      (Inr \<lparr>cr_payment = p, cr_created = True\<rparr>, with_payment cenv p d)"
    unfolding assms(11) by (rule first_run [OF c assms(6-10)])
  from create_endpoint_cases [OF assms(5) run]
  show "post_payments sha256 expected cenv
      \<lparr>g_api_key = Some expected, g_idempotency_key = Some key, g_body = Json (Some data)\<rparr> (healthy now) d =
      (Inr \<lparr>ar_status_code = 202, ar_body = Accepted \<lparr>pa_payment_id = p_id p, pa_status = PUBLIC_PENDING,
         pa_created_at = now\<rparr>, ar_request_id = None\<rparr>, with_payment cenv p d)"
    by (simp add: post_payments_run [OF assms(2) _ _ _ assms(3,4)])
      (simp add: assms(11) new_row_def build_payment_def)
  have "db_step d (with_payment cenv p d)"
    using with_payment_step [of p d cenv now data "strip key" f] assms(7-9,11) by (simp add: insert_new_row)
  then show "db_inv (with_payment cenv p d)" using assms(1) by (rule db_step_inv)
qed



end
