(* ===== verification/Mock_Provider.thy ===== *)
theory Mock_Provider
  imports Webhook_Client "HOL-Library.Multiset"
begin

text \<open>
  \<open>mock-provider/app\<close>: the payment provider of the test environment, with its idempotency
  records, its lock per idempotency key and its captured webhooks.

  \<^item> \<open>mock\<close> is the module's state. The dictionary of locks holds references: \<open>entries\<close> is the
    heap of \<open>IdempotencyLockEntry\<close> objects, a reference its index, so that the test
    \<open>is lock_entry\<close> is equality of references. \<open>asyncio.Lock\<close> is its \<open>locked\<close> flag; which of
    the waiting coroutines gets it is left open.
  \<^item> A run of \<open>process_payment\<close> is cut at its \<open>await\<close>s: \<open>begin_processing\<close>, \<open>enter\<close>, \<open>acquire\<close>,
    \<open>locked_section\<close> with \<open>leave\<close>, and the answer. \<open>mock_step\<close> interleaves any number of runs with
    each other, with cancellations and with the other endpoints; \<open>mock_process_payment\<close> is a run
    on its own.
\<close>

subsection \<open>Schemas\<close>

datatype mock_scenario =
    SCENARIO_APPROVED | SCENARIO_DECLINED | ERROR_BEFORE_PROCESSING | TIMEOUT_BEFORE_PROCESSING
  | TIMEOUT_AFTER_PROCESSING | MALFORMED_RESPONSE

fun mock_scenario_value :: "mock_scenario \<Rightarrow> string" where
  "mock_scenario_value SCENARIO_APPROVED = ''approved''"
| "mock_scenario_value SCENARIO_DECLINED = ''declined''"
| "mock_scenario_value ERROR_BEFORE_PROCESSING = ''error-before-processing''"
| "mock_scenario_value TIMEOUT_BEFORE_PROCESSING = ''timeout-before-processing''"
| "mock_scenario_value TIMEOUT_AFTER_PROCESSING = ''timeout-after-processing''"
| "mock_scenario_value MALFORMED_RESPONSE = ''malformed-response''"

abbreviation mock_scenarios :: "mock_scenario list" where
  "mock_scenarios \<equiv>
     [SCENARIO_APPROVED, SCENARIO_DECLINED, ERROR_BEFORE_PROCESSING, TIMEOUT_BEFORE_PROCESSING,
      TIMEOUT_AFTER_PROCESSING, MALFORMED_RESPONSE]"

definition MockScenario :: "string \<Rightarrow> mock_scenario option" where
  "MockScenario = enum_lookup mock_scenarios mock_scenario_value"

interpretation mock_scenario_enum: str_enum mock_scenarios mock_scenario_value
proof
  show "m \<in> set mock_scenarios" for m by (cases m) auto
qed simp

text \<open>A \<open>Literal\<close> field is a string that is one of the listed ones.\<close>

record mock_request =
  m_payment_id :: uuid
  m_amount :: decimal
  m_currency :: string

definition ProcessPaymentRequest :: "mock_request \<Rightarrow> bool" where
  "ProcessPaymentRequest r \<longleftrightarrow> amount_field_ok (m_amount r) \<and> m_currency r \<in> set [''RUB'', ''USD'', ''EUR'']"

text \<open>\<open>!=\<close> of two requests compares the fields; decimals compare by value.\<close>

definition same_mock_request :: "mock_request \<Rightarrow> mock_request \<Rightarrow> bool" where
  "same_mock_request r r' \<longleftrightarrow>
     m_payment_id r = m_payment_id r' \<and> decimal_eq (m_amount r) (m_amount r') \<and> m_currency r = m_currency r'"

record mock_response =
  ms_provider_payment_id :: uuid
  ms_status :: string

definition ProcessPaymentResponse :: "mock_response \<Rightarrow> bool" where
  "ProcessPaymentResponse r \<longleftrightarrow> ms_status r \<in> set [''approved'', ''declined'']"

record captured_payload =
  cp_event_id :: uuid
  cp_event_type :: string
  cp_payment_id :: uuid
  cp_status :: string
  cp_amount :: decimal
  cp_currency :: string
  cp_processed_at :: time
  cp_metadata :: dict

definition CapturedWebhookPayload :: "captured_payload \<Rightarrow> bool" where
  "CapturedWebhookPayload p \<longleftrightarrow>
     cp_event_type p \<in> set [''payment.succeeded'', ''payment.failed''] \<and>
     cp_status p \<in> set [''succeeded'', ''failed''] \<and> amount_field_ok (cp_amount p) \<and>
     cp_currency p \<in> set [''RUB'', ''USD'', ''EUR'']"

record captured_webhook =
  cw_payload :: captured_payload
  cw_webhook_id :: uuid
  cw_attempt :: int

subsection \<open>State\<close>

record idempotency_record =
  ir_request :: mock_request
  ir_response :: mock_response

record lock_entry =
  le_locked :: bool
  le_users :: int

record mock =
  idempotency_records :: "uuid \<Rightarrow> idempotency_record option"
  idempotency_locks :: "uuid \<Rightarrow> nat option"
  entries :: "lock_entry list"
  default_scenario :: "mock_scenario option"
  captured_webhooks :: "string \<Rightarrow> captured_webhook list option"

definition fresh_mock :: mock where
  "fresh_mock = \<lparr>idempotency_records = Map.empty, idempotency_locks = Map.empty, entries = [],
     default_scenario = None, captured_webhooks = Map.empty\<rparr>"

subsection \<open>The test endpoints\<close>

datatype reply_body = Payment_body mock_response | Status_only string | Detail string

record mock_reply =
  y_status_code :: int
  y_body :: reply_body

definition set_default_scenario :: "mock_scenario \<Rightarrow> mock \<Rightarrow> string \<times> mock" where
  "set_default_scenario scenario m = (mock_scenario_value scenario, m\<lparr>default_scenario := Some scenario\<rparr>)"

definition clear_default_scenario :: "mock \<Rightarrow> int \<times> mock" where
  "clear_default_scenario m = (204, m\<lparr>default_scenario := None\<rparr>)"

text \<open>A request that fails validation is answered 422 before the endpoint runs.\<close>

definition capture_webhook :: "string \<Rightarrow> captured_payload \<Rightarrow> uuid \<Rightarrow> int \<Rightarrow> mock \<Rightarrow> int \<times> mock" where
  "capture_webhook capture_id payload webhook_id attempt m =
     (if \<not> CapturedWebhookPayload payload \<or> attempt < 1 then (422, m)
      else
        (let delivery = \<lparr>cw_payload = payload, cw_webhook_id = webhook_id, cw_attempt = attempt\<rparr>;
             deliveries = (case captured_webhooks m capture_id of None \<Rightarrow> [] | Some ds \<Rightarrow> ds)
         in (204, m\<lparr>captured_webhooks := (captured_webhooks m)(capture_id \<mapsto> deliveries @ [delivery])\<rparr>)))"

definition get_captured_webhooks :: "string \<Rightarrow> mock \<Rightarrow> captured_webhook list" where
  "get_captured_webhooks capture_id m =
     (case captured_webhooks m capture_id of None \<Rightarrow> [] | Some ds \<Rightarrow> ds)"

definition clear_captured_webhooks :: "string \<Rightarrow> mock \<Rightarrow> int \<times> mock" where
  "clear_captured_webhooks capture_id m =
     (204, m\<lparr>captured_webhooks := (captured_webhooks m)(capture_id := None)\<rparr>)"

definition mock_get_payment :: "uuid \<Rightarrow> mock \<Rightarrow> mock_reply" where
  "mock_get_payment idempotency_key m =
     (case idempotency_records m idempotency_key of
        None \<Rightarrow> \<lparr>y_status_code = 404, y_body = Detail ''Payment not found''\<rparr>
      | Some record \<Rightarrow> \<lparr>y_status_code = 200, y_body = Payment_body (ir_response record)\<rparr>)"

subsection \<open>Processing a payment\<close>

text \<open>Up to the first suspension: an answer, or a sleep that ends in an answer, or in the lock,
  or the lock at once.\<close>

datatype beginning = Refuse mock_reply | Sleep_then_refuse mock_reply | Sleep_then_enter | Enter

definition effective_scenario :: "mock_scenario option \<Rightarrow> mock \<Rightarrow> mock_scenario option" where
  "effective_scenario mock_scenario m =
     (if mock_scenario \<noteq> None then mock_scenario else default_scenario m)"

definition begin_processing :: "mock_request \<Rightarrow> uuid \<Rightarrow> mock_scenario option \<Rightarrow> beginning" where
  "begin_processing payment idempotency_key scenario =
     (if idempotency_key \<noteq> m_payment_id payment then
        Refuse \<lparr>y_status_code = 422, y_body = Detail ''Idempotency-Key must match payment_id''\<rparr>
      else if scenario = Some ERROR_BEFORE_PROCESSING then
        Refuse \<lparr>y_status_code = 503, y_body = Detail ''Mock provider unavailable before processing''\<rparr>
      else if scenario = Some TIMEOUT_BEFORE_PROCESSING then
        Sleep_then_refuse \<lparr>y_status_code = 504, y_body = Detail ''Mock provider timed out before processing''\<rparr>
      else if scenario = None then Sleep_then_enter
      else Enter)"

definition enter :: "uuid \<Rightarrow> mock \<Rightarrow> nat \<times> mock" where
  "enter idempotency_key m =
     (let (r, m1) =
        (case idempotency_locks m idempotency_key of
           Some r \<Rightarrow> (r, m)
         | None \<Rightarrow>
             (let r = length (entries m)
              in (r, m\<lparr>entries := entries m @ [\<lparr>le_locked = False, le_users = 0\<rparr>],
                       idempotency_locks := (idempotency_locks m)(idempotency_key \<mapsto> r)\<rparr>)))
      in (r, m1\<lparr>entries := (entries m1)[r := (entries m1 ! r)\<lparr>le_users := le_users (entries m1 ! r) + 1\<rparr>]\<rparr>))"

definition set_locked :: "bool \<Rightarrow> nat \<Rightarrow> mock \<Rightarrow> mock" where
  "set_locked locked r m = m\<lparr>entries := (entries m)[r := (entries m ! r)\<lparr>le_locked := locked\<rparr>]\<rparr>"

text \<open>\<open>None\<close>: the lock is taken, the coroutine waits.\<close>

definition acquire :: "nat \<Rightarrow> mock \<Rightarrow> mock option" where
  "acquire r m = (if le_locked (entries m ! r) then None else Some (set_locked True r m))"

text \<open>The body of \<open>async with\<close>, given \<open>random.random()\<close> and \<open>uuid4()\<close>: a return or an exception,
  or the new response with the two flags.\<close>

datatype section_result = Returned mock_reply | Recorded mock_response bool bool

definition locked_section ::
  "real \<Rightarrow> uuid \<Rightarrow> mock_request \<Rightarrow> uuid \<Rightarrow> mock_scenario option \<Rightarrow> mock \<Rightarrow> section_result \<times> mock" where
  "locked_section random_value new_id payment idempotency_key scenario m =
     (case idempotency_records m idempotency_key of
        Some existing_record \<Rightarrow>
          (if \<not> same_mock_request (ir_request existing_record) payment then
             (Returned \<lparr>y_status_code = 409,
                y_body = Detail ''Idempotency key was already used with a different payment payload''\<rparr>, m)
           else (Returned \<lparr>y_status_code = 200, y_body = Payment_body (ir_response existing_record)\<rparr>, m))
      | None \<Rightarrow>
          (let provider_status =
                 (if scenario = Some SCENARIO_DECLINED then ''declined''
                  else if scenario \<in> {Some SCENARIO_APPROVED, Some TIMEOUT_AFTER_PROCESSING, Some MALFORMED_RESPONSE}
                  then ''approved''
                  else if random_value < 9 / 10 then ''approved'' else ''declined'');
               response = \<lparr>ms_provider_payment_id = new_id, ms_status = provider_status\<rparr>
           in (Recorded response (scenario = Some TIMEOUT_AFTER_PROCESSING) (scenario = Some MALFORMED_RESPONSE),
               m\<lparr>idempotency_records :=
                   (idempotency_records m)(idempotency_key \<mapsto> \<lparr>ir_request = payment, ir_response = response\<rparr>)\<rparr>)))"

text \<open>The \<open>finally\<close> block.\<close>

definition leave :: "uuid \<Rightarrow> nat \<Rightarrow> mock \<Rightarrow> mock" where
  "leave idempotency_key r m =
     (let m1 = m\<lparr>entries := (entries m)[r := (entries m ! r)\<lparr>le_users := le_users (entries m ! r) - 1\<rparr>]\<rparr>
      in if le_users (entries m1 ! r) = 0 \<and> idempotency_locks m1 idempotency_key = Some r
         then m1\<lparr>idempotency_locks := (idempotency_locks m1)(idempotency_key := None)\<rparr>
         else m1)"

definition last_answer :: "mock_response \<Rightarrow> bool \<Rightarrow> mock_reply" where
  "last_answer response should_return_malformed_response =
     (if should_return_malformed_response
      then \<lparr>y_status_code = 200, y_body = Status_only ''approved''\<rparr>
      else \<lparr>y_status_code = 200, y_body = Payment_body response\<rparr>)"

text \<open>One run on its own, validation of the body included.\<close>

definition mock_process_payment ::
  "real \<Rightarrow> uuid \<Rightarrow> mock_request \<Rightarrow> uuid \<Rightarrow> mock_scenario option \<Rightarrow> mock \<Rightarrow> mock_reply option \<times> mock" where
  "mock_process_payment random_value new_id payment idempotency_key mock_scenario m =
     (if \<not> ProcessPaymentRequest payment then
        (Some \<lparr>y_status_code = 422, y_body = Detail ''validation''\<rparr>, m)
      else
        (let scenario = effective_scenario mock_scenario m;
             locked = (\<lambda>_.
               (case enter idempotency_key m of
                  (r, m1) \<Rightarrow>
                    (case acquire r m1 of
                       None \<Rightarrow> (None, m1)
                     | Some m2 \<Rightarrow>
                         (case locked_section random_value new_id payment idempotency_key scenario m2 of
                            (result, m3) \<Rightarrow>
                              (Some (case result of
                                       Returned reply \<Rightarrow> reply
                                     | Recorded response _ malformed \<Rightarrow> last_answer response malformed),
                               leave idempotency_key r (set_locked False r m3))))))
         in case begin_processing payment idempotency_key scenario of
              Refuse reply \<Rightarrow> (Some reply, m)
            | Sleep_then_refuse reply \<Rightarrow> (Some reply, m)
            | Sleep_then_enter \<Rightarrow> locked ()
            | Enter \<Rightarrow> locked ()))"

subsection \<open>Any number of concurrent runs\<close>

datatype phase =
    Sleeping_refusal mock_reply | Sleeping | Waiting nat | Holding nat | Answering mock_reply

record handler =
  hl_payment :: mock_request
  hl_key :: uuid
  hl_scenario :: "mock_scenario option"
  hl_phase :: phase

record mock_system =
  sys_mock :: mock
  handlers :: "handler multiset"

datatype mock_event = Answered mock_request uuid mock_reply | Looked_up uuid mock_reply | Silent

definition started_handler :: "mock_request \<Rightarrow> uuid \<Rightarrow> mock_scenario option \<Rightarrow> phase \<Rightarrow> handler" where
  "started_handler payment key scenario ph =
     \<lparr>hl_payment = payment, hl_key = key, hl_scenario = scenario, hl_phase = ph\<rparr>"

text \<open>The answer of a run goes out at once, or after the delay of its scenario.\<close>

definition section_answer :: "section_result \<Rightarrow> mock_reply" where
  "section_answer result =
     (case result of Returned reply \<Rightarrow> reply | Recorded response _ malformed \<Rightarrow> last_answer response malformed)"

definition delayed :: "section_result \<Rightarrow> bool" where
  "delayed result = (case result of Returned _ \<Rightarrow> False | Recorded _ delay _ \<Rightarrow> delay)"

definition cancelled_mock :: "handler \<Rightarrow> mock \<Rightarrow> mock" where
  "cancelled_mock h m = (case hl_phase h of Waiting r \<Rightarrow> leave (hl_key h) r m | _ \<Rightarrow> m)"

inductive mock_step :: "mock_system \<Rightarrow> mock_event \<Rightarrow> mock_system \<Rightarrow> bool" where
  refused: "begin_processing p k (effective_scenario x m) = Refuse y \<Longrightarrow>
     mock_step \<lparr>sys_mock = m, handlers = H\<rparr> (Answered p k y) \<lparr>sys_mock = m, handlers = H\<rparr>"
| asleep_refusal: "sc = effective_scenario x m \<Longrightarrow> begin_processing p k sc = Sleep_then_refuse y \<Longrightarrow>
     mock_step \<lparr>sys_mock = m, handlers = H\<rparr> Silent
       \<lparr>sys_mock = m, handlers = add_mset (started_handler p k sc (Sleeping_refusal y)) H\<rparr>"
| asleep: "sc = effective_scenario x m \<Longrightarrow> begin_processing p k sc = Sleep_then_enter \<Longrightarrow>
     mock_step \<lparr>sys_mock = m, handlers = H\<rparr> Silent
       \<lparr>sys_mock = m, handlers = add_mset (started_handler p k sc Sleeping) H\<rparr>"
| entered: "sc = effective_scenario x m \<Longrightarrow> begin_processing p k sc = Enter \<Longrightarrow> enter k m = (r, m') \<Longrightarrow>
     mock_step \<lparr>sys_mock = m, handlers = H\<rparr> Silent
       \<lparr>sys_mock = m', handlers = add_mset (started_handler p k sc (Waiting r)) H\<rparr>"
| woken_refusal: "hl_phase h = Sleeping_refusal y \<Longrightarrow>
     mock_step \<lparr>sys_mock = m, handlers = add_mset h H\<rparr> (Answered (hl_payment h) (hl_key h) y)
       \<lparr>sys_mock = m, handlers = H\<rparr>"
| woken: "hl_phase h = Sleeping \<Longrightarrow> enter (hl_key h) m = (r, m') \<Longrightarrow>
     mock_step \<lparr>sys_mock = m, handlers = add_mset h H\<rparr> Silent
       \<lparr>sys_mock = m', handlers = add_mset (h\<lparr>hl_phase := Waiting r\<rparr>) H\<rparr>"
| acquired: "hl_phase h = Waiting r \<Longrightarrow> acquire r m = Some m' \<Longrightarrow>
     mock_step \<lparr>sys_mock = m, handlers = add_mset h H\<rparr> Silent
       \<lparr>sys_mock = m', handlers = add_mset (h\<lparr>hl_phase := Holding r\<rparr>) H\<rparr>"
| left: "hl_phase h = Holding r \<Longrightarrow>
     locked_section u i (hl_payment h) (hl_key h) (hl_scenario h) m = (result, m') \<Longrightarrow> \<not> delayed result \<Longrightarrow>
     mock_step \<lparr>sys_mock = m, handlers = add_mset h H\<rparr>
       (Answered (hl_payment h) (hl_key h) (section_answer result))
       \<lparr>sys_mock = leave (hl_key h) r (set_locked False r m'), handlers = H\<rparr>"
| left_delayed: "hl_phase h = Holding r \<Longrightarrow>
     locked_section u i (hl_payment h) (hl_key h) (hl_scenario h) m = (result, m') \<Longrightarrow> delayed result \<Longrightarrow>
     mock_step \<lparr>sys_mock = m, handlers = add_mset h H\<rparr> Silent
       \<lparr>sys_mock = leave (hl_key h) r (set_locked False r m'),
        handlers = add_mset (h\<lparr>hl_phase := Answering (section_answer result)\<rparr>) H\<rparr>"
| answered: "hl_phase h = Answering y \<Longrightarrow>
     mock_step \<lparr>sys_mock = m, handlers = add_mset h H\<rparr> (Answered (hl_payment h) (hl_key h) y)
       \<lparr>sys_mock = m, handlers = H\<rparr>"
| cancelled: "(\<And>r. hl_phase h \<noteq> Holding r) \<Longrightarrow>
     mock_step \<lparr>sys_mock = m, handlers = add_mset h H\<rparr> Silent
       \<lparr>sys_mock = cancelled_mock h m, handlers = H\<rparr>"
| looked_up: "mock_step \<lparr>sys_mock = m, handlers = H\<rparr> (Looked_up k (mock_get_payment k m)) \<lparr>sys_mock = m, handlers = H\<rparr>"
| tested: "m' \<in> {snd (set_default_scenario sc m), snd (clear_default_scenario m),
       snd (capture_webhook c p i a m), snd (clear_captured_webhooks c m)} \<Longrightarrow>
     mock_step \<lparr>sys_mock = m, handlers = H\<rparr> Silent \<lparr>sys_mock = m', handlers = H\<rparr>"

inductive mock_run :: "mock_system \<Rightarrow> mock_event list \<Rightarrow> mock_system \<Rightarrow> bool" where
  mock_nil: "mock_run s [] s"
| mock_snoc: "mock_run s evs s' \<Longrightarrow> mock_step s' ev s'' \<Longrightarrow> mock_run s (evs @ [ev]) s''"

definition fresh_system :: mock_system where
  "fresh_system = \<lparr>sys_mock = fresh_mock, handlers = {#}\<rparr>"

subsection \<open>The locks\<close>

definition uses :: "nat \<Rightarrow> handler \<Rightarrow> bool" where
  "uses r h \<longleftrightarrow> hl_phase h = Waiting r \<or> hl_phase h = Holding r"

abbreviation users :: "nat \<Rightarrow> handler multiset \<Rightarrow> nat" where
  "users r H \<equiv> size (filter_mset (uses r) H)"

abbreviation holders :: "nat \<Rightarrow> handler multiset \<Rightarrow> nat" where
  "holders r H \<equiv> size (filter_mset (\<lambda>h. hl_phase h = Holding r) H)"

text \<open>A run that uses a lock uses the one the table has for its key; an entry of the table counts
  its runs, at least one, and is locked exactly when one of them holds it.\<close>

definition locks_ok :: "mock \<Rightarrow> handler multiset \<Rightarrow> bool" where
  "locks_ok m H \<longleftrightarrow>
     (\<forall>h r. h \<in># H \<and> uses r h \<longrightarrow> idempotency_locks m (hl_key h) = Some r) \<and>
     (\<forall>k r. idempotency_locks m k = Some r \<longrightarrow>
        r < length (entries m) \<and> (\<forall>k'. idempotency_locks m k' = Some r \<longrightarrow> k' = k) \<and>
        0 < users r H \<and> le_users (entries m ! r) = int (users r H) \<and>
        holders r H = (if le_locked (entries m ! r) then 1 else 0))"

lemma locks_okD:
  assumes "locks_ok m H"
  shows "h \<in># H \<Longrightarrow> uses r h \<Longrightarrow> idempotency_locks m (hl_key h) = Some r"
    and "idempotency_locks m k = Some r \<Longrightarrow> r < length (entries m)"
    and "idempotency_locks m k = Some r \<Longrightarrow> idempotency_locks m k' = Some r \<Longrightarrow> k' = k"
    and "idempotency_locks m k = Some r \<Longrightarrow> 0 < users r H \<and> le_users (entries m ! r) = int (users r H)"
    and "idempotency_locks m k = Some r \<Longrightarrow> holders r H = (if le_locked (entries m ! r) then 1 else 0)"
  using assms unfolding locks_ok_def by blast+

lemma locks_okI:
  assumes "\<And>h r. h \<in># H \<Longrightarrow> uses r h \<Longrightarrow> idempotency_locks m (hl_key h) = Some r"
    and "\<And>k r. idempotency_locks m k = Some r \<Longrightarrow> r < length (entries m)"
    and "\<And>k k' r. idempotency_locks m k = Some r \<Longrightarrow> idempotency_locks m k' = Some r \<Longrightarrow> k' = k"
    and "\<And>k r. idempotency_locks m k = Some r \<Longrightarrow> 0 < users r H \<and> le_users (entries m ! r) = int (users r H)"
    and "\<And>k r. idempotency_locks m k = Some r \<Longrightarrow> holders r H = (if le_locked (entries m ! r) then 1 else 0)"
  shows "locks_ok m H"
  using assms unfolding locks_ok_def by blast

lemma locks_ok_same:
  "idempotency_locks m' = idempotency_locks m \<Longrightarrow> entries m' = entries m \<Longrightarrow> locks_ok m' H = locks_ok m H"
  by (simp add: locks_ok_def)

lemma locks_ok_idle: "(\<And>r. \<not> uses r h) \<Longrightarrow> locks_ok m (add_mset h H) = locks_ok m H"
  by (auto simp: locks_ok_def uses_def)

declare filter_mset_eq_mempty_iff [simp del]

lemma unused_entry: "locks_ok m H \<Longrightarrow> r \<notin> ran (idempotency_locks m) \<Longrightarrow> filter_mset (uses r) H = {#}"
  by (auto simp: filter_mset_eq_mempty_iff ranI dest: locks_okD(1))

lemma unheld_entry: "filter_mset (uses r) H = {#} \<Longrightarrow> holders r H = 0"
  by (auto simp: filter_mset_eq_mempty_iff uses_def)

lemma enter_locks:
  assumes ok: "locks_ok m H" and m': "enter (hl_key h) m = (r, m')" and h: "hl_phase h = Waiting r"
  shows "locks_ok m' (add_mset h H)"
proof (cases "idempotency_locks m (hl_key h)")
  case None
  have r: "r = length (entries m)"
    and m': "idempotency_locks m' = (idempotency_locks m)(hl_key h \<mapsto> r)"
      "entries m' = entries m @ [\<lparr>le_locked = False, le_users = 1\<rparr>]"
    using m' None by (auto simp: enter_def Let_def)
  have new: "r \<notin> ran (idempotency_locks m)"
    using locks_okD(2) [OF ok] r by (auto simp: ran_def)
  note none = unused_entry [OF ok new] unheld_entry [OF unused_entry [OF ok new]]
  have key: "hl_key x \<noteq> hl_key h" if "x \<in># H" "uses r' x" for x r'
    using locks_okD(1) [OF ok that] None by auto
  show ?thesis
  proof (rule locks_okI)
    show "idempotency_locks m' (hl_key x) = Some r'" if "x \<in># add_mset h H" "uses r' x" for x r'
      using that h locks_okD(1) [OF ok] key by (auto simp: m' uses_def)
    show "r' < length (entries m')" if "idempotency_locks m' k = Some r'" for k r'
      using that locks_okD(2) [OF ok, of k r'] by (auto simp: m' r split: if_splits)
    show "k' = k" if "idempotency_locks m' k = Some r'" "idempotency_locks m' k' = Some r'" for k k' r'
      using that locks_okD(3) [OF ok, of k r' k'] new by (auto simp: m' ran_def split: if_splits)
    fix k r' assume k: "idempotency_locks m' k = Some r'"
    show "0 < users r' (add_mset h H) \<and> le_users (entries m' ! r') = int (users r' (add_mset h H))"
      using k h none locks_okD(2,4) [OF ok, of k r'] new
      by (auto simp: m' r uses_def nth_append ran_def split: if_splits)
    show "holders r' (add_mset h H) = (if le_locked (entries m' ! r') then 1 else 0)"
      using k h none locks_okD(2,5) [OF ok, of k r'] new
      by (auto simp: m' r nth_append ran_def split: if_splits)
  qed
next
  case (Some r0)
  have r: "r0 = r"
    and m': "idempotency_locks m' = idempotency_locks m"
      "entries m' = (entries m)[r := (entries m ! r)\<lparr>le_users := le_users (entries m ! r) + 1\<rparr>]"
    using m' Some by (auto simp: enter_def Let_def)
  have len: "r < length (entries m)" using locks_okD(2) [OF ok Some] r by simp
  show ?thesis
  proof (rule locks_okI)
    show "idempotency_locks m' (hl_key x) = Some r'" if "x \<in># add_mset h H" "uses r' x" for x r'
      using that h locks_okD(1) [OF ok] Some r by (auto simp: m' uses_def)
    fix k r' assume k: "idempotency_locks m' k = Some r'"
    show "r' < length (entries m')" using k locks_okD(2) [OF ok, of k r'] by (simp add: m')
    show "k' = k" if "idempotency_locks m' k' = Some r'" for k'
      using k that locks_okD(3) [OF ok, of k r' k'] by (simp add: m')
    show "0 < users r' (add_mset h H) \<and> le_users (entries m' ! r') = int (users r' (add_mset h H))"
      using k h len locks_okD(4) [OF ok, of k r'] by (auto simp: m' uses_def nth_list_update)
    show "holders r' (add_mset h H) = (if le_locked (entries m' ! r') then 1 else 0)"
      using k h len locks_okD(5) [OF ok, of k r'] by (auto simp: m' nth_list_update)
  qed
qed


lemma acquire_locks:
  assumes ok: "locks_ok m (add_mset h H)" and h: "hl_phase h = Waiting r" and m': "acquire r m = Some m'"
  shows "locks_ok m' (add_mset (h\<lparr>hl_phase := Holding r\<rparr>) H)"
proof -
  have free: "\<not> le_locked (entries m ! r)" and m': "idempotency_locks m' = idempotency_locks m"
      "entries m' = (entries m)[r := (entries m ! r)\<lparr>le_locked := True\<rparr>]"
    using m' by (auto simp: acquire_def set_locked_def split: if_splits)
  have key: "idempotency_locks m (hl_key h) = Some r"
    using locks_okD(1) [OF ok, of h r] h by (simp add: uses_def)
  note len = locks_okD(2) [OF ok key]
  show ?thesis
  proof (rule locks_okI)
    show "idempotency_locks m' (hl_key x) = Some r'" if "x \<in># add_mset (h\<lparr>hl_phase := Holding r\<rparr>) H" "uses r' x" for x r'
      using that h key locks_okD(1) [OF ok] by (auto simp: m' uses_def)
    fix k r' assume k: "idempotency_locks m' k = Some r'"
    show "r' < length (entries m')" using k locks_okD(2) [OF ok, of k r'] by (simp add: m')
    show "k' = k" if "idempotency_locks m' k' = Some r'" for k'
      using k that locks_okD(3) [OF ok, of k r' k'] by (simp add: m')
    show "0 < users r' (add_mset (h\<lparr>hl_phase := Holding r\<rparr>) H) \<and>
        le_users (entries m' ! r') = int (users r' (add_mset (h\<lparr>hl_phase := Holding r\<rparr>) H))"
      using k h len locks_okD(4) [OF ok, of k r'] by (auto simp: m' uses_def nth_list_update split: if_splits)
    show "holders r' (add_mset (h\<lparr>hl_phase := Holding r\<rparr>) H) = (if le_locked (entries m' ! r') then 1 else 0)"
      using k h len free locks_okD(5) [OF ok, of k r'] by (auto simp: m' nth_list_update split: if_splits)
  qed
qed

text \<open>Leaving, after the lock has been released if the run held it.\<close>

definition released :: "handler \<Rightarrow> nat \<Rightarrow> mock \<Rightarrow> mock" where
  "released h r m = (if hl_phase h = Holding r then set_locked False r m else m)"

lemma leave_locks:
  assumes ok: "locks_ok m (add_mset h H)" and h: "uses r h"
  shows "locks_ok (leave (hl_key h) r (released h r m)) H"
proof -
  let ?m = "leave (hl_key h) r (released h r m)"
  have key: "idempotency_locks m (hl_key h) = Some r"
    using locks_okD(1) [OF ok, of h r] h by simp
  note len = locks_okD(2) [OF ok key] and at_r = locks_okD(4,5) [OF ok key]
  define n where "n = users r H"
  have count: "le_users (entries m ! r) = int n + 1" using at_r(1) h by (simp add: n_def)
  define last where "last \<longleftrightarrow> n = 0"
  have locks: "idempotency_locks ?m = (if last then (idempotency_locks m)(hl_key h := None) else idempotency_locks m)"
    using len count key by (auto simp: leave_def released_def set_locked_def Let_def last_def)
  have entries: "entries ?m = (entries m)[r := \<lparr>le_locked = (hl_phase h \<noteq> Holding r \<and> le_locked (entries m ! r)),
      le_users = int n\<rparr>]"
    using len count by (cases "entries m ! r") (auto simp: leave_def released_def set_locked_def Let_def)
  have here: "k = hl_key h" if "idempotency_locks m k = Some r" for k
    using locks_okD(3) [OF ok that key] by simp
  show ?thesis
  proof (rule locks_okI)
    fix x r' assume x: "x \<in># H" "uses r' x"
    have "idempotency_locks m (hl_key x) = Some r'" using locks_okD(1) [OF ok] x by simp
    moreover have False if "last" "hl_key x = hl_key h"
    proof -
      from calculation that key have "r' = r" by simp
      with that(1) x show False by (auto simp: last_def n_def filter_mset_eq_mempty_iff)
    qed
    ultimately show "idempotency_locks ?m (hl_key x) = Some r'" by (auto simp: locks)
  next
    fix k r' assume "idempotency_locks ?m k = Some r'"
    then have k: "idempotency_locks m k = Some r'" and still: "r' = r \<Longrightarrow> \<not> last"
      using here by (auto simp: locks split: if_splits)
    show "r' < length (entries ?m)" using locks_okD(2) [OF ok k] by (simp add: entries)
    show "k' = k" if "idempotency_locks ?m k' = Some r'" for k'
      using that locks_okD(3) [OF ok k, of k'] by (simp add: locks split: if_splits)
    show "0 < users r' H \<and> le_users (entries ?m ! r') = int (users r' H)"
    proof (cases "r' = r")
      case True
      with still len show ?thesis by (simp add: entries last_def n_def nonempty_has_size [symmetric])
    next
      case False
      with h have "\<not> uses r' h" by (auto simp: uses_def)
      with False locks_okD(4) [OF ok k] show ?thesis by (simp add: entries)
    qed
    show "holders r' H = (if le_locked (entries ?m ! r') then 1 else 0)"
    proof (cases "r' = r")
      case True
      with at_r(2) len show ?thesis by (auto simp: entries split: if_splits)
    next
      case False
      with h have "hl_phase h \<noteq> Holding r'" by (auto simp: uses_def)
      with False locks_okD(5) [OF ok k] show ?thesis by (simp add: entries)
    qed
  qed
qed

lemma section_locks:
  "locked_section u i p k sc m = (result, m') \<Longrightarrow>
     idempotency_locks m' = idempotency_locks m \<and> entries m' = entries m"
  by (auto simp: locked_section_def Let_def split: option.splits if_splits)

lemma locks_ok_section: "locked_section u i p k sc m = (result, m') \<Longrightarrow> locks_ok m' H = locks_ok m H"
  using section_locks locks_ok_same by blast

lemma locks_ok_step: "mock_step s ev s' \<Longrightarrow> locks_ok (sys_mock s) (handlers s) \<Longrightarrow> locks_ok (sys_mock s') (handlers s')"
proof (induction rule: mock_step.induct)
  case (entered sc x m p k r m' H)
  then show ?case using enter_locks [of m H "started_handler p k sc (Waiting r)" r m'] by (simp add: started_handler_def)
next
  case (woken h m r m' H)
  then have "locks_ok m H" by (simp add: locks_ok_idle uses_def)
  with woken show ?case using enter_locks [of m H "h\<lparr>hl_phase := Waiting r\<rparr>" r m'] by simp
next
  case (acquired h r m m' H)
  then show ?case using acquire_locks [OF _ acquired(1,2)] by simp
next
  case (left h r u i m result m' H)
  then have "locks_ok m' (add_mset h H)" using locks_ok_section by simp
  with left(1) leave_locks [of m' h H r] show ?case by (simp add: uses_def released_def)
next
  case (left_delayed h r u i m result m' H)
  then have "locks_ok m' (add_mset h H)" using locks_ok_section by simp
  with left_delayed(1) leave_locks [of m' h H r] show ?case
    by (simp add: uses_def released_def locks_ok_idle)
next
  case (cancelled h m H)
  show ?case
  proof (cases "\<exists>r. uses r h")
    case True
    then obtain r where "hl_phase h = Waiting r" using cancelled(1) by (auto simp: uses_def)
    with cancelled(2) leave_locks [of m h H r] show ?thesis
      by (simp add: uses_def released_def cancelled_mock_def)
  next
    case False
    with cancelled show ?thesis
      by (auto simp: locks_ok_idle uses_def cancelled_mock_def split: phase.splits)
  qed
next
  case (tested m' sc m c p i a H)
  have "idempotency_locks m' = idempotency_locks m \<and> entries m' = entries m"
    using tested(1) by (auto simp: set_default_scenario_def clear_default_scenario_def capture_webhook_def
        clear_captured_webhooks_def Let_def)
  with tested(2) locks_ok_same [of m' m H] show ?case by simp
qed (auto simp: locks_ok_idle uses_def started_handler_def)

lemma locks_ok_run: "mock_run s evs s' \<Longrightarrow> locks_ok (sys_mock s) (handlers s) \<Longrightarrow> locks_ok (sys_mock s') (handlers s')"
  by (induction rule: mock_run.induct) (auto intro: locks_ok_step)

lemma locks_ok_fresh: "locks_ok (sys_mock fresh_system) (handlers fresh_system)"
  by (simp add: locks_ok_def fresh_system_def fresh_mock_def)

lemma size_by_key:
  assumes "\<And>h. h \<in># H \<Longrightarrow> Q h \<Longrightarrow> P h"
  shows "size (filter_mset Q H) \<le> size (filter_mset P H)"
  using assms by (intro size_mset_mono filter_mset_mono_strong) auto


subsection \<open>The records\<close>

text \<open>A successful answer for a key comes from its record, which holds an equal request: it carries the recorded
  response, or is the malformed answer of the scenario of that name.\<close>

definition served :: "mock \<Rightarrow> mock_request \<Rightarrow> uuid \<Rightarrow> mock_reply \<Rightarrow> bool" where
  "served m p k y \<longleftrightarrow>
     (200 \<le> y_status_code y \<and> y_status_code y < 300 \<longrightarrow>
        (\<exists>rec. idempotency_records m k = Some rec \<and> same_mock_request (ir_request rec) p \<and>
           y_body y \<in> {Payment_body (ir_response rec), Status_only ''approved''}))"

definition answers_ok :: "mock \<Rightarrow> handler multiset \<Rightarrow> bool" where
  "answers_ok m H \<longleftrightarrow>
     (\<forall>h \<in># H. \<forall>y. hl_phase h = Sleeping_refusal y \<or> hl_phase h = Answering y \<longrightarrow>
        served m (hl_payment h) (hl_key h) y)"

lemma same_mock_request_refl [simp]: "same_mock_request p p"
  by (simp add: same_mock_request_def decimal_eq_def)

lemma records_kept [simp]:
  "idempotency_records (set_locked b r m) = idempotency_records m"
  "idempotency_records (leave k r m) = idempotency_records m"
  "idempotency_records (cancelled_mock h m) = idempotency_records m"
  by (simp_all add: set_locked_def leave_def Let_def cancelled_mock_def split: phase.split)

lemma records_enter: "enter k m = (r, m') \<Longrightarrow> idempotency_records m' = idempotency_records m"
  by (auto simp: enter_def Let_def split: option.splits)

lemma records_acquire: "acquire r m = Some m' \<Longrightarrow> idempotency_records m' = idempotency_records m"
  by (auto simp: acquire_def split: if_splits)

lemma records_section:
  assumes "locked_section u i p k sc m = (result, m')"
  shows "idempotency_records m \<subseteq>\<^sub>m idempotency_records m' \<and> served m' p k (section_answer result)"
proof (cases "idempotency_records m k")
  case None
  then have "idempotency_records m \<subseteq>\<^sub>m idempotency_records m'"
    using assms by (auto simp: locked_section_def Let_def map_le_def dom_def)
  with None assms show ?thesis
    by (auto simp: locked_section_def Let_def served_def section_answer_def last_answer_def)
next
  case (Some rec)
  with assms show ?thesis
    by (auto simp: locked_section_def served_def section_answer_def split: if_splits)
qed

lemma begin_served:
  "begin_processing p k sc = Refuse y \<Longrightarrow> served m p k y"
  "begin_processing p k sc = Sleep_then_refuse y \<Longrightarrow> served m p k y"
  by (auto simp: begin_processing_def served_def split: if_splits)

lemma record_later:
  "idempotency_records m k = Some rec \<Longrightarrow> idempotency_records m \<subseteq>\<^sub>m idempotency_records m' \<Longrightarrow>
     idempotency_records m' k = Some rec"
  by (force simp: map_le_def)

lemma served_mono:
  assumes "served m p k y" and "idempotency_records m \<subseteq>\<^sub>m idempotency_records m'"
  shows "served m' p k y"
proof (cases "200 \<le> y_status_code y \<and> y_status_code y < 300")
  case True
  with assms(1) obtain rec where "idempotency_records m k = Some rec" "same_mock_request (ir_request rec) p"
    "y_body y \<in> {Payment_body (ir_response rec), Status_only ''approved''}"
    unfolding served_def by blast
  with record_later [OF _ assms(2)] show ?thesis unfolding served_def by blast
qed (auto simp: served_def)

lemma answers_ok_mono:
  "answers_ok m H \<Longrightarrow> idempotency_records m \<subseteq>\<^sub>m idempotency_records m' \<Longrightarrow> answers_ok m' H"
  unfolding answers_ok_def using served_mono by blast

lemma left_records:
  assumes "locked_section u i p k sc m = (result, m')"
  shows "idempotency_records m \<subseteq>\<^sub>m idempotency_records (leave k r (set_locked False r m')) \<and>
    served (leave k r (set_locked False r m')) p k (section_answer result)"
  using records_section [OF assms] by (simp add: served_def)

lemma answers_ok_same: "idempotency_records m' = idempotency_records m \<Longrightarrow> answers_ok m' H = answers_ok m H"
  by (simp add: answers_ok_def served_def)

lemmas answers_ok_kept [simp] = records_kept [THEN answers_ok_same]
lemmas answers_ok_enter = answers_ok_same [OF records_enter]
lemmas answers_ok_acquire = answers_ok_same [OF records_acquire]

lemma answers_ok_add:
  "answers_ok m (add_mset h H) \<longleftrightarrow>
     answers_ok m H \<and>
     (\<forall>y. hl_phase h = Sleeping_refusal y \<or> hl_phase h = Answering y \<longrightarrow> served m (hl_payment h) (hl_key h) y)"
  by (auto simp: answers_ok_def)

lemma records_tested:
  "m' \<in> {snd (set_default_scenario sc m), snd (clear_default_scenario m),
       snd (capture_webhook c p i a m), snd (clear_captured_webhooks c m)} \<Longrightarrow>
     idempotency_records m' = idempotency_records m"
  by (auto simp: set_default_scenario_def clear_default_scenario_def capture_webhook_def
      clear_captured_webhooks_def Let_def)

lemma records_step: "mock_step s ev s' \<Longrightarrow> idempotency_records (sys_mock s) \<subseteq>\<^sub>m idempotency_records (sys_mock s')"
proof (induction rule: mock_step.induct)
  case (tested m' sc m c p i a H)
  from records_tested [OF this] show ?case by simp
qed (simp_all add: records_enter records_acquire records_section)

lemma answers_step:
  assumes "mock_step s ev s'" and "answers_ok (sys_mock s) (handlers s)"
  shows "answers_ok (sys_mock s') (handlers s') \<and> (\<forall>p k y. ev = Answered p k y \<longrightarrow> served (sys_mock s') p k y)"
  using assms
proof (induction rule: mock_step.induct)
  case (left h r u i m result m' H)
  let ?m = "leave (hl_key h) r (set_locked False r m')"
  have "answers_ok ?m H"
    using left(4) left_records [OF left(2), of r]
    by - (rule answers_ok_mono [of m H], simp_all add: answers_ok_add)
  with left_records [OF left(2), of r] show ?case by (simp add: answers_ok_add)
next
  case (left_delayed h r u i m result m' H)
  let ?m = "leave (hl_key h) r (set_locked False r m')"
  have "answers_ok ?m H"
    using left_delayed(4) left_records [OF left_delayed(2), of r]
    by - (rule answers_ok_mono [of m H], simp_all add: answers_ok_add)
  with left_records [OF left_delayed(2), of r] show ?case by (simp add: answers_ok_add)
next
  case (tested m' sc m c p i a H)
  with answers_ok_same [OF records_tested [OF tested(1)]] show ?case by simp
next
  case (entered sc x m p k r m' H)
  with answers_ok_enter [OF entered(3)] show ?case by (simp add: answers_ok_add started_handler_def)
next
  case (woken h m r m' H)
  with answers_ok_enter [OF woken(2)] show ?case by (simp add: answers_ok_add)
next
  case (acquired h r m m' H)
  with answers_ok_acquire [OF acquired(2)] show ?case by (simp add: answers_ok_add)
qed (simp_all add: answers_ok_add started_handler_def begin_served)

lemma records_run: "mock_run s evs s' \<Longrightarrow> idempotency_records (sys_mock s) \<subseteq>\<^sub>m idempotency_records (sys_mock s')"
  by (induction rule: mock_run.induct) (auto intro: map_le_trans records_step)

lemma answers_run:
  assumes "mock_run s evs s'" and "answers_ok (sys_mock s) (handlers s)"
  shows "answers_ok (sys_mock s') (handlers s') \<and> (\<forall>p k y. Answered p k y \<in> set evs \<longrightarrow> served (sys_mock s') p k y)"
  using assms
proof (induction rule: mock_run.induct)
  case (mock_snoc s evs s' ev s'')
  from answers_step [OF mock_snoc(2)] mock_snoc(3,4) served_mono [OF _ records_step [OF mock_snoc(2)]]
  show ?case by auto
qed simp

inductive_cases looked_upE: "mock_step s (Looked_up k y) s'"

lemma lookups_run:
  assumes "mock_run s evs s'" and "Looked_up k y \<in> set evs" and "y_status_code y \<noteq> 404"
  shows "y = mock_get_payment k (sys_mock s')"
  using assms
proof (induction rule: mock_run.induct)
  case (mock_snoc s evs s' ev s'')
  have "y = mock_get_payment k (sys_mock s')"
    using mock_snoc by (cases "Looked_up k y \<in> set evs") (auto elim: looked_upE)
  then show ?case
    using mock_snoc(5) record_later [OF _ records_step [OF mock_snoc(2)]]
    by (auto simp: mock_get_payment_def split: option.splits)
qed simp

lemma recorded_answers:
  assumes "mock_run fresh_system evs s" and "Answered p k y \<in> set evs" and "200 \<le> y_status_code y" and "y_status_code y < 300"
  shows "\<exists>rec. idempotency_records (sys_mock s) k = Some rec \<and> same_mock_request (ir_request rec) p \<and>
    y_body y \<in> {Payment_body (ir_response rec), Status_only ''approved''} \<and>
    mock_get_payment k (sys_mock s) = \<lparr>y_status_code = 200, y_body = Payment_body (ir_response rec)\<rparr> \<and>
    (\<forall>y'. Looked_up k y' \<in> set evs \<longrightarrow> y_status_code y' = 404 \<or> y_body y' = Payment_body (ir_response rec))"
proof -
  have "answers_ok (sys_mock fresh_system) (handlers fresh_system)"
    by (simp add: answers_ok_def fresh_system_def)
  with answers_run [OF assms(1)] assms(2-4) obtain rec
    where rec: "idempotency_records (sys_mock s) k = Some rec" "same_mock_request (ir_request rec) p"
      "y_body y \<in> {Payment_body (ir_response rec), Status_only ''approved''}"
    unfolding served_def by blast
  moreover have "y_body y' = Payment_body (ir_response rec)"
    if "Looked_up k y' \<in> set evs" "y_status_code y' \<noteq> 404" for y'
    using lookups_run [OF assms(1) that] rec(1) by (simp add: mock_get_payment_def)
  ultimately show ?thesis by (auto simp: mock_get_payment_def)
qed


subsection \<open>A run\<close>

definition sample_mock_request :: mock_request where
  "sample_mock_request = \<lparr>m_payment_id = UUID 1, m_amount = Decimal 15 (-1), m_currency = ''RUB''\<rparr>"

definition sample_mock_response :: mock_response where
  "sample_mock_response = \<lparr>ms_provider_payment_id = UUID 9, ms_status = ''approved''\<rparr>"

text \<open>A request that finds nobody else goes through the lock and is answered.\<close>

lemma single_steps:
  assumes "begin_processing p k (effective_scenario x m) = Enter" and "enter k m = (r, m1)"
    and "acquire r m1 = Some m2"
    and "locked_section u i p k (effective_scenario x m) m2 = (result, m3)" and "\<not> delayed result"
  obtains s1 s2 where "mock_step \<lparr>sys_mock = m, handlers = {#}\<rparr> Silent s1" "mock_step s1 Silent s2"
    "mock_step s2 (Answered p k (section_answer result))
      \<lparr>sys_mock = leave k r (set_locked False r m3), handlers = {#}\<rparr>"
    "\<forall>h. h \<in># handlers s1 \<or> h \<in># handlers s2 \<longrightarrow> hl_key h = k \<and> hl_payment h = p"
proof -
  let ?h = "started_handler p k (effective_scenario x m) (Waiting r)"
  have "mock_step \<lparr>sys_mock = m, handlers = {#}\<rparr> Silent \<lparr>sys_mock = m1, handlers = {#?h#}\<rparr>"
    by (rule mock_step.entered [OF refl assms(1,2)])
  moreover have "mock_step \<lparr>sys_mock = m1, handlers = {#?h#}\<rparr> Silent
      \<lparr>sys_mock = m2, handlers = {#?h\<lparr>hl_phase := Holding r\<rparr>#}\<rparr>"
    using assms(3) by (intro mock_step.acquired) (simp_all add: started_handler_def)
  moreover have "mock_step \<lparr>sys_mock = m2, handlers = {#?h\<lparr>hl_phase := Holding r\<rparr>#}\<rparr>
      (Answered p k (section_answer result)) \<lparr>sys_mock = leave k r (set_locked False r m3), handlers = {#}\<rparr>"
    using mock_step.left [of "?h\<lparr>hl_phase := Holding r\<rparr>" r u i m2 result m3 "{#}"] assms(4,5)
    by (simp add: started_handler_def)
  ultimately show thesis by (rule that) (auto simp: started_handler_def)
qed

text \<open>The approved payment of the samples.\<close>

lemma mock_sample_steps:
  obtains s1 s2 s3 where "mock_step fresh_system Silent s1" "mock_step s1 Silent s2"
    "mock_step s2 (Answered sample_mock_request (UUID 1) \<lparr>y_status_code = 200, y_body = Payment_body sample_mock_response\<rparr>) s3"
    "\<forall>h. h \<in># handlers s1 \<or> h \<in># handlers s2 \<longrightarrow> hl_key h = UUID 1 \<and> hl_payment h = sample_mock_request"
    "handlers s3 = {#}"
proof -
  let ?x = "Some SCENARIO_APPROVED"
  obtain r m1 where e: "enter (UUID 1) fresh_mock = (r, m1)" by (cases "enter (UUID 1) fresh_mock")
  then have r: "r = 0" "entries m1 = [\<lparr>le_locked = False, le_users = 1\<rparr>]"
    "idempotency_records m1 = Map.empty"
    by (auto simp: enter_def fresh_mock_def Let_def)
  have a: "acquire r m1 = Some (set_locked True r m1)" using r by (simp add: acquire_def)
  have b: "begin_processing sample_mock_request (UUID 1) (effective_scenario ?x fresh_mock) = Enter"
    by (simp add: begin_processing_def sample_mock_request_def effective_scenario_def)
  obtain m3 where l: "locked_section 0 (UUID 9) sample_mock_request (UUID 1) (effective_scenario ?x fresh_mock)
      (set_locked True r m1) = (Recorded sample_mock_response False False, m3)"
    using r(3) by (simp add: locked_section_def effective_scenario_def Let_def sample_mock_response_def)
  have d: "\<not> delayed (Recorded sample_mock_response False False)" by (simp add: delayed_def)
  show thesis
    by (rule single_steps [OF b e a l d], rule that)
      (auto simp: fresh_system_def section_answer_def last_answer_def)
qed

lemma mock_sample_run:
  "\<exists>s. mock_run fresh_system [Silent, Silent, Answered sample_mock_request (UUID 1)
     \<lparr>y_status_code = 200, y_body = Payment_body sample_mock_response\<rparr>] s"
proof (rule mock_sample_steps)
  fix s1 s2 s3
  assume "mock_step fresh_system Silent s1" "mock_step s1 Silent s2"
    "mock_step s2 (Answered sample_mock_request (UUID 1) \<lparr>y_status_code = 200, y_body = Payment_body sample_mock_response\<rparr>) s3"
  then show ?thesis using mock_snoc [OF mock_snoc [OF mock_snoc [OF mock_nil]]] by fastforce
qed



end
