(* ===== verification/Provider_Exchange.thy ===== *)
theory Provider_Exchange
  imports Reconciliation Mock_Provider
begin

text \<open>
  The worker against the provider: what the client of \<open>app/clients/payment_provider.py\<close> makes of the
  answers of \<open>mock-provider/app/main.py\<close>. \<open>as_mock_request\<close> is the JSON body of the client's POST
  as the provider parses it, \<open>as_http\<close> the provider's answer as the client receives it.
\<close>

definition as_mock_request :: "provider_request \<Rightarrow> mock_request" where
  "as_mock_request q =
     \<lparr>m_payment_id = q_payment_id q, m_amount = q_amount q, m_currency = currency_value (q_currency q)\<rparr>"

definition as_http :: "mock_reply \<Rightarrow> http_response" where
  "as_http y =
     \<lparr>x_status_code = y_status_code y,
      x_json = Some (case y_body y of
          Payment_body r \<Rightarrow>
            \<lparr>w_provider_payment_id = Given (ms_provider_payment_id r), w_status = Given (ms_status r)\<rparr>
        | Status_only s \<Rightarrow> \<lparr>w_provider_payment_id = Absent, w_status = Given s\<rparr>
        | Detail _ \<Rightarrow> \<lparr>w_provider_payment_id = Absent, w_status = Absent\<rparr>),
      x_retry_after = None\<rparr>"

definition agrees :: "mock_response \<Rightarrow> provider_response \<Rightarrow> bool" where
  "agrees r resp \<longleftrightarrow>
     s_provider_payment_id resp = ms_provider_payment_id r \<and> provider_status_value (s_status resp) = ms_status r"

text \<open>A request the client may send is one the provider accepts.\<close>

lemma client_requests_valid: "amount_field_ok (q_amount q) \<Longrightarrow> ProcessPaymentRequest (as_mock_request q)"
  by (cases "q_currency q") (simp_all add: ProcessPaymentRequest_def as_mock_request_def)

lemma validate_payment_body:
  "ProcessPaymentResponse r \<Longrightarrow>
     \<exists>resp. provider_response_validate \<lparr>w_provider_payment_id = Given (ms_provider_payment_id r), w_status = Given (ms_status r)\<rparr> =
       Some resp \<and> agrees r resp"
proof -
  assume "ProcessPaymentResponse r"
  then obtain st where st: "ms_status r = provider_status_value st"
    by (auto simp: ProcessPaymentResponse_def) (metis provider_status_value.simps)+
  then show ?thesis by (auto simp: provider_response_validate_def agrees_def)
qed

lemma validate_body_agrees:
  "provider_response_validate \<lparr>w_provider_payment_id = Given i, w_status = Given s\<rparr> = Some resp \<Longrightarrow>
     agrees \<lparr>ms_provider_payment_id = i, ms_status = s\<rparr> resp"
  by (auto simp: provider_response_validate_def agrees_def ProviderPaymentStatus_Some_iff split: option.splits)

subsection \<open>The records are valid\<close>

definition records_valid :: "mock \<Rightarrow> bool" where
  "records_valid m \<longleftrightarrow>
     (\<forall>k rec. idempotency_records m k = Some rec \<longrightarrow> ProcessPaymentResponse (ir_response rec))"

lemma records_valid_same: "idempotency_records m' = idempotency_records m \<Longrightarrow> records_valid m' = records_valid m"
  by (simp add: records_valid_def)

lemma section_record:
  assumes "locked_section u i p k sc m = (result, m')"
  shows "idempotency_records m' = idempotency_records m \<or>
    (\<exists>rec. idempotency_records m' = (idempotency_records m)(k \<mapsto> rec) \<and> ProcessPaymentResponse (ir_response rec))"
  using assms
  by (cases "idempotency_records m k")
    (auto simp: locked_section_def ProcessPaymentResponse_def Let_def split: if_splits)

lemma records_valid_section:
  assumes "locked_section u i p k sc m = (result, m')" and "records_valid m"
  shows "records_valid m'"
  using section_record [OF assms(1)] assms(2) unfolding records_valid_def by (metis fun_upd_apply option.inject)

lemma records_valid_step: "mock_step s ev s' \<Longrightarrow> records_valid (sys_mock s) \<Longrightarrow> records_valid (sys_mock s')"
proof (induction rule: mock_step.induct)
  case (entered sc x m p k r m' H)
  then show ?case using records_valid_same [OF records_enter [OF entered(3)]] by simp
next
  case (woken h m r m' H)
  then show ?case using records_valid_same [OF records_enter [OF woken(2)]] by simp
next
  case (acquired h r m m' H)
  then show ?case using records_valid_same [OF records_acquire [OF acquired(2)]] by simp
next
  case (left h r u i m result m' H)
  then show ?case using records_valid_section [OF left(2)] by (simp add: records_valid_def)
next
  case (left_delayed h r u i m result m' H)
  then show ?case using records_valid_section [OF left_delayed(2)] by (simp add: records_valid_def)
next
  case (tested m' sc m c p i a H)
  then show ?case using records_valid_same [OF records_tested [OF tested(1)]] by simp
qed (simp_all add: records_valid_def)

lemma records_valid_run: "mock_run s evs s' \<Longrightarrow> records_valid (sys_mock s) \<Longrightarrow> records_valid (sys_mock s')"
  by (induction rule: mock_run.induct) (auto intro: records_valid_step)

lemma records_valid_fresh [simp]: "records_valid (sys_mock fresh_system)"
  by (simp add: records_valid_def fresh_system_def fresh_mock_def)

subsection \<open>What the client concludes\<close>

text \<open>The lookup tells exactly what is recorded.\<close>

lemma lookup_of_record:
  assumes "records_valid m"
  shows "case idempotency_records m k of
      None \<Rightarrow> get_payment_by_idempotency_key (Responded (as_http (mock_get_payment k m))) = Inr None
    | Some rec \<Rightarrow> \<exists>resp. get_payment_by_idempotency_key (Responded (as_http (mock_get_payment k m))) = Inr (Some resp) \<and>
        agrees (ir_response rec) resp"
proof (cases "idempotency_records m k")
  case None
  then show ?thesis by (simp add: mock_get_payment_def as_http_def get_payment_by_idempotency_key_def)
next
  case (Some rec)
  with assms have "ProcessPaymentResponse (ir_response rec)" by (simp add: records_valid_def)
  from validate_payment_body [OF this] Some show ?thesis
    by (auto simp: mock_get_payment_def as_http_def get_payment_by_idempotency_key_def)
qed

text \<open>Two responses that agree with one record are equal.\<close>

lemma agrees_unique: "agrees r a \<Longrightarrow> agrees r b \<Longrightarrow> a = b"
  by (auto simp: agrees_def intro!: provider_response.equality) (metis provider_status_enum.value_eq_iff)

text \<open>What the client concludes from an answer of the provider is never contradicted later. A
  result it takes from an answer to its POST is the one every later lookup of the payment returns;
  and a successful answer that it can only call ambiguous is for a payment the provider has
  settled, which the lookup finds.\<close>

theorem client_agrees_with_provider:
  assumes "mock_run fresh_system evs s" and "Answered (as_mock_request q) (q_payment_id q) y \<in> set evs"
    and "200 \<le> y_status_code y" and "y_status_code y < 300"
  shows "\<exists>resp. get_payment_by_idempotency_key (Responded (as_http (mock_get_payment (q_payment_id q) (sys_mock s)))) =
      Inr (Some resp) \<and>
    settled_by (Responded (as_http y)) \<in> {Inr resp, Inl (Provider_exn ProviderAmbiguousOutcomeError)}"
proof -
  from recorded_answers [OF assms] obtain rec
    where rec: "idempotency_records (sys_mock s) (q_payment_id q) = Some rec"
      "y_body y \<in> {Payment_body (ir_response rec), Status_only ''approved''}" by blast
  have valid: "records_valid (sys_mock s)" by (rule records_valid_run [OF assms(1)]) simp
  with lookup_of_record [OF valid, of "q_payment_id q"] rec(1) obtain resp
    where resp: "get_payment_by_idempotency_key (Responded (as_http (mock_get_payment (q_payment_id q) (sys_mock s)))) =
        Inr (Some resp)" "agrees (ir_response rec) resp" by auto
  have "ProcessPaymentResponse (ir_response rec)" using valid rec(1) by (simp add: records_valid_def)
  from validate_payment_body [OF this] obtain resp'
    where v: "provider_response_validate \<lparr>w_provider_payment_id = Given (ms_provider_payment_id (ir_response rec)),
        w_status = Given (ms_status (ir_response rec))\<rparr> = Some resp'" and "agrees (ir_response rec) resp'" by blast
  with resp(2) have "resp' = resp" by (blast intro: agrees_unique)
  with v rec(2) assms(3,4)
  have "settled_by (Responded (as_http y)) \<in> {Inr resp, Inl (Provider_exn ProviderAmbiguousOutcomeError)}"
    by (auto simp: settled_by_def as_http_def parse_success_response_def provider_response_validate_def)
  with resp(1) show ?thesis by blast
qed

text \<open>Reconciliation adopts the provider's record: when a payment is reconciled after a lookup
  that the provider answered, it is terminal with the status and id the provider has recorded for
  it, and these are the ones of every successful answer the provider ever gave to a request for this
  payment, read or lost.\<close>

theorem reconciliation_adopts_record:
  assumes "mock_run fresh_system evs s" and "db_inv d" and "1 \<le> rc_max_attempts w" and "env_moves_by db_step env"
    and "u_answer (k_lookup env) = Responded (as_http (mock_get_payment i (sys_mock s)))"
    and "rr_result (reconcile_one w env k i b d) = Inr True"
  shows "\<exists>rec resp. idempotency_records (sys_mock s) i = Some rec \<and> agrees (ir_response rec) resp \<and>
    (\<exists>p \<in> set (payments (rr_database (reconcile_one w env k i b d))).
       p_id p = i \<and> p_status p = status_for (s_status resp) \<and>
       p_provider_payment_id p = Some (ms_provider_payment_id (ir_response rec))) \<and>
    (\<forall>p y r. Answered p i y \<in> set evs \<and> 200 \<le> y_status_code y \<and> y_status_code y < 300 \<and> y_body y = Payment_body r \<longrightarrow>
       r = ir_response rec)"
proof -
  from reconciled_agrees [OF assms(2-4,6)] obtain x resp p
    where x: "u_answer (k_lookup env) = Responded x" "200 \<le> x_status_code x" "x_status_code x < 300"
      "Option.bind (x_json x) provider_response_validate = Some resp"
    and p: "p \<in> set (payments (rr_database (reconcile_one w env k i b d)))" "p_id p = i"
      "p_status p = status_for (s_status resp)" "p_provider_payment_id p = Some (s_provider_payment_id resp)"
    by blast
  from x(1) assms(5) have http: "x = as_http (mock_get_payment i (sys_mock s))" by simp
  with x(2,3) obtain rec where rec: "idempotency_records (sys_mock s) i = Some rec"
    by (auto simp: as_http_def mock_get_payment_def split: option.splits)
  with http x(4) have agree: "agrees (ir_response rec) resp"
    using validate_body_agrees [of "ms_provider_payment_id (ir_response rec)" "ms_status (ir_response rec)" resp]
    by (simp add: as_http_def mock_get_payment_def agrees_def)
  moreover have "r = ir_response rec"
    if "Answered p i y \<in> set evs" "200 \<le> y_status_code y" "y_status_code y < 300" "y_body y = Payment_body r" for p y r
    using recorded_answers [OF assms(1) that(1-3)] that(4) rec by auto
  ultimately show ?thesis using rec p by (auto simp: agrees_def)
qed

subsection \<open>A run\<close>

lemma sample_exchange:
  obtains s where "mock_run fresh_system [Silent, Silent, Answered sample_mock_request (UUID 1)
      \<lparr>y_status_code = 200, y_body = Payment_body sample_mock_response\<rparr>] s"
    and "as_http (mock_get_payment (UUID 1) (sys_mock s)) = approved_response"
proof -
  let ?y = "\<lparr>y_status_code = 200, y_body = Payment_body sample_mock_response\<rparr>"
  obtain s where s: "mock_run fresh_system [Silent, Silent, Answered sample_mock_request (UUID 1) ?y] s"
    using mock_sample_run by blast
  have look: "mock_get_payment (UUID 1) (sys_mock s) = ?y"
    using recorded_answers [OF s, of sample_mock_request "UUID 1" ?y] by auto
  have "as_http (mock_get_payment (UUID 1) (sys_mock s)) = approved_response"
    unfolding look by (simp add: as_http_def sample_mock_response_def approved_response_def provider_response_dump_def)
  with s show ?thesis by (rule that)
qed

definition sample_provider_request :: provider_request where
  "sample_provider_request = \<lparr>q_payment_id = UUID 1, q_amount = Decimal 15 (-1), q_currency = RUB\<rparr>"

theorem client_agrees_with_provider_witness:
  "\<exists>s resp. get_payment_by_idempotency_key (Responded (as_http (mock_get_payment (UUID 1) (sys_mock (s :: mock_system))))) =
     Inr (Some resp)"
proof -
  obtain s where s: "mock_run fresh_system [Silent, Silent, Answered sample_mock_request (UUID 1)
      \<lparr>y_status_code = 200, y_body = Payment_body sample_mock_response\<rparr>] s"
    using sample_exchange by blast
  have q: "as_mock_request sample_provider_request = sample_mock_request" "q_payment_id sample_provider_request = UUID 1"
    by (simp_all add: as_mock_request_def sample_provider_request_def sample_mock_request_def)
  from client_agrees_with_provider [OF s, of sample_provider_request
      "\<lparr>y_status_code = 200, y_body = Payment_body sample_mock_response\<rparr>"]
  show ?thesis by (auto simp: q)
qed

theorem reconciliation_adopts_record_witness:
  "\<exists>p \<in> set (payments (rr_database
      (reconcile_one sample_reconciler approving (UUID 20) (UUID 1) sample_breaker sample_claimed))).
     p_id p = UUID 1 \<and> p_provider_payment_id p \<noteq> None"
proof -
  obtain s where s: "mock_run fresh_system [Silent, Silent, Answered sample_mock_request (UUID 1)
      \<lparr>y_status_code = 200, y_body = Payment_body sample_mock_response\<rparr>] s"
    and http: "as_http (mock_get_payment (UUID 1) (sys_mock s)) = approved_response"
    using sample_exchange by blast
  have "u_answer (k_lookup approving) = Responded (as_http (mock_get_payment (UUID 1) (sys_mock s)))"
    unfolding http by (simp add: approving_def)
  from reconciliation_adopts_record [OF s sample_claimed_inv _ approving_env(1) this sample_reconciled]
  show ?thesis by (auto simp: sample_reconciler_def)
qed

end
