(* ===== verification/Rely.thy ===== *)
theory Rely
  imports System
begin

text \<open>
  Rely and guarantee over the transactions of the program. \<open>faithful_to P\<close> is what a transaction
  grants and what it assumes of all others: it keeps the lifecycle and the property \<open>P\<close> of the
  database. The lemmas \<open>..._keeps\<close> reduce "this component keeps \<open>P\<close>" to the few single changes it
  commits; \<open>keeper\<close> is the interface of a transaction that does.
\<close>

definition faithful_to :: "(database \<Rightarrow> bool) \<Rightarrow> (database \<Rightarrow> database) \<Rightarrow> bool" where
  "faithful_to P f \<longleftrightarrow> others_ok f \<and> (\<forall>d. db_inv d \<and> P d \<longrightarrow> P (f d))"

lemma faithful_toD:
  assumes "faithful_to P f" and "db_inv d"
  shows "others_ok f" and "db_inv (f d)" and "P d \<Longrightarrow> P (f d)"
  using assms others_okD by (auto simp: faithful_to_def)

lemma faithful_to_others: "faithful_to P f \<Longrightarrow> others_ok f"
  by (simp add: faithful_to_def)

lemma faithful_to_id [simp]: "faithful_to P (\<lambda>d. d)"
  by (simp add: faithful_to_def)

text \<open>\<open>holds m\<close> is the property, for what is known of the world outside the database; \<open>relies m\<close> what
  the transaction assumes of its inputs and of the others.\<close>

locale keeper = transaction run admissible
  for run :: "'a \<Rightarrow> 'c \<Rightarrow> database \<Rightarrow> 'b outcome \<times> database" and admissible :: "'a \<Rightarrow> bool" +
  fixes holds :: "'m \<Rightarrow> database \<Rightarrow> bool" and relies :: "'m \<Rightarrow> 'a \<Rightarrow> bool"
  assumes relies_admissible: "relies m a \<Longrightarrow> admissible a"
    and keeps: "db_inv d \<Longrightarrow> relies m a \<Longrightarrow> holds m d \<Longrightarrow> holds m (snd (run a c d))"
begin

text \<open>Run beside faithful transactions it is itself faithful: the assumption each makes of the others
  is what all of them grant.\<close>

lemma guarantees: "relies m a \<Longrightarrow> faithful_to (holds m) (\<lambda>d. snd (run a c d))"
  using refines relies_admissible keeps by (simp add: faithful_to_def others_ok_def)

lemma run_many_kept:
  assumes "db_inv d" and "holds m d" and "\<And>a c. (a, c) \<in> set calls \<Longrightarrow> relies m a"
  shows "holds m (fold (\<lambda>(a, c) d. snd (run a c d)) calls d)"
  using assms
proof (induction calls arbitrary: d)
  case (Cons x calls)
  obtain a c where x: "x = (a, c)" by (cases x)
  with Cons.prems(3) have "relies m a" by auto
  with Cons.prems(1,2) have "db_inv (snd (run a c d))" "holds m (snd (run a c d))"
    using keeps_invariant relies_admissible keeps by blast+
  with Cons.IH Cons.prems(3) x show ?case by auto
qed simp

end

subsection \<open>The components, by the changes they commit\<close>

lemma creation_keeps:
  assumes "db_inv d" and "P d" and "faithful_to P (n_others env)" and "faithful_to P (n_others_retry env)"
    and new: "\<And>f d. P d \<Longrightarrow> P (with_payment env (new_row env (conn_now c) data k f) d)"
  shows "P (snd (in_session (create_payment sha256 env data k) c d))"
proof (cases "build_request_fingerprint sha256 data")
  case (Inr f)
  let ?base = "n_others env d" and ?d = "snd (in_session (create_payment sha256 env data k) c d)"
  let ?p = "new_row env (conn_now c) data k f"
  let ?new = "with_payment env ?p ?base"
  have base: "db_inv ?base" "P ?base" using faithful_toD [OF assms(3,1)] assms(2) by simp_all
  have left: "creation_leaves env (conn_now c) data k f d ?d"
    using create_payment_leaves [OF Inr prod.collapse [symmetric]] by blast
  have inv: "db_inv ?new"
    if "insert_payment ?p ?base = Inr (?base\<lparr>payments := payments ?base @ [?p]\<rparr>)"
      and "o_id (build_process_requested_event env ?p) \<notin> o_id ` set (outbox_events ?base)"
    using with_payment_step that base(1) db_step_inv by blast
  from left consider "?d = d" | "?d = ?base" | "?d = n_others_retry env ?base" | "?d = ?new"
    | "db_inv ?new" "?d = n_others_retry env ?new"
    using inv by (auto simp: creation_leaves_def Let_def)
  then show ?thesis
    using assms(2) base new [OF base(2)] faithful_toD(3) [OF assms(4)] by cases auto
qed (use assms(2) in \<open>simp add: create_payment_no_fingerprint\<close>)

lemma process_keeps:
  assumes "client_ok client" and "db_inv d" and "P d" and "faithful_to P (v_others env)"
    and unknown: "\<And>t p d. p \<in> set (payments d) \<Longrightarrow> P d \<Longrightarrow> P (unknown_row t p d)"
    and settled: "\<And>j resp t p d. settled_by (at_answer (v_attempts env j)) = Inr resp \<Longrightarrow> p \<in> set (payments d) \<Longrightarrow>
      p_id p = e_payment_id event \<Longrightarrow> P d \<Longrightarrow>
      P (settled_rows resp (v_processed_at env) (v_webhook_event_id env) t p d)"
  shows "P (pr_database (process client env event b d))"
proof (cases rule: process_cases [where client = client and env = env and event = event and b = b and d = d])
  case (called p q r trace b' result d')
  let ?d = "v_others env d" and ?i = "e_payment_id event"
  note ok = faithful_toD [OF assms(4,2)]
  have s: "P ?d" by (rule ok(3) [OF assms(3)])
  consider (same) "d' = ?d"
    | (unknown) "in_session (mark_unknown ?i) (v_final env) ?d = (result, d')"
    | (settled) resp where "r = Inr resp" "in_session (apply_provider_result ?i resp (v_processed_at env)
        (v_webhook_event_id env)) (v_final env) ?d = (result, d')"
    using called(7) by (auto simp: finish_processing_def split: sum.splits exn.splits provider_error.splits)
  then have "P d'"
  proof cases
    case unknown
    from mark_unknown_change [OF ok(2) unknown] show ?thesis
      by (cases rule: one_change_cases) (use s assms(5) in auto)
  next
    case (settled resp)
    have "settled_by (at_answer (v_attempts env (posts trace))) = Inr resp"
      using called_response [OF assms(1)] called(6) settled(1) by blast
    note applied = assms(6) [OF this]
    from apply_change [OF ok(2) settled(2)] show ?thesis
      by (cases rule: one_change_cases) (use s applied in auto)
  qed (use s in simp)
  with called(8) show ?thesis by simp
qed (use assms(3) in simp_all)

lemma process_webhook_keeps:
  assumes "db_inv d" and "P d" and "faithful_to P (y_others env)"
    and sent: "\<And>t u p d. p \<in> set (payments d) \<Longrightarrow> P d \<Longrightarrow> P (sent_row t u p d)"
  shows "P (dl_database (process_webhook client env event d))"
proof (cases rule: process_webhook_cases [where client = client and env = env and event = event and d = d])
  case (tried p delivery posts r result d')
  note ok = faithful_toD [OF assms(3,1)]
  have "P d'"
    using finish_delivery_change [OF ok(2) tried(5)] ok(3) [OF assms(2)] sent by (auto simp: sent_change_def)
  with tried(6) show ?thesis by simp
qed (use assms(2) in simp_all)

definition faithful_reconcile :: "(database \<Rightarrow> bool) \<Rightarrow> reconcile_env \<Rightarrow> bool" where
  "faithful_reconcile P env \<longleftrightarrow> faithful_to P (k_others1 env) \<and> faithful_to P (k_others2 env)"

lemma faithful_env: "faithful_reconcile P env \<Longrightarrow> env_moves_by db_step env"
  by (simp add: faithful_reconcile_def faithful_to_def env_moves_by_def moves_by_db_step)

text \<open>The changes of a reconciliation: leasing, renewing a lease, and what a lookup leads to.\<close>

definition reconcile_changes_ok :: "reconciler \<Rightarrow> (uuid \<Rightarrow> reconcile_env) \<Rightarrow> (database \<Rightarrow> bool) \<Rightarrow> bool" where
  "reconcile_changes_ok w env P \<longleftrightarrow>
     (\<forall>k u ids d d'. leases k u ids d d' \<and> P d \<longrightarrow> P d') \<and>
     (\<forall>u t p d. p \<in> set (payments d) \<and> P d \<longrightarrow> P (renewed_row u t p d)) \<and>
     (\<forall>k now a e t i found p d.
        (\<forall>resp. found = Some resp \<longrightarrow> get_payment_by_idempotency_key (u_answer (k_lookup (env i))) = Inr (Some resp)) \<and>
        p \<in> set (payments d) \<and> lease_held i k now p \<and> P d \<longrightarrow> P (persisted w a e t found p d))"

lemma reconcile_one_keeps:
  assumes inv: "db_inv d" and m: "1 \<le> rc_max_attempts w" and s: "P d"
    and env: "faithful_reconcile P (env i)" and ok: "reconcile_changes_ok w env P"
  shows "P (rr_database (reconcile_one w (env i) k i b d))"
proof -
  have f: "faithful_to P (k_others1 (env i))" "faithful_to P (k_others2 (env i))"
    using env by (simp_all add: faithful_reconcile_def)
  note one = faithful_toD [OF f(1) inv]
  have renewed: "db_inv d1 \<and> P d1"
    if run: "in_session (renew_claim w (k_renew_now (env i)) i k) (k_renew (env i)) (k_others1 (env i) d) = (r, d1)" for r d1
  proof
    show "db_inv d1" by (rule db_steps_inv [OF limited_steps [OF renew_steps [OF one(2) run, of 1]] one(2)])
    show "P d1"
      using renew_claim_left [OF one(2) run, of 1] one(3) [OF s] ok by (auto simp: renew_left_def reconcile_changes_ok_def)
  qed
  show ?thesis
  proof (cases rule: reconcile_one_cases [where w = w and env = "env i" and i = i and k = k and b = b and d = d])
    case (not_renewed r d1)
    with renewed show ?thesis by simp
  next
    case (no_lookup d1 e paths b')
    with renewed faithful_toD(3) [OF f(2)] show ?thesis by simp
  next
    case (looked_up d1 found paths b' r d2)
    have d1: "db_inv d1" "P d1" using renewed [OF looked_up(1)] by simp_all
    note two = faithful_toD [OF f(2) d1(1)]
    have honest: "get_payment_by_idempotency_key (u_answer (k_lookup (env i))) = Inr (Some resp)" if "found = Some resp" for resp
      using lookup_response looked_up(2) that by blast
    from ok honest have persisted: "P (persisted w a e t found p d)"
      if "p \<in> set (payments d)" "lease_held i k now p" "P d" for now a e t p d
      using that unfolding reconcile_changes_ok_def by blast
    from persist_resolution_left [OF two(2) m looked_up(3)] two(3) [OF d1(2)] persisted
    have "P d2" unfolding persist_left_def by blast
    with looked_up(4) show ?thesis by simp
  qed
qed

lemma reconcile_all_keeps:
  assumes m: "1 \<le> rc_max_attempts w" and env: "\<And>i. faithful_reconcile P (env i)" and ok: "reconcile_changes_ok w env P"
    and inv: "db_inv d" and s: "P d"
  shows "P (snd (snd (reconcile_all w env k ids n b d)))"
  using inv s
proof (induction ids arbitrary: n b d)
  case (Cons i ids)
  let ?x = "reconcile_one w (env i) k i b d"
  have "P (rr_database ?x)" by (rule reconcile_one_keeps [OF Cons.prems(1) m Cons.prems(2) env ok])
  moreover have "db_inv (rr_database ?x)"
    using reconcile_one_steps [OF between_db_step Cons.prems(1) m faithful_env [OF env]] Cons.prems(1)
    by (rule db_steps_inv)
  ultimately show ?case using Cons.IH by (auto simp: Let_def split: sum.split)
qed simp

lemma process_batch_keeps:
  assumes m: "1 \<le> rc_max_attempts w" and env: "\<And>i. faithful_reconcile P (env i)" and ok: "reconcile_changes_ok w env P"
    and inv: "db_inv d" and s: "P d"
  shows "P (snd (snd (process_batch w now k c env b d)))"
proof -
  obtain r d1 where claim: "in_session (claim_batch w now k) c d = (r, d1)"
    by (cases "in_session (claim_batch w now k) c d")
  have steps: "(limited 1)\<^sup>*\<^sup>* d d1" and "P d1"
    using claim_batch_left [OF inv claim, of 1] s ok by (auto simp: claim_left_def reconcile_changes_ok_def)
  then have "db_inv d1" "P d1" using db_steps_inv [OF limited_steps [OF steps] inv] by blast+
  with claim reconcile_all_keeps [OF m env ok] show ?thesis by (cases r) (auto simp: process_batch_def)
qed

end
