(* ===== verification/Installation.thy ===== *)
theory Installation
  imports End_To_End Provider_Exchange Rely
begin

text \<open>
  The installation with its payment provider: API, relay, worker and reconciliation of
  \<open>System\<close>, and the provider of \<open>Mock_Provider\<close>, whose answers the worker and the reconciliation
  receive. A settled payment is shown to be settled as the provider has recorded it.

  \<open>settled_as_recorded\<close> is the invariant. Each transaction keeps it: most settle nothing
  (\<open>no_new_settlement\<close>), and the two that do take the result from an answer of the provider.
\<close>

definition recorded_as :: "mock \<Rightarrow> uuid \<Rightarrow> provider_response \<Rightarrow> bool" where
  "recorded_as m i resp \<longleftrightarrow> (\<exists>rec. idempotency_records m i = Some rec \<and> agrees (ir_response rec) resp)"

definition settled_by_record :: "mock \<Rightarrow> payment \<Rightarrow> bool" where
  "settled_by_record m p \<longleftrightarrow>
     (\<exists>resp. recorded_as m (p_id p) resp \<and> p_status p = status_for (s_status resp) \<and>
        p_provider_payment_id p = Some (s_provider_payment_id resp))"

definition settled_as_recorded :: "mock \<Rightarrow> database \<Rightarrow> bool" where
  "settled_as_recorded m d \<longleftrightarrow> (\<forall>p \<in> set (payments d). terminal (p_status p) \<longrightarrow> settled_by_record m p)"

text \<open>What other transactions may do meanwhile: they keep the lifecycle and the invariant, as every
  transaction below does.\<close>

abbreviation faithful :: "mock \<Rightarrow> (database \<Rightarrow> database) \<Rightarrow> bool" where
  "faithful m \<equiv> faithful_to (settled_as_recorded m)"

subsection \<open>Changes that settle nothing\<close>

definition no_new_settlement :: "database \<Rightarrow> database \<Rightarrow> bool" where
  "no_new_settlement d d' \<longleftrightarrow>
     (\<forall>p' \<in> set (payments d'). terminal (p_status p') \<longrightarrow>
        (\<exists>p \<in> set (payments d). p_id p = p_id p' \<and> p_status p = p_status p' \<and>
           p_provider_payment_id p = p_provider_payment_id p'))"

lemma no_new_settlement_keeps:
  "no_new_settlement d d' \<Longrightarrow> settled_as_recorded m d \<Longrightarrow> settled_as_recorded m d'"
  unfolding no_new_settlement_def settled_as_recorded_def settled_by_record_def by metis

lemma no_new_settlement_refl [simp]: "no_new_settlement d d"
  by (auto simp: no_new_settlement_def)

lemma no_new_settlement_same: "payments d' = payments d \<Longrightarrow> no_new_settlement d d'"
  by (auto simp: no_new_settlement_def)

lemma no_new_settlement_replace:
  assumes "payments d' = replace_row p_id p' (payments d)" and "p \<in> set (payments d)" and "p_id p' = p_id p"
    and "terminal (p_status p') \<Longrightarrow> p_status p' = p_status p \<and> p_provider_payment_id p' = p_provider_payment_id p"
  shows "no_new_settlement d d'"
proof -
  have "x = p' \<or> x \<in> set (payments d)" if "x \<in> set (payments d')" for x
    using that assms(1) by (auto simp: set_replace_row split: if_splits)
  with assms(2-4) show ?thesis unfolding no_new_settlement_def by metis
qed

lemma no_new_settlement_append:
  "payments d' = payments d @ [p] \<Longrightarrow> \<not> terminal (p_status p) \<Longrightarrow> no_new_settlement d d'"
  by (auto simp: no_new_settlement_def)

lemma no_new_settlement_leases: "leases k u ids d d' \<Longrightarrow> no_new_settlement d d'"
  by (auto simp: leases_def no_new_settlement_def)
    (metis terminal_simps(4))

subsection \<open>Changes on the provider's word\<close>

lemma settled_by_result:
  assumes "settled_as_recorded m d" and "p \<in> set (payments d)"
    and "payments d' = replace_row p_id p' (payments d)" and "p_id p' = p_id p"
    and "p_status p' = status_for (s_status resp)" and "p_provider_payment_id p' = Some (s_provider_payment_id resp)"
    and "recorded_as m (p_id p) resp"
  shows "settled_as_recorded m d'"
proof -
  have "settled_by_record m p'" using assms(4-7) unfolding settled_by_record_def by auto
  moreover have "x = p' \<or> x \<in> set (payments d)" if "x \<in> set (payments d')" for x
    using that assms(3) by (auto simp: set_replace_row split: if_splits)
  ultimately show ?thesis using assms(1) unfolding settled_as_recorded_def by blast
qed

text \<open>The answers of a worker's requests are those the provider gave to requests for this payment,
  unless they came from elsewhere and are no success.\<close>

definition answers_from :: "mock_event list \<Rightarrow> uuid \<Rightarrow> answer \<Rightarrow> bool" where
  "answers_from evs i a \<longleftrightarrow>
     (\<forall>x. a = Responded x \<and> 200 \<le> x_status_code x \<and> x_status_code x < 300 \<longrightarrow>
        (\<exists>p y. x = as_http y \<and> Answered p i y \<in> set evs))"

definition lookups_from :: "mock_event list \<Rightarrow> uuid \<Rightarrow> answer \<Rightarrow> bool" where
  "lookups_from evs i a \<longleftrightarrow>
     (\<forall>x. a = Responded x \<and> 200 \<le> x_status_code x \<and> x_status_code x < 300 \<longrightarrow>
        (\<exists>y. x = as_http y \<and> Looked_up i y \<in> set evs))"

lemma validated_body:
  assumes "Option.bind (x_json (as_http y)) provider_response_validate = Some resp"
  shows "\<exists>r. y_body y = Payment_body r \<and> agrees r resp"
proof (cases "y_body y")
  case (Payment_body r)
  with assms validate_body_agrees [of "ms_provider_payment_id r" "ms_status r" resp] show ?thesis
    by (simp add: as_http_def agrees_def)
qed (use assms in \<open>simp_all add: as_http_def provider_response_validate_def\<close>)

lemma answered_result:
  assumes "mock_run fresh_system evs s" and "answers_from evs i a" and "settled_by a = Inr resp"
  shows "recorded_as (sys_mock s) i resp"
proof -
  from settled_by_response [OF assms(3)] obtain x where x: "a = Responded x" "200 \<le> x_status_code x"
    "x_status_code x < 300" "parse_success_response x = Inr resp" by blast
  with assms(2) obtain p y where y: "x = as_http y" "Answered p i y \<in> set evs" unfolding answers_from_def by blast
  with x have "Option.bind (x_json (as_http y)) provider_response_validate = Some resp"
    by (auto simp: parse_success_response_def split: option.splits bind_splits)
  from validated_body [OF this] obtain r where r: "y_body y = Payment_body r" "agrees r resp" by blast
  have "200 \<le> y_status_code y" "y_status_code y < 300" using x(2,3) y(1) by (simp_all add: as_http_def)
  from recorded_answers [OF assms(1) y(2) this] r show ?thesis by (auto simp: recorded_as_def)
qed

lemma looked_up_result:
  assumes "mock_run fresh_system evs s" and "lookups_from evs i a" and "get_payment_by_idempotency_key a = Inr (Some resp)"
  shows "recorded_as (sys_mock s) i resp"
proof -
  from lookup_answer [OF assms(3)] obtain x where x: "a = Responded x" "200 \<le> x_status_code x"
    "x_status_code x < 300" "Option.bind (x_json x) provider_response_validate = Some resp" by blast
  with assms(2) obtain y where y: "x = as_http y" "Looked_up i y \<in> set evs" unfolding lookups_from_def by blast
  from validated_body [OF x(4) [unfolded y(1)]] obtain r where r: "y_body y = Payment_body r" "agrees r resp" by blast
  have "y_status_code y \<noteq> 404" using x(3) y(1) by (simp add: as_http_def)
  from lookups_run [OF assms(1) y(2) this] r show ?thesis
    by (auto simp: recorded_as_def mock_get_payment_def split: option.splits)
qed

subsection \<open>Every transaction keeps the invariant\<close>

lemma creation_settles_nothing: "no_new_settlement d (with_payment env (new_row env t data k f) d)"
  by (rule no_new_settlement_append [of _ _ "new_row env t data k f"])
    (simp_all add: with_payment_def new_row_def build_payment_def)

lemma unknown_settles_nothing: "p \<in> set (payments d) \<Longrightarrow> no_new_settlement d (unknown_row t p d)"
  by (rule no_new_settlement_replace [where p = p and p' = "p\<lparr>p_status := UNKNOWN, p_updated_at := t\<rparr>"])
    (simp_all add: unknown_row_def)

lemma sent_settles_nothing: "p \<in> set (payments d) \<Longrightarrow> no_new_settlement d (sent_row u t p d)"
  by (rule no_new_settlement_replace [where p = p and p' = "p\<lparr>p_webhook_sent_at := Some u, p_updated_at := t\<rparr>"])
    (simp_all add: sent_row_def)

lemma renewal_settles_nothing: "p \<in> set (payments d) \<Longrightarrow> no_new_settlement d (renewed_row u t p d)"
  by (rule no_new_settlement_replace [where p = p and p' = "p\<lparr>p_reconciliation_lease_until := Some u, p_updated_at := t\<rparr>"])
    (simp_all add: renewed_row_def)

lemma processing_settles:
  assumes "settled_as_recorded m d" and "p \<in> set (payments d)" and "recorded_as m (p_id p) resp"
  shows "settled_as_recorded m (settled_rows resp u w t p d)"
  by (rule settled_by_result [OF assms(1,2), where resp = resp and p' = "processed_payment resp u w p\<lparr>p_updated_at := t\<rparr>"])
    (use assms(3) in \<open>simp_all add: settled_rows_def with_resolution_def processed_payment_def status_for_def\<close>)

lemma persisting_settles:
  assumes "settled_as_recorded m d" and "p \<in> set (payments d)" and "lease_held i k now p"
    and "\<And>resp. found = Some resp \<Longrightarrow> recorded_as m i resp"
  shows "settled_as_recorded m (persisted w a e t found p d)"
proof (cases found)
  case None
  have "no_new_settlement d (persisted w a e t found p d)"
    using lease_held_props [OF assms(3)]
    by (intro no_new_settlement_replace [OF _ assms(2), where
          p' = "unanswered_payment (rc_max_attempts w) p\<lparr>p_updated_at := t\<rparr>"])
      (simp_all add: None persisted_def)
  with assms(1) show ?thesis by (blast intro: no_new_settlement_keeps)
next
  case (Some resp)
  have "p_id p = i" using assms(3) by (simp add: lease_held_def)
  then show ?thesis
    by (intro settled_by_result [OF assms(1,2), where resp = resp and p' = "reconciled_payment resp a e p\<lparr>p_updated_at := t\<rparr>"])
      (use Some assms(4) in \<open>simp_all add: persisted_def with_resolution_def reconciled_payment_def status_for_def\<close>)
qed

lemma reconciliation_settles:
  assumes "\<And>i resp. get_payment_by_idempotency_key (u_answer (k_lookup (env i))) = Inr (Some resp) \<Longrightarrow> recorded_as m i resp"
  shows "reconcile_changes_ok w env (settled_as_recorded m)"
  unfolding reconcile_changes_ok_def
proof (intro conjI allI impI; elim conjE)
  show "settled_as_recorded m d'" if "leases k u ids d d'" "settled_as_recorded m d" for k u ids d d'
    by (rule no_new_settlement_keeps [OF no_new_settlement_leases [OF that(1)] that(2)])
  show "settled_as_recorded m (renewed_row u t p d)" if "p \<in> set (payments d)" "settled_as_recorded m d" for u t p d
    by (rule no_new_settlement_keeps [OF renewal_settles_nothing [OF that(1)] that(2)])
  show "settled_as_recorded m (persisted w a e t found p d)"
    if "\<forall>resp. found = Some resp \<longrightarrow> get_payment_by_idempotency_key (u_answer (k_lookup (env i))) = Inr (Some resp)"
      "p \<in> set (payments d)" "lease_held i k now p" "settled_as_recorded m d" for k now a e t i found p d
    by (rule persisting_settles [OF that(4,2,3)]) (use that(1) assms in blast)
qed

text \<open>Each of them as a \<open>keeper\<close> of the invariant: what it assumes of the others is what it grants.\<close>

definition creation_relies :: "mock \<Rightarrow> (string \<Rightarrow> string) \<times> creation_env \<times> payment_create \<times> string \<Rightarrow> bool" where
  "creation_relies m = (\<lambda>(_, env, _, _). faithful m (n_others env) \<and> faithful m (n_others_retry env))"

interpretation creation_records: keeper creation_run creation_admissible settled_as_recorded creation_relies
  by unfold_locales
    (auto simp: creation_relies_def creation_admissible_def creation_run_def dest: faithful_to_others
      intro!: creation_keeps [where P = "settled_as_recorded _"] no_new_settlement_keeps [OF creation_settles_nothing])

lemma relay_batch_payments:
  assumes "relay_batch relay clk c b d = (r, b', d')"
  shows "payments d' = payments d"
  using relay_batch_left [OF assms] by (auto simp: batch_left_def Let_def payments_marked)

interpretation relay_records: keeper relay_transaction "\<lambda>_. True" settled_as_recorded "\<lambda>_ _. True"
proof unfold_locales
  fix d m and a :: "relay \<times> (nat \<Rightarrow> time) \<times> broker" and c
  assume s: "settled_as_recorded m d"
  obtain relay clk b where a: "a = (relay, clk, b)" by (cases a)
  obtain r b' d' where run: "relay_batch relay clk c b d = (r, b', d')" by (cases "relay_batch relay clk c b d")
  from s show "settled_as_recorded m (snd (relay_transaction a c d))"
    by (simp add: a relay_transaction_def run settled_as_recorded_def relay_batch_payments [OF run])
qed simp

text \<open>The worker relies on results it reads being recorded for the payment of its event.\<close>

definition worker_relies :: "mock \<Rightarrow> worker_env \<times> event_envelope \<Rightarrow> bool" where
  "worker_relies m = (\<lambda>(((client, b, penv), (wclient, wenv)), event).
     client_ok client \<and> faithful m (v_others penv) \<and> faithful m (y_others wenv) \<and>
     (\<forall>j resp. settled_by (at_answer (v_attempts penv j)) = Inr resp \<longrightarrow> recorded_as m (e_payment_id event) resp))"

interpretation worker_records: keeper
  "\<lambda>(env, event) (_ :: unit) d. dispatch env event d" "\<lambda>(env, event). dispatch_admissible env" settled_as_recorded
  worker_relies
proof unfold_locales
  fix m and a :: "worker_env \<times> event_envelope"
  obtain client b penv wclient wenv event where a: "a = (((client, b, penv), (wclient, wenv)), event)"
    by (cases a) (metis prod.collapse)
  assume relies: "worker_relies m a"
  then show "case a of (env, event) \<Rightarrow> dispatch_admissible env"
    by (auto simp: a worker_relies_def dispatch_admissible_def processing_admissible_def delivery_admissible_def
        dest: faithful_to_others)
  fix d and c :: unit
  assume d: "db_inv d" "settled_as_recorded m d"
  have "settled_as_recorded m (pr_database (process client penv event b d))"
    using relies by (intro process_keeps [where P = "settled_as_recorded m", OF _ d])
      (auto simp: a worker_relies_def intro: processing_settles no_new_settlement_keeps [OF unknown_settles_nothing])
  moreover have "settled_as_recorded m (dl_database (process_webhook wclient wenv event d))"
    using relies by (intro process_webhook_keeps [where P = "settled_as_recorded m", OF d])
      (auto simp: a worker_relies_def intro: no_new_settlement_keeps [OF sent_settles_nothing])
  ultimately show "settled_as_recorded m (snd ((case a of (env, event) \<Rightarrow> \<lambda>_. dispatch env event) c d))"
    by (cases "e_event_type event")
      (simp_all add: a worker_relies_def dispatch_def payment_processing_def webhook_processing_def)
qed

definition round_relies :: "mock \<Rightarrow> reconciler \<times> time \<times> uuid \<times> (uuid \<Rightarrow> reconcile_env) \<times> breaker \<Rightarrow> bool" where
  "round_relies m = (\<lambda>(w, now, k, env, b).
     1 \<le> rc_max_attempts w \<and> (\<forall>i. faithful_reconcile (settled_as_recorded m) (env i) \<and>
       (\<forall>resp. get_payment_by_idempotency_key (u_answer (k_lookup (env i))) = Inr (Some resp) \<longrightarrow> recorded_as m i resp)))"

interpretation reconciliation_records: keeper round_run round_admissible settled_as_recorded round_relies
proof unfold_locales
  fix m and a :: "reconciler \<times> time \<times> uuid \<times> (uuid \<Rightarrow> reconcile_env) \<times> breaker"
  obtain w now k env b where a: "a = (w, now, k, env, b)" by (cases a)
  assume relies: "round_relies m a"
  then show "round_admissible a"
    by (auto simp: a round_relies_def round_admissible_def faithful_reconcile_def dest: faithful_to_others)
  fix d c
  assume d: "db_inv d" "settled_as_recorded m d"
  from relies have "reconcile_changes_ok w env (settled_as_recorded m)"
    by (intro reconciliation_settles) (simp add: a round_relies_def)
  with relies d show "settled_as_recorded m (snd (round_run a c d))"
    by (simp add: a round_relies_def round_run_def process_batch_keeps)
qed

subsection \<open>The installation\<close>

text \<open>One act of the program, as in \<open>System\<close>, while the provider has the records \<open>m\<close> and has given
  the answers \<open>evs\<close>: what the worker and the reconciliation read are these answers, and what other
  transactions do meanwhile is faithful to the records.\<close>

definition worker_reads :: "mock \<Rightarrow> mock_event list \<Rightarrow> uuid \<Rightarrow> worker_env \<Rightarrow> bool" where
  "worker_reads m evs i env \<longleftrightarrow>
     (case env of ((client, b, penv), (wclient, wenv)) \<Rightarrow>
        client_ok client \<and> faithful m (v_others penv) \<and> faithful m (y_others wenv) \<and>
        (\<forall>j. answers_from evs i (at_answer (v_attempts penv j))))"

inductive system_act :: "mock \<Rightarrow> mock_event list \<Rightarrow> system \<Rightarrow> system \<Rightarrow> bool" for m evs where
  act_post: "faithful m (n_others env) \<Longrightarrow> faithful m (n_others_retry env) \<Longrightarrow>
     system_act m evs s (s\<lparr>sy_database := snd (post_payments sha256 expected env req c (sy_database s))\<rparr>)"
| act_relay: "relay_batch relay clk c (sy_broker s) (sy_database s) = (r, b, d) \<Longrightarrow>
     system_act m evs s \<lparr>sy_database = d, sy_broker = b\<rparr>"
| act_worker: "msg \<in> set (b_messages (sy_broker s)) \<Longrightarrow>
     (\<And>event. envelope_validate (m_body msg) = Some event \<Longrightarrow> worker_reads m evs (e_payment_id event) env) \<Longrightarrow>
     dispatch_admissible env \<Longrightarrow>
     h = handle_payment_queue_message env settled t (m_body msg) (sy_broker s) (sy_database s) \<Longrightarrow>
     system_act m evs s \<lparr>sy_database = hd_world h, sy_broker = hd_broker h\<rparr>"
| act_reconciliation: "1 \<le> rc_max_attempts w \<Longrightarrow> (\<And>i. faithful_reconcile (settled_as_recorded m) (env i)) \<Longrightarrow>
     (\<And>i. lookups_from evs i (u_answer (k_lookup (env i)))) \<Longrightarrow>
     system_act m evs s (s\<lparr>sy_database := snd (snd (process_batch w now k c env b (sy_database s)))\<rparr>)"
| act_broker: "system_act m evs s (s\<lparr>sy_broker := (sy_broker s)\<lparr>b_replies := rs\<rparr>\<rparr>)"
| idle: "system_act m evs s s"

text \<open>The provider serves the requests for stored payments, as the worker sends them, and any lookups
  and test calls; \<open>provider_run d\<close> are its steps while all open requests are for payments of \<open>d\<close>.\<close>

definition ordered :: "database \<Rightarrow> uuid \<Rightarrow> mock_request \<Rightarrow> bool" where
  "ordered d k r \<longleftrightarrow> (\<exists>p \<in> set (payments d). k = p_id p \<and> r = as_mock_request (order_request p))"

inductive provider_run :: "database \<Rightarrow> mock_system \<Rightarrow> mock_event list \<Rightarrow> mock_system \<Rightarrow> bool" for d where
  provider_idle: "provider_run d P [] P"
| provider_works: "provider_run d P evs P' \<Longrightarrow> mock_step P' ev P'' \<Longrightarrow>
     (\<And>h. h \<in># handlers P'' \<Longrightarrow> ordered d (hl_key h) (hl_payment h)) \<Longrightarrow> provider_run d P (evs @ [ev]) P''"

record installation =
  in_system :: system
  in_provider :: mock_system
  in_answers :: "mock_event list"

inductive installation_step :: "installation \<Rightarrow> installation \<Rightarrow> bool" where
  acts: "system_act (sys_mock P) (in_answers x @ evs) (in_system x) s \<Longrightarrow>
     provider_run (sy_database s) (in_provider x) evs P \<Longrightarrow>
     installation_step x \<lparr>in_system = s, in_provider = P, in_answers = in_answers x @ evs\<rparr>"

inductive_cases installation_stepE: "installation_step x x'"

definition new_installation :: installation where
  "new_installation = \<lparr>in_system = fresh_installation, in_provider = fresh_system, in_answers = []\<rparr>"

abbreviation installation_run :: "installation \<Rightarrow> installation \<Rightarrow> bool" where
  "installation_run \<equiv> installation_step\<^sup>*\<^sup>*"

text \<open>Without the provider these are runs of \<open>System\<close>.\<close>

lemma act_is_step: "system_act m evs s s' \<Longrightarrow> system_step\<^sup>*\<^sup>* s s'"
proof (induction rule: system_act.induct)
  case (act_post env s sha256 expected req c)
  then show ?case by (auto intro: client_posts faithful_to_others)
next
  case (act_reconciliation w env s now k c b)
  then show ?case
    by (intro r_into_rtranclp reconciliation_works) (auto simp: faithful_reconcile_def dest: faithful_to_others)
qed (auto intro: relay_works worker_handles broker_changes)

lemma installation_is_system: "installation_run x x' \<Longrightarrow> system_run (in_system x) (in_system x')"
proof (induction rule: rtranclp_induct)
  case (step x' x'')
  then show ?case by (auto elim!: installation_stepE dest!: act_is_step)
qed simp

lemma act_settled:
  assumes "system_act (sys_mock P) evs s s'" and "mock_run fresh_system evs P" and "db_inv (sy_database s)"
    and "settled_as_recorded (sys_mock P) (sy_database s)"
  shows "settled_as_recorded (sys_mock P) (sy_database s')"
  using assms
proof (induction rule: system_act.induct)
  case (act_post env s sha256 expected req c)
  let ?d = "sy_database s"
  show ?case
  proof (cases rule: post_payments_cases [of sha256 expected env req c ?d])
    case (run data key r d')
    have "settled_as_recorded (sys_mock P) d'"
      using creation_records.keeps [of ?d "sys_mock P" "(sha256, env, data, strip key)" c] act_post run(7)
      by (simp add: creation_relies_def creation_run_def)
    with run(8) show ?thesis by (simp add: create_endpoint_cases [OF run(6,7)])
  qed (use act_post in simp)
next
  case (act_relay relay clk c s r b d)
  then show ?case
    using relay_records.keeps [of "sy_database s" "sys_mock P" "(relay, clk, sy_broker s)" c]
    by (simp add: relay_transaction_def)
next
  case (act_worker msg s env h settled t)
  have "settled_as_recorded (sys_mock P) (snd (dispatch env event (sy_database s)))"
    if "envelope_validate (m_body msg) = Some event" for event
  proof -
    have "worker_relies (sys_mock P) (env, event)"
      using act_worker(2) [OF that] answered_result [OF act_worker(5)]
      by (auto simp: worker_relies_def worker_reads_def split: prod.splits)
    from worker_records.keeps [OF act_worker(6) this act_worker(7)] show ?thesis by simp
  qed
  with act_worker(4,7) show ?case
    by (simp add: handle_payment_queue_message_def handle_world split: option.split)
next
  case (act_reconciliation w env s now k c b)
  then show ?case
    using looked_up_result [OF act_reconciliation(4) act_reconciliation(3)]
      reconciliation_records.keeps [of "sy_database s" "sys_mock P" "(w, now, k, env, b)" c]
    by (simp add: round_relies_def round_run_def)
qed simp_all

lemma mock_run_append: "mock_run s evs s' \<Longrightarrow> provider_run d s' evs' s'' \<Longrightarrow> mock_run s (evs @ evs') s''"
proof (rotate_tac, induction rule: provider_run.induct)
  case (provider_works P evs' P' ev P'')
  then show ?case using mock_snoc [of s "evs @ evs'" P' ev P''] by simp
qed simp

subsection \<open>What the provider was asked for\<close>

definition requests_ordered :: "database \<Rightarrow> mock_system \<Rightarrow> bool" where
  "requests_ordered d P \<longleftrightarrow>
     (\<forall>h \<in># handlers P. ordered d (hl_key h) (hl_payment h)) \<and>
     (\<forall>k rec. idempotency_records (sys_mock P) k = Some rec \<longrightarrow> ordered d k (ir_request rec))"

lemma ordered_later: "history_le d d' \<Longrightarrow> ordered d k r \<Longrightarrow> ordered d' k r"
  unfolding history_le_def row_le_def same_order_def ordered_def order_request_def by metis

lemma requests_ordered_later: "history_le d d' \<Longrightarrow> requests_ordered d P \<Longrightarrow> requests_ordered d' P"
  unfolding requests_ordered_def using ordered_later by blast

lemma section_request:
  assumes "locked_section u i p k sc m = (result, m')" and "idempotency_records m' k' = Some rec"
  shows "idempotency_records m k' = Some rec \<or> (k' = k \<and> ir_request rec = p)"
  using assms
  by (cases "idempotency_records m k") (auto simp: locked_section_def Let_def split: if_splits)

text \<open>A record is an old one or that of a run that was in the provider.\<close>

lemma new_record:
  assumes "mock_step P ev P'" and "idempotency_records (sys_mock P') k = Some rec"
  shows "idempotency_records (sys_mock P) k = Some rec \<or>
    (\<exists>h \<in># handlers P. hl_key h = k \<and> hl_payment h = ir_request rec)"
  using assms
proof (induction rule: mock_step.induct)
  case (left h r u i m result m' H)
  then show ?case using section_request [OF left(2), of k rec] by auto
next
  case (left_delayed h r u i m result m' H)
  then show ?case using section_request [OF left_delayed(2), of k rec] by auto
next
  case (tested m' sc m c p i a H)
  then show ?case using records_tested [OF tested(1)] by simp
qed (simp_all add: records_enter records_acquire)

lemma requests_ordered_run:
  assumes "provider_run d P evs P'" and "requests_ordered d P"
  shows "requests_ordered d P'"
  using assms
proof (induction rule: provider_run.induct)
  case (provider_works P evs P' ev P'')
  then have "requests_ordered d P'" by blast
  with provider_works(3) new_record [OF provider_works(2)] show ?case
    unfolding requests_ordered_def by metis
qed

lemma recorded_as_later:
  "recorded_as m i resp \<Longrightarrow> idempotency_records m \<subseteq>\<^sub>m idempotency_records m' \<Longrightarrow> recorded_as m' i resp"
  using record_later unfolding recorded_as_def by blast

lemma settled_as_recorded_later:
  "settled_as_recorded m d \<Longrightarrow> idempotency_records m \<subseteq>\<^sub>m idempotency_records m' \<Longrightarrow> settled_as_recorded m' d"
  unfolding settled_as_recorded_def settled_by_record_def using recorded_as_later by blast

lemma provider_run_records:
  "provider_run d P evs P' \<Longrightarrow> idempotency_records (sys_mock P) \<subseteq>\<^sub>m idempotency_records (sys_mock P')"
proof (induction rule: provider_run.induct)
  case (provider_works P evs P' ev P'')
  then show ?case using records_step map_le_trans by blast
qed simp

subsection \<open>The invariant of the installation\<close>

definition installation_ok :: "installation \<Rightarrow> bool" where
  "installation_ok x \<longleftrightarrow>
     mock_run fresh_system (in_answers x) (in_provider x) \<and>
     db_inv (sy_database (in_system x)) \<and>
     settled_as_recorded (sys_mock (in_provider x)) (sy_database (in_system x)) \<and>
     requests_ordered (sy_database (in_system x)) (in_provider x)"

lemma installation_ok_new: "installation_ok new_installation"
  using empty_database_inv
  by (simp add: installation_ok_def new_installation_def mock_nil fresh_installation_def empty_database_def
      settled_as_recorded_def requests_ordered_def fresh_system_def fresh_mock_def)

lemma installation_ok_step: "installation_step x x' \<Longrightarrow> installation_ok x \<Longrightarrow> installation_ok x'"
proof (induction rule: installation_step.induct)
  case (acts P x evs s)
  have run: "mock_run fresh_system (in_answers x @ evs) P"
    using mock_run_append [OF _ acts(2)] acts(3) by (simp add: installation_ok_def)
  have inv: "db_inv (sy_database (in_system x))" using acts(3) by (simp add: installation_ok_def)
  have "db_step\<^sup>*\<^sup>* (sy_database (in_system x)) (sy_database s)"
    by (rule system_run_refines [OF act_is_step [OF acts(1)] inv])
  then have later: "db_inv (sy_database s)" "history_le (sy_database (in_system x)) (sy_database s)"
    using inv db_steps_inv db_steps_history by blast+
  have "settled_as_recorded (sys_mock P) (sy_database (in_system x))"
    using acts(3) settled_as_recorded_later [OF _ provider_run_records [OF acts(2)]]
    by (simp add: installation_ok_def)
  from act_settled [OF acts(1) run inv this]
  have "settled_as_recorded (sys_mock P) (sy_database s)" .
  moreover have "requests_ordered (sy_database s) P"
    using acts(3) requests_ordered_later [OF later(2)] requests_ordered_run [OF acts(2)]
    by (simp add: installation_ok_def)
  ultimately show ?case using run later(1) by (simp add: installation_ok_def)
qed

lemma installation_ok_run: "installation_run x x' \<Longrightarrow> installation_ok x \<Longrightarrow> installation_ok x'"
  by (induction rule: rtranclp_induct) (auto intro: installation_ok_step)

lemma terminal_record:
  assumes "installation_run new_installation x" and "p \<in> set (payments (sy_database (in_system x)))"
    and "terminal (p_status p)"
  shows "\<exists>rec resp. idempotency_records (sys_mock (in_provider x)) (p_id p) = Some rec \<and>
    agrees (ir_response rec) resp \<and> p_status p = status_for (s_status resp) \<and>
    p_provider_payment_id p = Some (ms_provider_payment_id (ir_response rec)) \<and>
    ir_request rec = \<lparr>m_payment_id = p_id p, m_amount = p_amount p, m_currency = currency_value (p_currency p)\<rparr>"
proof -
  have ok: "installation_ok x" by (rule installation_ok_run [OF assms(1) installation_ok_new])
  with assms(2,3) obtain rec resp where rec: "idempotency_records (sys_mock (in_provider x)) (p_id p) = Some rec"
    "agrees (ir_response rec) resp" "p_status p = status_for (s_status resp)"
    "p_provider_payment_id p = Some (s_provider_payment_id resp)"
    by (auto simp: installation_ok_def settled_as_recorded_def settled_by_record_def recorded_as_def)
  from ok rec(1) obtain q where q: "q \<in> set (payments (sy_database (in_system x)))" "p_id p = p_id q"
    "ir_request rec = as_mock_request (order_request q)"
    unfolding installation_ok_def requests_ordered_def ordered_def by blast
  have "q = p" using ok same_payment [OF _ q(1) assms(2)] q(2) by (simp add: installation_ok_def db_inv_def)
  with rec q(3) show ?thesis
    by (intro exI [of _ rec] exI [of _ resp]) (simp add: as_mock_request_def order_request_def agrees_def)
qed


subsection \<open>What a merchant receives\<close>

text \<open>C14. Webhooks may be repeated but never differ: whatever happens between two deliveries about one
  payment, by any workers, their body, their URL and their id are the same, so that a merchant can
  recognise the repetition by its id.\<close>

theorem webhooks_repeat_identically:
  assumes "system_run fresh_installation s" and "system_run s s'"
    and "post \<in> set (dl_sent (process_webhook client env event (sy_database s)))"
    and "post' \<in> set (dl_sent (process_webhook client' env' event' (sy_database s')))"
    and "e_payment_id event' = e_payment_id event"
  shows "hp_body post' = hp_body post \<and> hp_url post' = hp_url post \<and> e_event_id event' = e_event_id event"
proof -
  have inv: "db_inv (sy_database s)"
    using system_run_refines [OF assms(1)] db_steps_inv empty_database_inv by (fastforce simp: fresh_installation_def)
  have steps: "db_step\<^sup>*\<^sup>* (sy_database s) (sy_database s')" by (rule system_run_refines [OF assms(2) inv])
  have c: "constraints_ok (sy_database s')" using db_steps_inv [OF steps inv] by (simp add: db_inv_def)
  from assms(3) obtain p u where p: "p \<in> set (payments (sy_database s))" "p_id p = e_payment_id event"
    "terminal (p_status p)" "p_webhook_event_id p = Some (e_event_id event)" "p_processed_at p = Some u"
    "hp_url post = p_webhook_url p" "hp_body post = delivery_payload p (e_event_id event) u"
    by (rule sent_post) auto
  from assms(4) obtain q u' where q: "q \<in> set (payments (sy_database s'))" "p_id q = e_payment_id event'"
    "p_webhook_event_id q = Some (e_event_id event')" "p_processed_at q = Some u'"
    "hp_url post' = p_webhook_url q" "hp_body post' = delivery_payload q (e_event_id event') u'"
    by (rule sent_post) auto
  obtain p' where p': "p' \<in> set (payments (sy_database s'))" "row_le p p'" "p_id p' = p_id p"
    by (rule history_payment [OF db_steps_history [OF steps inv] p(1)])
  have "p' = q" using same_payment [OF c p'(1) q(1)] p'(3) p(2) q(2) assms(5) by simp
  then have "same_order p q" "same_outcome p q" using p'(2) p(3) by (simp_all add: row_le_def)
  with p q show ?thesis by (simp add: same_order_def same_outcome_def delivery_payload_def)
qed


subsection \<open>A run\<close>

text \<open>A payment is created, its event published, and the worker settles it with an answer that the
  provider gives during the same step.\<close>

lemma provider_run_three:
  assumes "mock_step P e1 s1" and "mock_step s1 e2 s2" and "mock_step s2 e3 s3"
    and "\<forall>h. h \<in># handlers s1 \<or> h \<in># handlers s2 \<or> h \<in># handlers s3 \<longrightarrow> ordered d (hl_key h) (hl_payment h)"
  shows "provider_run d P [e1, e2, e3] s3"
  using provider_works [OF provider_works [OF provider_works [OF provider_idle assms(1)] assms(2)] assms(3)] assms(4)
  by simp

definition sample_paid :: database where
  "sample_paid = settled_rows sample_response 79 (UUID 3) 80 sample_payment sample_published"

lemma sample_published_inv: "db_inv sample_published"
  using db_steps_inv [OF relay_batch_steps [OF sample_database_inv sample_batch_run] sample_database_inv] .

lemma sample_published_payments: "payments sample_published = [sample_payment]"
  by (simp add: sample_published_def payments_marked)

lemma sample_message:
  "b_messages sample_queued = [message_of 5 (build_process_requested_event sample_env sample_payment)]"
  "m_body (message_of 5 (build_process_requested_event sample_env sample_payment)) = envelope_dump sample_event"
proof -
  have e: "process_requested_envelope sample_env sample_payment = sample_event"
    by (simp add: process_requested_envelope_def sample_event_def) (simp add: sample_env_def)
  show "b_messages sample_queued = [message_of 5 (build_process_requested_event sample_env sample_payment)]"
    by (simp add: sample_queued_def sample_selected empty_broker_def)
  show "m_body (message_of 5 (build_process_requested_event sample_env sample_payment)) = envelope_dump sample_event"
    by (simp add: message_of_def message_for_def build_process_requested_event_def e envelope_validate_dump Let_def)
qed

lemma sample_worker_pays:
  "handle_payment_queue_message sample_worker (\<lambda>_. Inr ()) 5 (envelope_dump sample_event) b sample_published =
     \<lparr>hd_settlement = Some Ack, hd_result = Inr (), hd_broker = b, hd_world = sample_paid\<rparr>"
proof -
  have "map o_id (outbox_events sample_published) = map o_id (outbox_events sample_database)"
    by (simp only: sample_published_def marked_ids)
  then have "o_id ` set (outbox_events sample_published) = o_id ` set (outbox_events sample_database)"
    by (metis set_map)
  then have u: "unused (UUID 9) (UUID 3) sample_published"
    using sample_unused by (simp add: unused_def sample_published_payments)
  show ?thesis
    unfolding sample_worker_def sample_paid_def
    by (rule trans [OF worker_settles [OF sample_published_inv, where p = sample_payment and event = sample_event
            and resp = sample_response and trace = sample_trace and ?t1.0 = 61 and ?t2.0 = 80]])
      (simp_all add: sample_published_payments sample_amount_ok envelope_validate_dump sample_processing_def
        sample_breaker_def order_request_def sample_trace_def sample_recovering sample_response_def u)
qed

lemma sample_approved: "approved_response = as_http \<lparr>y_status_code = 200, y_body = Payment_body sample_mock_response\<rparr>"
  by (simp add: as_http_def sample_mock_response_def approved_response_def provider_response_dump_def)

lemma paid_run:
  "\<exists>x. installation_run new_installation x \<and> in_system x = \<lparr>sy_database = sample_paid, sy_broker = sample_queued\<rparr>"
proof -
  let ?x1 = "\<lparr>in_system = stored_system, in_provider = fresh_system, in_answers = []\<rparr>"
  let ?x2 = "\<lparr>in_system = queued_system, in_provider = fresh_system, in_answers = []\<rparr>"
  let ?y = "\<lparr>y_status_code = 200, y_body = Payment_body sample_mock_response\<rparr>"
  let ?evs = "[Silent, Silent, Answered sample_mock_request (UUID 1) ?y]"
  let ?s = "\<lparr>sy_database = sample_paid, sy_broker = sample_queued\<rparr>"
  have "faithful m (n_others sample_env)" "faithful m (n_others_retry sample_env)" for m
    by (simp_all add: sample_env_def)
  from act_post [OF this, of "sys_mock fresh_system" "[]" fresh_installation rev "''secret''" sample_create_request "healthy 60"]
  have "system_act (sys_mock fresh_system) [] fresh_installation stored_system"
    by (simp add: fresh_installation_def stored_system_def sample_post empty_broker_def)
  then have "installation_step new_installation ?x1"
    using acts [where x = new_installation and evs = "[]" and P = fresh_system and s = stored_system]
    by (simp add: new_installation_def provider_idle)
  moreover have "installation_step ?x1 ?x2"
    using acts [where x = ?x1 and evs = "[]" and P = fresh_system and s = queued_system]
      act_relay [of sample_relay "\<lambda>i. 70 + int i" "healthy 75" stored_system]
    by (simp add: stored_system_def queued_system_def sample_batch_run provider_idle)
  moreover have "\<exists>P. installation_step ?x2 \<lparr>in_system = ?s, in_provider = P, in_answers = ?evs\<rparr>"
  proof (rule mock_sample_steps)
    fix s1 s2 s3
    assume st: "mock_step fresh_system Silent s1" "mock_step s1 Silent s2"
      "mock_step s2 (Answered sample_mock_request (UUID 1) ?y) s3"
      and h: "\<forall>h. h \<in># handlers s1 \<or> h \<in># handlers s2 \<longrightarrow> hl_key h = UUID 1 \<and> hl_payment h = sample_mock_request"
      and s3: "handlers s3 = {#}"
    have "ordered sample_paid (UUID 1) sample_mock_request"
      by (auto simp: ordered_def sample_paid_def settled_rows_def with_resolution_def sample_published_payments
          replace_row_def processed_payment_def as_mock_request_def order_request_def sample_mock_request_def)
        (simp_all add: sample_payment_def new_row_def build_payment_def sample_request_def)
    with h s3 have "provider_run sample_paid fresh_system ?evs s3"
      by (intro provider_run_three [OF st]) auto
    moreover have "system_act (sys_mock s3) ?evs queued_system ?s"
    proof -
      let ?msg = "message_of 5 (build_process_requested_event sample_env sample_payment)"
      let ?h = "handle_payment_queue_message sample_worker (\<lambda>_. Inr ()) 5 (m_body ?msg) (sy_broker queued_system)
        (sy_database queued_system)"
      have answers: "answers_from ?evs (UUID 1) (at_answer (recovering j))" for j
        by (auto simp: answers_from_def recovering_def sample_attempt_def unavailable_response_def sample_approved)
      have "system_act (sys_mock s3) ?evs queued_system \<lparr>sy_database = hd_world ?h, sy_broker = hd_broker ?h\<rparr>"
      proof (rule act_worker [OF _ _ sample_worker_ok refl])
        show "?msg \<in> set (b_messages (sy_broker queued_system))" by (simp add: queued_system_def sample_message)
        fix event
        assume "envelope_validate (m_body ?msg) = Some event"
        then have "event = sample_event" by (simp add: sample_message envelope_validate_dump)
        then show "worker_reads (sys_mock s3) ?evs (e_payment_id event) sample_worker"
          using answers new_client_ok [OF sample_client_new]
          by (simp add: worker_reads_def sample_worker_def sample_processing_def sample_delivery_def)
      qed
      moreover have "?h = \<lparr>hd_settlement = Some Ack, hd_result = Inr (), hd_broker = sample_queued, hd_world = sample_paid\<rparr>"
        by (simp add: queued_system_def sample_message sample_worker_pays)
      ultimately show ?thesis by simp
    qed
    ultimately show ?thesis
      using acts [where P = s3 and x = ?x2 and evs = ?evs and s = ?s] by auto
  qed
  ultimately obtain P where "installation_run new_installation \<lparr>in_system = ?s, in_provider = P, in_answers = ?evs\<rparr>"
    by (blast intro: converse_rtranclp_into_rtranclp)
  then show ?thesis by (intro exI conjI) (assumption, simp)
qed


lemma sample_paid_payment:
  obtains p where "payments sample_paid = [p]" "p_id p = UUID 1" "p_status p = SUCCEEDED"
    "p_amount p = Decimal 15 (-1)" "p_webhook_sent_at p = None" "p_webhook_event_id p = Some (UUID 3)"
    "p_processed_at p = Some 79"
  by (rule that [of "processed_payment sample_response 79 (UUID 3) sample_payment\<lparr>p_updated_at := 80\<rparr>"])
    (simp_all add: sample_paid_def settled_rows_def with_resolution_def sample_published_payments
      replace_row_def processed_payment_def sample_response_def,
     simp_all add: sample_payment_def new_row_def build_payment_def sample_request_def sample_env_def)

lemma sample_paid_inv: "db_inv sample_paid"
proof -
  obtain x where "installation_run new_installation x" "sy_database (in_system x) = sample_paid"
    using paid_run by fastforce
  with installation_ok_run [OF _ installation_ok_new] show ?thesis by (metis installation_ok_def)
qed

lemma sample_paid_post:
  obtains post where "process_webhook \<lparr>wh_timeout_seconds = 5\<rparr> sample_delivery (webhook_envelope (UUID 3) (UUID 1) 79) sample_paid =
      \<lparr>dl_result = Inr (), dl_sent = [post], dl_database = dl_database (process_webhook \<lparr>wh_timeout_seconds = 5\<rparr> sample_delivery
        (webhook_envelope (UUID 3) (UUID 1) 79) sample_paid)\<rparr>"
    "h_payment_id (hp_body post) = UUID 1" "h_amount (hp_body post) = Decimal 15 (-1)"
proof (rule sample_paid_payment)
  fix p
  assume p: "payments sample_paid = [p]" "p_id p = UUID 1" "p_status p = SUCCEEDED"
    "p_amount p = Decimal 15 (-1)" "p_webhook_sent_at p = None" "p_webhook_event_id p = Some (UUID 3)"
    "p_processed_at p = Some 79"
  have a: "amount_field_ok (p_amount p)"
    using sample_amount_ok p(4) by (simp add: sample_payment_def new_row_def build_payment_def sample_request_def)
  from delivery_run [OF sample_paid_inv, where p = p and event = "webhook_envelope (UUID 3) (UUID 1) 79" and t = 79
      and env = sample_delivery and x = approved_response and client = "\<lparr>wh_timeout_seconds = 5\<rparr>"
      and ?t1.0 = 85 and ?t2.0 = 91] p a
  show thesis
    by (intro that) (simp add: webhook_envelope_def sample_delivery_def approved_response_def delivery_payload_def)+
qed

theorem webhooks_repeat_identically_witness:
  "\<exists>post. post \<in> set (dl_sent (process_webhook \<lparr>wh_timeout_seconds = 5\<rparr> sample_delivery
      (webhook_envelope (UUID 3) (UUID 1) 79) sample_paid)) \<and>
    (\<forall>post' \<in> set (dl_sent (process_webhook \<lparr>wh_timeout_seconds = 5\<rparr> sample_delivery
      ((webhook_envelope (UUID 3) (UUID 1) 79)\<lparr>e_attempt := 2\<rparr>) sample_paid)). hp_body post' = hp_body post)"
proof (rule sample_paid_post)
  fix post
  assume post: "process_webhook \<lparr>wh_timeout_seconds = 5\<rparr> sample_delivery (webhook_envelope (UUID 3) (UUID 1) 79) sample_paid =
      \<lparr>dl_result = Inr (), dl_sent = [post], dl_database = dl_database (process_webhook \<lparr>wh_timeout_seconds = 5\<rparr> sample_delivery
        (webhook_envelope (UUID 3) (UUID 1) 79) sample_paid)\<rparr>"
  obtain x where x: "installation_run new_installation x" "sy_database (in_system x) = sample_paid"
    using paid_run by fastforce
  from installation_is_system [OF x(1)] have "system_run fresh_installation (in_system x)"
    by (simp add: new_installation_def)
  note same = webhooks_repeat_identically [OF this rtranclp.rtrancl_refl, unfolded x(2)]
  have out: "post \<in> set (dl_sent (process_webhook \<lparr>wh_timeout_seconds = 5\<rparr> sample_delivery
      (webhook_envelope (UUID 3) (UUID 1) 79) sample_paid))" by (subst post) simp
  show ?thesis
  proof (rule exI [of _ post], rule conjI [OF out], rule ballI)
    fix post'
    assume "post' \<in> set (dl_sent (process_webhook \<lparr>wh_timeout_seconds = 5\<rparr> sample_delivery
      ((webhook_envelope (UUID 3) (UUID 1) 79)\<lparr>e_attempt := 2\<rparr>) sample_paid))"
    from same [OF out this] show "hp_body post' = hp_body post" by simp
  qed
qed


end
