(* ===== verification/Publication.thy ===== *)
theory Publication
  imports Rely
begin

text \<open>
  From the outbox to the broker, in the whole system: an event that is marked as published has its
  message stored. \<open>published_in M\<close> is the property for a set \<open>M\<close> of stored messages. The relay marks
  an event only after the broker has confirmed its message; every other component marks none, and
  keeps the property if the transactions beside it do. \<open>publication_run\<close> are the runs of \<open>System\<close> in
  which other relays may publish as well, also while a component is between two of its transactions.
\<close>

subsection \<open>Stored messages\<close>

definition stored_in :: "rabbit_message set \<Rightarrow> outbox_event \<Rightarrow> bool" where
  "stored_in M ev \<longleftrightarrow> (\<exists>t. message_of t ev \<in> M)"

definition published_in :: "rabbit_message set \<Rightarrow> database \<Rightarrow> bool" where
  "published_in M d \<longleftrightarrow> (\<forall>ev \<in> set (outbox_events d). o_published_at ev \<noteq> None \<longrightarrow> stored_in M ev)"

lemma published_in_mono: "published_in M d \<Longrightarrow> M \<subseteq> M' \<Longrightarrow> published_in M' d"
  unfolding published_in_def stored_in_def by blast

text \<open>A change that marks no event.\<close>

definition marks_none :: "database \<Rightarrow> database \<Rightarrow> bool" where
  "marks_none d d' \<longleftrightarrow>
     (\<forall>ev \<in> set (outbox_events d'). o_published_at ev \<noteq> None \<longrightarrow> ev \<in> set (outbox_events d))"

lemma marks_none_keeps: "marks_none d d' \<Longrightarrow> published_in M d \<Longrightarrow> published_in M d'"
  by (auto simp: marks_none_def published_in_def)

lemma marks_none_same: "outbox_events d' = outbox_events d \<Longrightarrow> marks_none d d'"
  by (simp add: marks_none_def)

lemma marks_none_changes:
  "marks_none d (with_payment env p d)" "marks_none d (unknown_row t p d)" "marks_none d (sent_row u t p d)"
  "marks_none d (renewed_row u t p d)" "marks_none d (settled_rows resp u w t p d)"
  "marks_none d (persisted r a e t found p d)" "leases k u ids d d' \<Longrightarrow> marks_none d d'"
  by (auto simp: marks_none_def with_payment_def unknown_row_def sent_row_def renewed_row_def settled_rows_def
      persisted_def with_resolution_def leases_def build_process_requested_event_def created_def
      webhook_outbox_event_def Let_def split: option.splits)

lemmas keeps_published = marks_none_keeps [OF marks_none_changes(1)] marks_none_keeps [OF marks_none_changes(2)]
  marks_none_keeps [OF marks_none_changes(3)] marks_none_keeps [OF marks_none_changes(4)]
  marks_none_keeps [OF marks_none_changes(5)] marks_none_keeps [OF marks_none_changes(6)]

text \<open>The relay marks what it has published.\<close>

lemma relay_batch_published:
  assumes "db_inv d" and "relay_batch relay clk c b d = (r, b', d')"
    and "set (b_messages b') \<subseteq> M" and "published_in M d"
  shows "published_in M d'"
proof -
  let ?t = "rl_timeout_seconds relay" and ?evs = "select_unpublished (rl_batch_size relay) (conn_locked c) d"
  have cons: "constraints_ok d" using assms(1) by (simp add: db_inv_def)
  consider "d' = d"
    | "d' = fold update_outbox_event (mark_all clk 0 ?evs) d" "message_of ?t ` set ?evs \<subseteq> M"
    using relay_batch_left [OF assms(2)] assms(3) by (auto simp: batch_left_def Let_def)
  then show ?thesis
  proof cases
    case 2
    have "stored_in M y" if y: "y \<in> set (outbox_events d')" "o_published_at y \<noteq> None" for y
    proof -
      from y(1) obtain x where x: "x \<in> set (outbox_events d)"
        "y = (case find_row o_id (o_id x) (mark_all clk 0 ?evs) of None \<Rightarrow> x | Some m \<Rightarrow> m)"
        unfolding 2(1) marked_outbox [OF cons] by auto
      with marked_event [OF cons x(1)] obtain j where
        "y = (if x \<in> set ?evs then x\<lparr>o_published_at := Some (clk j)\<rparr> else x)" by metis
      then show ?thesis
        using x(1) y(2) 2(2) assms(4) by (auto simp: published_in_def stored_in_def split: if_splits)
    qed
    then show ?thesis by (simp add: published_in_def)
  qed (use assms(4) in simp)
qed

subsection \<open>Every component keeps it\<close>

definition creation_beside :: "rabbit_message set \<Rightarrow> (string \<Rightarrow> string) \<times> creation_env \<times> payment_create \<times> string \<Rightarrow> bool" where
  "creation_beside M = (\<lambda>(_, env, _, _). faithful_to (published_in M) (n_others env) \<and>
     faithful_to (published_in M) (n_others_retry env))"

interpretation creation_publishes: keeper creation_run creation_admissible published_in creation_beside
  by unfold_locales
    (auto simp: creation_beside_def creation_admissible_def creation_run_def dest: faithful_to_others
      intro!: creation_keeps [where P = "published_in _"] keeps_published)

definition worker_beside :: "rabbit_message set \<Rightarrow> worker_env \<times> event_envelope \<Rightarrow> bool" where
  "worker_beside M = (\<lambda>(((client, b, penv), (wclient, wenv)), event).
     client_ok client \<and> faithful_to (published_in M) (v_others penv) \<and> faithful_to (published_in M) (y_others wenv))"

interpretation worker_publishes: keeper
  "\<lambda>(env, event) (_ :: unit) d. dispatch env event d" "\<lambda>(env, event). dispatch_admissible env" published_in worker_beside
proof unfold_locales
  fix M and a :: "worker_env \<times> event_envelope"
  obtain client b penv wclient wenv event where a: "a = (((client, b, penv), (wclient, wenv)), event)"
    by (cases a) (metis prod.collapse)
  assume beside: "worker_beside M a"
  then show "case a of (env, event) \<Rightarrow> dispatch_admissible env"
    by (auto simp: a worker_beside_def dispatch_admissible_def processing_admissible_def delivery_admissible_def
        dest: faithful_to_others)
  fix d and c :: unit
  assume d: "db_inv d" "published_in M d"
  have "published_in M (pr_database (process client penv event b d))"
    using beside by (intro process_keeps [where P = "published_in M", OF _ d]) (auto simp: a worker_beside_def intro: keeps_published)
  moreover have "published_in M (dl_database (process_webhook wclient wenv event d))"
    using beside by (intro process_webhook_keeps [where P = "published_in M", OF d]) (auto simp: a worker_beside_def intro: keeps_published)
  ultimately show "published_in M (snd ((case a of (env, event) \<Rightarrow> \<lambda>_. dispatch env event) c d))"
    by (cases "e_event_type event")
      (simp_all add: a dispatch_def payment_processing_def webhook_processing_def)
qed

definition round_beside :: "rabbit_message set \<Rightarrow> reconciler \<times> time \<times> uuid \<times> (uuid \<Rightarrow> reconcile_env) \<times> breaker \<Rightarrow> bool" where
  "round_beside M = (\<lambda>(w, now, k, env, b). 1 \<le> rc_max_attempts w \<and> (\<forall>i. faithful_reconcile (published_in M) (env i)))"

interpretation reconciliation_publishes: keeper round_run round_admissible published_in round_beside
proof unfold_locales
  fix M and a :: "reconciler \<times> time \<times> uuid \<times> (uuid \<Rightarrow> reconcile_env) \<times> breaker"
  obtain w now k env b where a: "a = (w, now, k, env, b)" by (cases a)
  assume beside: "round_beside M a"
  then show "round_admissible a"
    by (auto simp: a round_beside_def round_admissible_def faithful_reconcile_def dest: faithful_to_others)
  fix d c
  assume d: "db_inv d" "published_in M d"
  have "reconcile_changes_ok w env (published_in M)"
    unfolding reconcile_changes_ok_def by (blast intro: keeps_published marks_none_keeps [OF marks_none_changes(7)])
  with beside d show "published_in M (snd (round_run a c d))"
    by (simp add: a round_beside_def round_run_def process_batch_keeps)
qed

subsection \<open>The system\<close>

text \<open>As in \<open>System\<close>; \<open>b'\<close> is the broker afterwards, which holds what it held and may hold more, stored
  by relays that ran beside the step. The transactions of these and of all others keep
  \<open>published_in\<close> for the messages stored by then.\<close>

definition holds_more :: "broker \<Rightarrow> broker \<Rightarrow> bool" where
  "holds_more b b' \<longleftrightarrow> set (b_messages b) \<subseteq> set (b_messages b')"

abbreviation beside :: "broker \<Rightarrow> (database \<Rightarrow> database) \<Rightarrow> bool" where
  "beside b' \<equiv> faithful_to (published_in (set (b_messages b')))"

inductive publication_step :: "system \<Rightarrow> system \<Rightarrow> bool" where
  pub_post: "beside b' (n_others env) \<Longrightarrow> beside b' (n_others_retry env) \<Longrightarrow> holds_more (sy_broker s) b' \<Longrightarrow>
     publication_step s
       \<lparr>sy_database = snd (post_payments sha256 expected env req c (sy_database s)), sy_broker = b'\<rparr>"
| pub_get:
     "publication_step s (s\<lparr>sy_database := snd (get_payments parse_url expected k i c (sy_database s))\<rparr>)"
| pub_relay: "relay_batch relay clk c (sy_broker s) (sy_database s) = (r, b, d) \<Longrightarrow> holds_more b b' \<Longrightarrow>
     publication_step s \<lparr>sy_database = d, sy_broker = b'\<rparr>"
| pub_worker: "m \<in> set (b_messages (sy_broker s)) \<Longrightarrow> client_ok client \<Longrightarrow> beside b' (v_others penv) \<Longrightarrow>
     beside b' (y_others wenv) \<Longrightarrow>
     h = handle_payment_queue_message ((client, cb, penv), (wclient, wenv)) settled t (m_body m) (sy_broker s)
       (sy_database s) \<Longrightarrow>
     holds_more (hd_broker h) b' \<Longrightarrow> publication_step s \<lparr>sy_database = hd_world h, sy_broker = b'\<rparr>"
| pub_reconciliation: "1 \<le> rc_max_attempts w \<Longrightarrow>
     (\<And>i. faithful_reconcile (published_in (set (b_messages b'))) (env i)) \<Longrightarrow> holds_more (sy_broker s) b' \<Longrightarrow>
     publication_step s
       \<lparr>sy_database = snd (snd (process_batch w now k c env b (sy_database s))), sy_broker = b'\<rparr>"
| pub_broker: "holds_more (sy_broker s) b' \<Longrightarrow> publication_step s (s\<lparr>sy_broker := b'\<rparr>)"

abbreviation publication_run :: "system \<Rightarrow> system \<Rightarrow> bool" where
  "publication_run \<equiv> publication_step\<^sup>*\<^sup>*"

definition publication_ok :: "system \<Rightarrow> bool" where
  "publication_ok s \<longleftrightarrow> db_inv (sy_database s) \<and> published_in (set (b_messages (sy_broker s))) (sy_database s)"

lemma handle_holds_more:
  "holds_more b (hd_broker (handle_payment_queue_message env settled t body b d))"
  using handle_broker [of "dispatch env" settled t body b d] by (auto simp: holds_more_def handle_payment_queue_message_def)

lemma relay_holds_more: "relay_batch relay clk c b d = (r, b', d') \<Longrightarrow> holds_more b b'"
  using relay_batch_sent by (fastforce simp: holds_more_def)

lemma post_published:
  assumes "db_inv d" and "published_in M d" and "faithful_to (published_in M) (n_others env)"
    and "faithful_to (published_in M) (n_others_retry env)"
  shows "published_in M (snd (post_payments sha256 expected env req c d))"
proof (cases rule: post_payments_cases [of sha256 expected env req c d])
  case (run data key r d')
  have "published_in M d'"
    using creation_publishes.keeps [of d M "(sha256, env, data, strip key)" c] assms run(7)
    by (simp add: creation_beside_def creation_run_def)
  with run(8) show ?thesis by (simp add: create_endpoint_cases [OF run(6,7)])
qed (use assms(2) in simp)

lemma handled_published:
  assumes "db_inv d" and "published_in M d" and "client_ok client" and "faithful_to (published_in M) (v_others penv)"
    and "faithful_to (published_in M) (y_others wenv)"
  shows "published_in M (hd_world (handle_payment_queue_message ((client, cb, penv), (wclient, wenv)) settled t body b d))"
proof -
  have "published_in M (snd (dispatch ((client, cb, penv), (wclient, wenv)) event d))" for event
    using worker_publishes.keeps [of d M "(((client, cb, penv), (wclient, wenv)), event)"] assms
    by (simp add: worker_beside_def)
  with assms(2) show ?thesis by (simp add: handle_payment_queue_message_def handle_world split: option.split)
qed

lemma publication_ok_step:
  assumes "publication_step s s'" and "publication_ok s"
  shows "publication_ok s'"
  using assms
proof (induction rule: publication_step.induct)
  case (pub_post b' env s sha256 expected req c)
  let ?d = "sy_database s"
  have inv: "db_inv ?d" and pub: "published_in (set (b_messages b')) ?d"
    using pub_post by (auto simp: publication_ok_def holds_more_def intro: published_in_mono)
  have "db_step\<^sup>*\<^sup>* ?d (snd (post_payments sha256 expected env req c ?d))"
    using pub_post(1,2) by (intro post_payments_steps [OF inv]) (auto dest: faithful_to_others)
  with post_published [OF inv pub pub_post(1,2)] db_steps_inv [OF _ inv] show ?case by (simp add: publication_ok_def)
next
  case (pub_get s parse_url expected k i c)
  then show ?case by (simp add: get_payments_steps)
next
  case (pub_relay relay clk c s r b d b')
  let ?d = "sy_database s"
  have inv: "db_inv ?d" and pub: "published_in (set (b_messages b')) ?d"
    using pub_relay relay_holds_more [OF pub_relay(1)] by (auto simp: publication_ok_def holds_more_def intro: published_in_mono)
  from pub_relay(2) relay_batch_published [OF inv pub_relay(1) _ pub] relay_batch_steps [OF inv pub_relay(1)]
    db_steps_inv [OF _ inv] show ?case by (simp add: publication_ok_def holds_more_def)
next
  case (pub_worker m s client b' penv wenv h cb wclient settled t)
  let ?d = "sy_database s" and ?env = "((client, cb, penv), (wclient, wenv))"
  have "holds_more (sy_broker s) b'"
    using handle_holds_more [of "sy_broker s" ?env settled t "m_body m" ?d] pub_worker(5,6) by (auto simp: holds_more_def)
  with pub_worker(7) have inv: "db_inv ?d" and pub: "published_in (set (b_messages b')) ?d"
    by (auto simp: publication_ok_def holds_more_def intro: published_in_mono)
  have "dispatch_admissible ?env"
    using pub_worker(3,4)
    by (auto simp: dispatch_admissible_def processing_admissible_def delivery_admissible_def dest: faithful_to_others)
  from dispatcher.handle_moves [OF inv this, of settled t "m_body m" "sy_broker s"] pub_worker(5)
  have "db_inv (hd_world h)" using db_steps_inv [OF _ inv] by (simp add: handle_payment_queue_message_def)
  with handled_published [OF inv pub pub_worker(2-4)] pub_worker(5) show ?case by (simp add: publication_ok_def)
next
  case (pub_reconciliation w b' env s now k c b)
  let ?d = "sy_database s" and ?a = "(w, now, k, env, b)"
  have inv: "db_inv ?d" and pub: "published_in (set (b_messages b')) ?d"
    using pub_reconciliation by (auto simp: publication_ok_def holds_more_def intro: published_in_mono)
  have a: "round_beside (set (b_messages b')) ?a" using pub_reconciliation(1,2) by (simp add: round_beside_def)
  from reconciliation_publishes.keeps [OF inv a pub, of c]
    reconciliation.keeps_invariant [OF inv reconciliation_publishes.relies_admissible [OF a], of c]
  show ?case by (simp add: publication_ok_def round_run_def)
next
  case (pub_broker s b')
  then show ?case by (auto simp: publication_ok_def holds_more_def intro: published_in_mono)
qed

lemma publication_ok_run:
  assumes "publication_run fresh_installation s"
  shows "publication_ok s"
  using assms
proof (induction rule: rtranclp_induct)
  case base
  show ?case
    by (simp add: publication_ok_def fresh_installation_def empty_database_inv published_in_def)
next
  case (step s s')
  then show ?case by (blast intro: publication_ok_step)
qed

text \<open>C3. No event is lost between the database and the queue: in every state the system can reach, with
  any faults, each payment has its processing event, and each settled payment its webhook event,
  and that event is either still to be published or its message is stored in the broker.\<close>

theorem no_event_is_lost:
  assumes "publication_run fresh_installation s" and "p \<in> set (payments (sy_database s))"
  shows "(\<exists>ev \<in> set (outbox_events (sy_database s)). requested_by p ev \<and>
      (ev \<in> set (unpublished (sy_database s)) \<or> (\<exists>t. message_of t ev \<in> set (b_messages (sy_broker s))))) \<and>
    (terminal (p_status p) \<longrightarrow>
      (\<exists>ev \<in> set (outbox_events (sy_database s)). o_event_type ev = WEBHOOK_DELIVERY_REQUESTED \<and>
        o_payment_id ev = p_id p \<and> p_webhook_event_id p = Some (o_id ev) \<and>
        (ev \<in> set (unpublished (sy_database s)) \<or> (\<exists>t. message_of t ev \<in> set (b_messages (sy_broker s))))))"
proof -
  let ?d = "sy_database s"
  have ok: "db_inv ?d" "published_in (set (b_messages (sy_broker s))) ?d"
    using publication_ok_run [OF assms(1)] by (simp_all add: publication_ok_def)
  have there: "ev \<in> set (unpublished ?d) \<or> (\<exists>t. message_of t ev \<in> set (b_messages (sy_broker s)))"
    if "ev \<in> set (outbox_events ?d)" for ev
    using ok(2) that by (auto simp: published_in_def stored_in_def unpublished_def)
  have row: "row_ok p" and out: "outbox_ok ?d" using ok(1) assms(2) by (simp_all add: db_inv_def)
  have "\<exists>ev \<in> set (outbox_events ?d). requested_by p ev" using out assms(2) unfolding outbox_ok_def by blast
  moreover have "\<exists>ev \<in> set (outbox_events ?d). o_event_type ev = WEBHOOK_DELIVERY_REQUESTED \<and>
      o_payment_id ev = p_id p \<and> p_webhook_event_id p = Some (o_id ev)" if "terminal (p_status p)"
    using row out assms(2) that unfolding outbox_ok_def row_ok_def by fastforce
  ultimately show ?thesis using there by blast
qed

subsection \<open>A run\<close>

lemma published_run: "publication_run fresh_installation queued_system"
proof -
  have "beside empty_broker (n_others sample_env)" "beside empty_broker (n_others_retry sample_env)"
    by (simp_all add: sample_env_def)
  from pub_post [OF this, of fresh_installation rev "''secret''" sample_create_request "healthy 60"]
  have "publication_step fresh_installation stored_system"
    by (simp add: fresh_installation_def stored_system_def sample_post holds_more_def empty_broker_def)
  moreover have "publication_step stored_system queued_system"
    using pub_relay [of sample_relay "\<lambda>i. 70 + int i" "healthy 75" stored_system]
    by (simp add: stored_system_def queued_system_def sample_batch_run holds_more_def)
  ultimately show ?thesis by simp
qed

theorem no_event_is_lost_witness:
  "\<exists>p ev t. publication_run fresh_installation queued_system \<and> p \<in> set (payments (sy_database queued_system)) \<and>
     requested_by p ev \<and> message_of t ev \<in> set (b_messages (sy_broker queued_system))"
proof -
  have p: "sample_payment \<in> set (payments (sy_database queued_system))"
    by (simp add: queued_system_def sample_published_def payments_marked)
  have "unpublished sample_published = []"
    using unpublished_after [OF sample_constraints, of "\<lambda>i. 70 + int i" 2]
    by (simp add: sample_published_def sample_selected sample_unpublished)
  then have "unpublished (sy_database queued_system) = []" by (simp add: queued_system_def)
  with no_event_is_lost [OF published_run p] have "\<exists>ev t. requested_by sample_payment ev \<and>
      message_of t ev \<in> set (b_messages (sy_broker queued_system))" by auto
  with p published_run show ?thesis by blast
qed

end
