(* ===== verification/Reconciliation_Progress.thy ===== *)
theory Reconciliation_Progress
  imports Reconciliation
begin

text \<open>
  Rounds of the reconciliation without faults: when the provider answers the lookups, a round
  settles every payment it has claimed.
\<close>

text \<open>The part of one payment in such a round: both sessions answer, no other transaction comes in
  between, the claim's lease, which ends at \<open>u\<close>, and then the renewed one are in time, and the
  provider's answer to the lookup is \<open>resp\<close>.\<close>

definition answered_in_time :: "reconciler \<Rightarrow> time \<Rightarrow> provider_response \<Rightarrow> reconcile_env \<Rightarrow> bool" where
  "answered_in_time w u resp env \<longleftrightarrow>
     k_others1 env = (\<lambda>d. d) \<and> k_others2 env = (\<lambda>d. d) \<and> u_breaker_others (k_lookup env) = (\<lambda>b. b) \<and>
     (\<exists>t. k_renew env = healthy t) \<and> (\<exists>t. k_persist env = healthy t) \<and>
     k_renew_now env < u \<and> k_persist_now env < k_renew_now env + timedelta_us (rc_lease_seconds w) \<and>
     get_payment_by_idempotency_key (u_answer (k_lookup env)) = Inr (Some resp)"

definition settled_with :: "provider_response \<Rightarrow> uuid \<Rightarrow> uuid \<Rightarrow> database \<Rightarrow> bool" where
  "settled_with resp i event_id d \<longleftrightarrow>
     (\<exists>q \<in> set (payments d). p_id q = i \<and> p_status q = status_for (s_status resp) \<and>
        p_provider_payment_id q = Some (s_provider_payment_id resp) \<and> p_webhook_event_id q = Some event_id)"

lemma reconciled_run:
  assumes inv: "db_inv d" and p: "p \<in> set (payments d)" "lease_held i k now p"
    and new: "unused (s_provider_payment_id resp) e d"
  shows "in_session (persist_resolution w now a e i k (Some resp)) (healthy t) d = (Inr True, persisted w a e t (Some resp) p d)"
proof -
  have c: "constraints_ok d" using inv by (simp add: db_inv_def)
  let ?p = "reconciled_payment resp a e p"
  have "?p \<noteq> p"
    by (rule notI, drule arg_cong [of _ _ p_status])
      (use lease_held_props [OF p(2)] in \<open>auto simp: reconciled_payment_def split: if_splits\<close>)
  moreover have "\<not> conflicts ?p (payments d)"
    using constraints_unique [OF c p(1)] new
    by (fastforce simp: conflicts_iff same_unique_def unused_def reconciled_payment_def)
  moreover have "p_id ?p = p_id p" by (simp add: reconciled_payment_def)
  ultimately show ?thesis
    using c p(1) new
    by (simp add: in_session_def persist_resolution_def rollback_on_error_def tx_bind_def
        get_claimed_payment_for_update_def select_payment_def statement_answered held_row [OF c p]
        persist_run [where p = p] unused_def tx_return_def Let_def persisted_def)
qed

lemma lookup_run:
  assumes "b_state b = CLOSED" and "u_breaker_others env = (\<lambda>b. b)"
    and "get_payment_by_idempotency_key (u_answer env) = Inr (Some resp)"
  shows "lookup_provider env i b = (Inr (Some resp), [lookup_path i], record_success False b)"
    and "b_state (record_success False b) = CLOSED"
  using assms by (simp_all add: lookup_provider_def call_def before_call_def record_outcome_def record_success_def)

text \<open>One payment: it is settled, and nothing else changes but the new event in the outbox.\<close>

lemma reconcile_one_settles:
  assumes inv: "db_inv d" and m: "1 \<le> rc_max_attempts w"
    and p: "p \<in> set (payments d)" "p_id p = i" "p_status p = UNKNOWN" "\<not> p_requires_manual_review p"
    and lease: "p_reconciliation_lease_token p = Some k" "p_reconciliation_lease_until p = Some u"
    and env: "answered_in_time w u resp env" and b: "b_state b = CLOSED"
    and new: "unused (s_provider_payment_id resp) (k_webhook_event_id env) d"
  shows "\<exists>b' d'. reconcile_one w env k i b d = \<lparr>rr_result = Inr True, rr_paths = [lookup_path i], rr_breaker = b', rr_database = d'\<rparr> \<and>
    b_state b' = CLOSED \<and> db_inv d' \<and> settled_with resp i (k_webhook_event_id env) d' \<and>
    (\<forall>x. p_id x \<noteq> i \<longrightarrow> x \<in> set (payments d') \<longleftrightarrow> x \<in> set (payments d)) \<and>
    (\<forall>x \<in> set (payments d'). p_id x = i \<longrightarrow> p_provider_payment_id x = Some (s_provider_payment_id resp) \<and>
       p_webhook_event_id x = Some (k_webhook_event_id env)) \<and>
    o_id ` set (outbox_events d') = insert (k_webhook_event_id env) (o_id ` set (outbox_events d))"
proof -
  from env obtain t t' where e: "k_others1 env = (\<lambda>d. d)" "k_others2 env = (\<lambda>d. d)"
    "u_breaker_others (k_lookup env) = (\<lambda>b. b)" "k_renew env = healthy t" "k_persist env = healthy t'"
    "k_renew_now env < u" "k_persist_now env < k_renew_now env + timedelta_us (rc_lease_seconds w)"
    "get_payment_by_idempotency_key (u_answer (k_lookup env)) = Inr (Some resp)"
    by (auto simp: answered_in_time_def)
  have c: "constraints_ok d" using inv by (simp add: db_inv_def)
  let ?u = "k_renew_now env + timedelta_us (rc_lease_seconds w)"
  let ?p = "p\<lparr>p_reconciliation_lease_until := Some ?u, p_updated_at := t\<rparr>"
  let ?d = "renewed_row ?u t p d" and ?e = "k_webhook_event_id env"
  have held: "lease_held i k (k_renew_now env) p" using p lease e(6) by (simp add: lease_held_def)
  have "limited 1 d ?d" by (rule renew_step(2) [OF c p(1) held])
  then have inv1: "db_inv ?d" using inv by (auto simp: limited_def intro: db_step_inv)
  have mem: "?p \<in> set (payments ?d)" using p(1) by (simp add: renewed_row_def set_replace_row)
  have held1: "lease_held i k (k_persist_now env) ?p" using held e(7) by (simp add: lease_held_def)
  have d: "payments ?d = replace_row p_id ?p (payments d)" "outbox_events ?d = outbox_events d"
    by (simp_all add: renewed_row_def)
  have new1: "unused (s_provider_payment_id resp) ?e ?d"
    using new p(1) by (auto simp: unused_def d set_replace_row split: if_splits)
  let ?q = "reconciled_payment resp (k_processed_at env) ?e ?p\<lparr>p_updated_at := t'\<rparr>"
  let ?d' = "persisted w (k_processed_at env) ?e t' (Some resp) ?p ?d"
  note persist = reconciled_run [OF inv1 mem held1 new1, of w "k_processed_at env" t']
  have run: "reconcile_one w env k i b d = \<lparr>rr_result = Inr True, rr_paths = [lookup_path i],
      rr_breaker = record_success False b, rr_database = ?d'\<rparr>"
    using renew_run [OF inv p(1) held, of w t] persist lookup_run(1) [OF b e(3,8), of i] e(1,2,4,5)
    by (simp add: reconcile_one_def)
  have inv': "db_inv ?d'"
    using persist_steps [OF inv1 m persist] limited_steps db_steps_inv inv1 by blast
  have q: "p_id ?q = i" "p_status ?q = status_for (s_status resp)" "p_webhook_event_id ?q = Some ?e"
    "p_provider_payment_id ?q = Some (s_provider_payment_id resp)"
    using p(2) by (simp_all add: reconciled_payment_def status_for_def)
  have rows: "set (payments ?d') = insert ?q {x \<in> set (payments d). p_id x \<noteq> i}"
    using p(1,2) q(1) by (auto simp: persisted_def with_resolution_def d set_replace_row)
  have out: "o_id ` set (outbox_events ?d') = insert ?e (o_id ` set (outbox_events d))"
    by (simp add: persisted_def with_resolution_def d created_def)
  show ?thesis
  proof (intro exI [of _ "record_success False b"] exI [of _ ?d'] conjI)
    show "settled_with resp i ?e ?d'" unfolding settled_with_def using q by (intro bexI [of _ ?q]) (auto simp: rows)
  qed (use run inv' out rows q lookup_run(2) [OF b e(3,8)] in auto)
qed

text \<open>The payments under \<open>ids\<close> are still leased to \<open>k\<close> until \<open>u\<close>, as the claim left them.\<close>

definition still_leased :: "uuid \<Rightarrow> time \<Rightarrow> uuid list \<Rightarrow> database \<Rightarrow> bool" where
  "still_leased k u ids d \<longleftrightarrow>
     (\<forall>i \<in> set ids. \<exists>p \<in> set (payments d). p_id p = i \<and> p_status p = UNKNOWN \<and> \<not> p_requires_manual_review p \<and>
        p_reconciliation_lease_token p = Some k \<and> p_reconciliation_lease_until p = Some u)"

lemma reconcile_all_settles:
  assumes m: "1 \<le> rc_max_attempts w" and "db_inv d" and "distinct ids" and "still_leased k u ids d" and "b_state b = CLOSED"
    and env: "\<And>i. i \<in> set ids \<Longrightarrow> answered_in_time w u (resp i) (env i)"
    and "\<And>i. i \<in> set ids \<Longrightarrow> unused (s_provider_payment_id (resp i)) (k_webhook_event_id (env i)) d"
    and "inj_on (\<lambda>i. s_provider_payment_id (resp i)) (set ids)" and "inj_on (\<lambda>i. k_webhook_event_id (env i)) (set ids)"
  shows "\<exists>b' d'. reconcile_all w env k ids n b d = (Inr (n + length ids), b', d') \<and> b_state b' = CLOSED \<and>
    (\<forall>i \<in> set ids. settled_with (resp i) i (k_webhook_event_id (env i)) d') \<and>
    (\<forall>x. p_id x \<notin> set ids \<longrightarrow> x \<in> set (payments d') \<longleftrightarrow> x \<in> set (payments d))"
  using assms(2-)
proof (induction ids arbitrary: n b d)
  case (Cons i ids)
  let ?e = "k_webhook_event_id (env i)"
  from Cons.prems(3) obtain p where p: "p \<in> set (payments d)" "p_id p = i" "p_status p = UNKNOWN" "\<not> p_requires_manual_review p"
    "p_reconciliation_lease_token p = Some k" "p_reconciliation_lease_until p = Some u"
    by (auto simp: still_leased_def)
  have "answered_in_time w u (resp i) (env i)" "unused (s_provider_payment_id (resp i)) ?e d" using Cons.prems(5,6) by auto
  from reconcile_one_settles [OF Cons.prems(1) m p this(1) Cons.prems(4) this(2)] obtain b1 d1
    where one: "reconcile_one w (env i) k i b d =
        \<lparr>rr_result = Inr True, rr_paths = [lookup_path i], rr_breaker = b1, rr_database = d1\<rparr>"
      and b1: "b_state b1 = CLOSED" and inv1: "db_inv d1" and i: "settled_with (resp i) i ?e d1"
      and same: "\<forall>x. p_id x \<noteq> i \<longrightarrow> x \<in> set (payments d1) \<longleftrightarrow> x \<in> set (payments d)"
      and row: "\<forall>x \<in> set (payments d1). p_id x = i \<longrightarrow>
        p_provider_payment_id x = Some (s_provider_payment_id (resp i)) \<and> p_webhook_event_id x = Some ?e"
      and out: "o_id ` set (outbox_events d1) = insert ?e (o_id ` set (outbox_events d))" by blast
  have ne: "j \<noteq> i" if "j \<in> set ids" for j using Cons.prems(2) that by auto
  have leased: "still_leased k u ids d1"
    unfolding still_leased_def
  proof
    fix j
    assume j: "j \<in> set ids"
    with Cons.prems(3) obtain q where "q \<in> set (payments d)" "p_id q = j \<and> p_status q = UNKNOWN \<and> \<not> p_requires_manual_review q \<and>
        p_reconciliation_lease_token q = Some k \<and> p_reconciliation_lease_until q = Some u"
      by (auto simp: still_leased_def)
    with same ne [OF j] show "\<exists>q \<in> set (payments d1). p_id q = j \<and> p_status q = UNKNOWN \<and> \<not> p_requires_manual_review q \<and>
        p_reconciliation_lease_token q = Some k \<and> p_reconciliation_lease_until q = Some u" by blast
  qed
  have new: "unused (s_provider_payment_id (resp j)) (k_webhook_event_id (env j)) d1" if j: "j \<in> set ids" for j
  proof -
    have d: "s_provider_payment_id (resp j) \<noteq> s_provider_payment_id (resp i)" "k_webhook_event_id (env j) \<noteq> ?e"
      using inj_onD [OF Cons.prems(7), of j i] inj_onD [OF Cons.prems(8), of j i] ne [OF j] j by auto
    have old: "unused (s_provider_payment_id (resp j)) (k_webhook_event_id (env j)) d" using Cons.prems(6) j by simp
    have "p_provider_payment_id x \<noteq> Some (s_provider_payment_id (resp j)) \<and> p_webhook_event_id x \<noteq> Some (k_webhook_event_id (env j))"
      if x: "x \<in> set (payments d1)" for x
      using x row same old d by (cases "p_id x = i") (auto simp: unused_def)
    with old out d show ?thesis by (simp add: unused_def)
  qed
  have "inj_on (\<lambda>i. s_provider_payment_id (resp i)) (set ids)" "inj_on (\<lambda>i. k_webhook_event_id (env i)) (set ids)"
    using Cons.prems(7,8) by (auto intro: inj_on_subset)
  with Cons.IH [OF inv1 _ leased b1 _ new, of "n + 1"] Cons.prems(2,5) obtain b' d'
    where rest: "reconcile_all w env k ids (n + 1) b1 d1 = (Inr (n + 1 + length ids), b', d')" and b': "b_state b' = CLOSED"
      and js: "\<forall>j \<in> set ids. settled_with (resp j) j (k_webhook_event_id (env j)) d'"
      and others: "\<forall>x. p_id x \<notin> set ids \<longrightarrow> x \<in> set (payments d') \<longleftrightarrow> x \<in> set (payments d1)" by auto
  have "settled_with (resp i) i ?e d'"
    using i others Cons.prems(2) unfolding settled_with_def by fastforce
  with rest b' js others same show ?case
    by (intro exI [of _ b'] exI [of _ d']) (simp add: one Let_def)
qed simp

text \<open>C15. The reconciliation settles what it claims: in a round in which nothing fails and the provider
  answers the lookups in time, every payment the round has claimed becomes terminal with the
  provider's result and gets its webhook event, the breaker stays closed, and the round reports
  their number.\<close>

theorem reconciliation_settles_claims:
  assumes "PaymentReconciliationWorker n s q l m = Inr w" and "db_inv d" and "b_state b = CLOSED"
    and "in_session (claim_batch w now k) c d = (Inr (k, ids), d1)"
    and "\<And>i. i \<in> set ids \<Longrightarrow> answered_in_time w (now + timedelta_us (rc_lease_seconds w)) (resp i) (env i)"
    and "\<And>i. i \<in> set ids \<Longrightarrow> unused (s_provider_payment_id (resp i)) (k_webhook_event_id (env i)) d1"
    and "inj_on (\<lambda>i. s_provider_payment_id (resp i)) (set ids)" and "inj_on (\<lambda>i. k_webhook_event_id (env i)) (set ids)"
  shows "\<exists>b' d'. process_batch w now k c env b d = (Inr (length ids), b', d') \<and> b_state b' = CLOSED \<and>
    (\<forall>i \<in> set ids. settled_with (resp i) i (k_webhook_event_id (env i)) d')"
proof -
  let ?ps = "select_claimable (now - timedelta_us (rc_stale_after_seconds w)) now (rc_batch_size w) (conn_locked c) d"
  let ?u = "now + timedelta_us (rc_lease_seconds w)"
  have claim: "claim_left 1 k ?u ?ps d (Inr (k, ids)) d1" by (rule claim_batch_left [OF assms(2,4)])
  then have ids: "ids = map p_id ?ps" and leases: "leases k ?u (set ids) d d1" and steps: "(limited 1)\<^sup>*\<^sup>* d d1"
    by (simp_all add: claim_left_def)
  have inv1: "db_inv d1" by (rule db_steps_inv [OF limited_steps [OF steps] assms(2)])
  have "distinct ids"
    using assms(2) unfolding ids select_claimable_def
    by (intro distinct_select_rows) (simp_all add: db_inv_def constraints_ok_def)
  moreover have "still_leased k ?u ids d1"
    unfolding still_leased_def
  proof
    fix i
    assume i: "i \<in> set ids"
    then obtain p where "p \<in> set ?ps" and i': "p_id p = i" unfolding ids by auto
    from select_claimable_props(1) [OF this(1)] i' have p: "p \<in> set (payments d)" "p_id p = i" .
    obtain p1 where p1: "p1 \<in> set (payments d1)" "p_id p1 = p_id p"
      by (rule history_payment [OF db_steps_history [OF limited_steps [OF steps] assms(2)] p(1)])
    with leases p(2) i have "p_status p1 = UNKNOWN \<and> \<not> p_requires_manual_review p1 \<and>
        p_reconciliation_lease_token p1 = Some k \<and> p_reconciliation_lease_until p1 = Some ?u" by (simp add: leases_def)
    with p1 p(2) show "\<exists>p \<in> set (payments d1). p_id p = i \<and> p_status p = UNKNOWN \<and> \<not> p_requires_manual_review p \<and>
        p_reconciliation_lease_token p = Some k \<and> p_reconciliation_lease_until p = Some ?u"
      by (intro bexI [of _ p1]) simp_all
  qed
  ultimately have "\<exists>b' d'. reconcile_all w env k ids 0 b d1 = (Inr (0 + length ids), b', d') \<and> b_state b' = CLOSED \<and>
    (\<forall>i \<in> set ids. settled_with (resp i) i (k_webhook_event_id (env i)) d') \<and>
    (\<forall>x. p_id x \<notin> set ids \<longrightarrow> x \<in> set (payments d') \<longleftrightarrow> x \<in> set (payments d1))"
    by (rule reconcile_all_settles [OF worker_attempts [OF assms(1)] inv1 _ _ assms(3) assms(5-8)])
  then show ?thesis by (auto simp: process_batch_def assms(4))
qed

theorem reconciliation_settles_claims_witness:
  "\<exists>b' d'. process_batch sample_reconciler 100 (UUID 20) (healthy 101) (\<lambda>_. approving) sample_breaker sample_unknown =
      (Inr 1, b', d') \<and> settled_with sample_response (UUID 1) (UUID 3) d'"
proof -
  have answer: "get_payment_by_idempotency_key (Responded approved_response) = Inr (Some sample_response)"
    by (simp add: get_payment_by_idempotency_key_def approved_response_def provider_response.decode_encode sample_response_def)
  have "\<exists>b' d'. process_batch sample_reconciler 100 (UUID 20) (healthy 101) (\<lambda>_. approving) sample_breaker sample_unknown =
      (Inr (length [UUID 1]), b', d') \<and> b_state b' = CLOSED \<and>
      (\<forall>i \<in> set [UUID 1]. settled_with sample_response i (k_webhook_event_id approving) d')"
  proof (rule reconciliation_settles_claims [OF sample_reconciler_new sample_unknown_inv _ sample_claim])
    show "answered_in_time sample_reconciler (100 + timedelta_us (rc_lease_seconds sample_reconciler)) sample_response approving"
      if "i \<in> set [UUID 1]" for i
      using answer by (auto simp: answered_in_time_def approving_def sample_reconciler_def)
    have "outbox_events sample_claimed = outbox_events sample_database" "payments sample_claimed = [claimed_payment]"
      by (simp_all add: sample_claimed_def sample_unknown_def unknown_row_def)
    then show "unused (s_provider_payment_id sample_response) (k_webhook_event_id approving) sample_claimed"
      if "i \<in> set [UUID 1]" for i
      using sample_unused
      by (simp add: unused_def sample_response_def approving_def claimed_payment_def unknown_payment_def)
  qed (simp_all add: sample_breaker_def)
  moreover have "k_webhook_event_id approving = UUID 3" by (simp add: approving_def)
  ultimately show ?thesis by auto
qed

end
