(* ===== verification/Migration.thy ===== *)
theory Migration
  imports Http_Api
begin

text \<open>
  The database schema: the statements of \<open>alembic/versions\<close>, how \<open>alembic/env.py\<close> runs them, the
  columns \<open>app/models\<close> declares with the naming convention of \<open>app/models/base.py\<close>, and that
  statements and models agree.

  A schema is its tables and indexes. \<open>run_ddl\<close> executes the statements of a migration as
  PostgreSQL does, refusing to create what exists and to drop what does not. \<open>table_of\<close> is the
  table SQLAlchemy derives from a model's declarations.
\<close>

subsection \<open>Schemas as data\<close>

datatype sql_type =
    SQL_UUID | SQL_Numeric nat nat | SQL_String nat | SQL_Text | SQL_JSONB | SQL_Timestamptz
  | SQL_Integer | SQL_Boolean

record sql_column =
  sc_name :: string
  sc_type :: sql_type
  sc_nullable :: bool
  sc_default :: "string option"

text \<open>The check constraints of the program are all of the form \<open>column IN (values)\<close>.\<close>

record sql_table =
  st_name :: string
  st_columns :: "sql_column list"
  st_primary_key :: "string \<times> string"
  st_unique :: "(string \<times> string) set"
  st_checks :: "(string \<times> string \<times> string list) set"

record sql_index =
  si_name :: string
  si_table :: string
  si_columns :: "string list"
  si_where :: string

record sql_schema =
  ss_tables :: "sql_table list"
  ss_indexes :: "sql_index list"

datatype ddl = Create_table sql_table | Create_index sql_index | Drop_table string | Drop_index string

definition run_statement :: "ddl \<Rightarrow> sql_schema \<Rightarrow> sql_schema option" where
  "run_statement stmt s =
     (case stmt of
        Create_table t \<Rightarrow>
          if st_name t \<in> st_name ` set (ss_tables s) then None
          else Some (s\<lparr>ss_tables := ss_tables s @ [t]\<rparr>)
      | Create_index i \<Rightarrow>
          if si_name i \<in> si_name ` set (ss_indexes s) \<or> si_table i \<notin> st_name ` set (ss_tables s) then None
          else Some (s\<lparr>ss_indexes := ss_indexes s @ [i]\<rparr>)
      | Drop_table n \<Rightarrow>
          if n \<notin> st_name ` set (ss_tables s) then None
          else Some (s\<lparr>ss_tables := filter (\<lambda>t. st_name t \<noteq> n) (ss_tables s),
                       ss_indexes := filter (\<lambda>i. si_table i \<noteq> n) (ss_indexes s)\<rparr>)
      | Drop_index n \<Rightarrow>
          if n \<notin> si_name ` set (ss_indexes s) then None
          else Some (s\<lparr>ss_indexes := filter (\<lambda>i. si_name i \<noteq> n) (ss_indexes s)\<rparr>))"

fun run_ddl :: "ddl list \<Rightarrow> sql_schema \<Rightarrow> sql_schema option" where
  "run_ddl [] s = Some s"
| "run_ddl (stmt # stmts) s = Option.bind (run_statement stmt s) (run_ddl stmts)"

definition sql_column :: "string \<Rightarrow> sql_type \<Rightarrow> string option \<Rightarrow> bool \<Rightarrow> sql_column" where
  "sql_column name type server_default nullable =
     \<lparr>sc_name = name, sc_type = type, sc_nullable = nullable, sc_default = server_default\<rparr>"

subsection \<open>The migration\<close>

definition outbox_events_table :: sql_table where
  "outbox_events_table =
     \<lparr>st_name = ''outbox_events'',
      st_columns =
        [sql_column ''id'' SQL_UUID None False, sql_column ''event_type'' (SQL_String 100) None False,
         sql_column ''payment_id'' SQL_UUID None False, sql_column ''payload'' SQL_JSONB None False,
         sql_column ''created_at'' SQL_Timestamptz (Some ''now()'') False,
         sql_column ''published_at'' SQL_Timestamptz None True],
      st_primary_key = (''pk_outbox_events'', ''id''), st_unique = {}, st_checks = {}\<rparr>"

definition outbox_events_index :: sql_index where
  "outbox_events_index =
     \<lparr>si_name = ''ix_outbox_events_unpublished_created_at_id'', si_table = ''outbox_events'',
      si_columns = [''created_at'', ''id''], si_where = ''published_at IS NULL''\<rparr>"

definition payments_table :: sql_table where
  "payments_table =
     \<lparr>st_name = ''payments'',
      st_columns =
        [sql_column ''id'' SQL_UUID None False, sql_column ''amount'' (SQL_Numeric 18 2) None False,
         sql_column ''currency'' (SQL_String 3) None False, sql_column ''description'' SQL_Text None True,
         sql_column ''metadata'' SQL_JSONB (Some ''{}::jsonb'') False,
         sql_column ''status'' (SQL_String 20) (Some ''pending'') False,
         sql_column ''idempotency_key'' (SQL_String 255) None False,
         sql_column ''request_fingerprint'' (SQL_String 64) None False,
         sql_column ''webhook_url'' SQL_Text None False, sql_column ''webhook_event_id'' SQL_UUID None True,
         sql_column ''webhook_sent_at'' SQL_Timestamptz None True,
         sql_column ''provider_payment_id'' SQL_UUID None True,
         sql_column ''created_at'' SQL_Timestamptz (Some ''now()'') False,
         sql_column ''updated_at'' SQL_Timestamptz (Some ''now()'') False,
         sql_column ''processed_at'' SQL_Timestamptz None True,
         sql_column ''reconciliation_attempts'' SQL_Integer (Some ''0'') False,
         sql_column ''requires_manual_review'' SQL_Boolean (Some ''false'') False,
         sql_column ''reconciliation_lease_token'' SQL_UUID None True,
         sql_column ''reconciliation_lease_until'' SQL_Timestamptz None True],
      st_primary_key = (''pk_payments'', ''id''),
      st_unique = {(''uq_payments_idempotency_key'', ''idempotency_key''),
        (''uq_payments_provider_payment_id'', ''provider_payment_id''),
        (''uq_payments_webhook_event_id'', ''webhook_event_id'')},
      st_checks = {(''ck_payments_currency_supported'', ''currency'', [''RUB'', ''USD'', ''EUR'']),
        (''ck_payments_status_supported'', ''status'', [''pending'', ''succeeded'', ''failed'', ''unknown''])}\<rparr>"

definition upgrade :: "ddl list" where
  "upgrade = [Create_table outbox_events_table, Create_index outbox_events_index, Create_table payments_table]"

definition downgrade :: "ddl list" where
  "downgrade =
     [Drop_table ''payments'', Drop_index ''ix_outbox_events_unpublished_created_at_id'',
      Drop_table ''outbox_events'']"

subsection \<open>Running migrations\<close>

text \<open>\<open>alembic/env.py\<close>: which migrations are pending is Alembic's, the parameter \<open>pending\<close>. Online
  they run in one transaction of PostgreSQL, whose DDL is transactional; each statement may also fail
  for reasons of its own (\<open>answers\<close>), and so may the other calls. Offline their text is written.\<close>

fun run_migrations :: "(nat \<Rightarrow> unit outcome) \<Rightarrow> ddl list \<Rightarrow> sql_schema \<Rightarrow> sql_schema outcome" where
  "run_migrations answers [] s = Inr s"
| "run_migrations answers (stmt # stmts) s =
     (case answers 0 of
        Inl e \<Rightarrow> Inl e
      | Inr _ \<Rightarrow>
          (case run_statement stmt s of
             None \<Rightarrow> Inl (OtherException ''ProgrammingError'')
           | Some s' \<Rightarrow> run_migrations (\<lambda>n. answers (Suc n)) stmts s'))"

record migration_env =
  me_connect :: "unit outcome"
  me_answers :: "nat \<Rightarrow> unit outcome"
  me_commit :: "unit outcome"
  me_release :: "unit outcome"
  me_dispose :: "unit outcome"

text \<open>\<open>with context.begin_transaction()\<close>: committed if the block ends normally.\<close>

definition do_run_migrations :: "migration_env \<Rightarrow> ddl list \<Rightarrow> sql_schema \<Rightarrow> unit outcome \<times> sql_schema" where
  "do_run_migrations env pending s =
     (case run_migrations (me_answers env) pending s of
        Inl e \<Rightarrow> (Inl e, s)
      | Inr s' \<Rightarrow> (case me_commit env of Inl e \<Rightarrow> (Inl e, s) | Inr _ \<Rightarrow> (Inr (), s')))"

definition run_async_migrations :: "migration_env \<Rightarrow> ddl list \<Rightarrow> sql_schema \<Rightarrow> unit outcome \<times> sql_schema" where
  "run_async_migrations env pending s =
     (case me_connect env of
        Inl e \<Rightarrow> (Inl e, s)
      | Inr _ \<Rightarrow>
          (case do_run_migrations env pending s of
             (r, s') \<Rightarrow>
               (case me_release env of
                  Inl e \<Rightarrow> (Inl e, s')
                | Inr _ \<Rightarrow> (case r of Inl e \<Rightarrow> (Inl e, s') | Inr _ \<Rightarrow> (me_dispose env, s')))))"

text \<open>The script written and the database afterwards.\<close>

definition run_migrations_offline :: "ddl list \<Rightarrow> sql_schema \<Rightarrow> ddl list \<times> sql_schema" where
  "run_migrations_offline pending s = (pending, s)"

lemma run_migrations_schema: "run_migrations answers pending s = Inr s' \<Longrightarrow> run_ddl pending s = Some s'"
  by (induction answers pending s rule: run_migrations.induct) (auto split: sum.splits option.splits)

lemma run_migrations_healthy:
  "run_ddl pending s = Some s' \<Longrightarrow> \<forall>n. answers n = Inr () \<Longrightarrow> run_migrations answers pending s = Inr s'"
  by (induction answers pending s rule: run_migrations.induct)
    (auto simp: Option.bind_eq_Some_conv split: sum.splits)

text \<open>An upgrade leaves the schema as it was or at the end of the pending migrations, the same that
  its offline script leads to; and it reports success only for the latter.\<close>

theorem migrations_all_or_nothing:
  assumes "run_async_migrations env pending s = (r, s')"
  shows "(s' = s \<or> run_ddl (fst (run_migrations_offline pending s)) s = Some s') \<and>
    (r = Inr () \<longrightarrow> run_ddl (fst (run_migrations_offline pending s)) s = Some s')"
  using assms run_migrations_schema [of "me_answers env" pending s s']
  by (auto simp: run_async_migrations_def do_run_migrations_def run_migrations_offline_def split: sum.splits)

subsection \<open>The models\<close>

text \<open>A \<open>mapped_column\<close>: a primary key is not nullable.\<close>

record mapped_column =
  mc_name :: string
  mc_type :: sql_type
  mc_nullable :: bool
  mc_server_default :: "string option"
  mc_unique :: bool
  mc_primary_key :: bool

definition mapped_column :: "string \<Rightarrow> sql_type \<Rightarrow> bool \<Rightarrow> string option \<Rightarrow> mapped_column" where
  "mapped_column name type nullable server_default =
     \<lparr>mc_name = name, mc_type = type, mc_nullable = nullable, mc_server_default = server_default,
      mc_unique = False, mc_primary_key = False\<rparr>"

definition NAMING_CONVENTION :: "string \<Rightarrow> string \<Rightarrow> string \<Rightarrow> string" where
  "NAMING_CONVENTION kind table rest =
     (if kind = ''pk'' then ''pk_'' @ table else kind @ ''_'' @ table @ ''_'' @ rest)"

definition table_of :: "string \<Rightarrow> mapped_column list \<Rightarrow> (string \<times> string \<times> string list) list \<Rightarrow> sql_table" where
  "table_of name cols checks =
     \<lparr>st_name = name,
      st_columns = map (\<lambda>c. sql_column (mc_name c) (mc_type c) (mc_server_default c)
        (mc_nullable c \<and> \<not> mc_primary_key c)) cols,
      st_primary_key = (NAMING_CONVENTION ''pk'' name [], mc_name (hd (filter mc_primary_key cols))),
      st_unique = (\<lambda>c. (NAMING_CONVENTION ''uq'' name (mc_name c), mc_name c)) ` set (filter mc_unique cols),
      st_checks = (\<lambda>(n, c, vs). (NAMING_CONVENTION ''ck'' name n, c, vs)) ` set checks\<rparr>"

definition Payment_columns :: "mapped_column list" where
  "Payment_columns =
     [(mapped_column ''id'' SQL_UUID False None)\<lparr>mc_primary_key := True\<rparr>,
      mapped_column ''amount'' (SQL_Numeric 18 2) False None,
      mapped_column ''currency'' (SQL_String 3) False None,
      mapped_column ''description'' SQL_Text True None,
      mapped_column ''metadata'' SQL_JSONB False (Some ''{}::jsonb''),
      mapped_column ''status'' (SQL_String 20) False (Some (payment_status_value PENDING)),
      (mapped_column ''idempotency_key'' (SQL_String 255) False None)\<lparr>mc_unique := True\<rparr>,
      mapped_column ''request_fingerprint'' (SQL_String 64) False None,
      mapped_column ''webhook_url'' SQL_Text False None,
      (mapped_column ''webhook_event_id'' SQL_UUID True None)\<lparr>mc_unique := True\<rparr>,
      mapped_column ''webhook_sent_at'' SQL_Timestamptz True None,
      (mapped_column ''provider_payment_id'' SQL_UUID True None)\<lparr>mc_unique := True\<rparr>,
      mapped_column ''created_at'' SQL_Timestamptz False (Some ''now()''),
      mapped_column ''updated_at'' SQL_Timestamptz False (Some ''now()''),
      mapped_column ''processed_at'' SQL_Timestamptz True None,
      mapped_column ''reconciliation_attempts'' SQL_Integer False (Some ''0''),
      mapped_column ''requires_manual_review'' SQL_Boolean False (Some ''false''),
      mapped_column ''reconciliation_lease_token'' SQL_UUID True None,
      mapped_column ''reconciliation_lease_until'' SQL_Timestamptz True None]"

definition Payment_checks :: "(string \<times> string \<times> string list) list" where
  "Payment_checks =
     [(''currency_supported'', ''currency'', [''RUB'', ''USD'', ''EUR'']),
      (''status_supported'', ''status'', [''pending'', ''succeeded'', ''failed'', ''unknown''])]"

definition OutboxEvent_columns :: "mapped_column list" where
  "OutboxEvent_columns =
     [(mapped_column ''id'' SQL_UUID False None)\<lparr>mc_primary_key := True\<rparr>,
      mapped_column ''event_type'' (SQL_String 100) False None,
      mapped_column ''payment_id'' SQL_UUID False None,
      mapped_column ''payload'' SQL_JSONB False None,
      mapped_column ''created_at'' SQL_Timestamptz False (Some ''now()''),
      mapped_column ''published_at'' SQL_Timestamptz True None]"

definition models_schema :: sql_schema where
  "models_schema =
     \<lparr>ss_tables = [table_of ''outbox_events'' OutboxEvent_columns [], table_of ''payments'' Payment_columns Payment_checks],
      ss_indexes = [\<lparr>si_name = ''ix_outbox_events_unpublished_created_at_id'', si_table = ''outbox_events'',
        si_columns = [''created_at'', ''id''], si_where = ''published_at IS NULL''\<rparr>]\<rparr>"

definition empty_schema :: sql_schema where
  "empty_schema = \<lparr>ss_tables = [], ss_indexes = []\<rparr>"

lemma models_tables:
  "table_of ''outbox_events'' OutboxEvent_columns [] = outbox_events_table"
  "table_of ''payments'' Payment_columns Payment_checks = payments_table"
  by (auto simp: table_of_def OutboxEvent_columns_def outbox_events_table_def mapped_column_def
      NAMING_CONVENTION_def Payment_columns_def Payment_checks_def payments_table_def)


text \<open>C31. Downgrading undoes the upgrade: any database that has none of its tables and indexes is
  as before.\<close>

theorem downgrade_undoes_upgrade:
  assumes "st_name ` set (ss_tables s) \<inter> {''payments'', ''outbox_events''} = {}"
    and "''ix_outbox_events_unpublished_created_at_id'' \<notin> si_name ` set (ss_indexes s)"
    and "\<forall>i \<in> set (ss_indexes s). si_table i \<in> st_name ` set (ss_tables s)"
  shows "Option.bind (run_ddl upgrade s) (run_ddl downgrade) = Some s"
proof -
  have tables: "st_name t \<noteq> ''payments'' \<and> st_name t \<noteq> ''outbox_events''" if "t \<in> set (ss_tables s)" for t
    using assms(1) that by fastforce
  have indexes: "si_name i \<noteq> ''ix_outbox_events_unpublished_created_at_id'' \<and> si_table i \<noteq> ''payments'' \<and>
      si_table i \<noteq> ''outbox_events''" if "i \<in> set (ss_indexes s)" for i
  proof -
    from assms(3) that obtain t where "t \<in> set (ss_tables s)" "st_name t = si_table i" by (metis imageE)
    with tables [of t] assms(2) that show ?thesis by (auto simp: image_iff)
  qed
  show ?thesis
    using assms(1,2)
    by (auto simp: upgrade_def downgrade_def run_statement_def outbox_events_index_def outbox_events_table_def
        payments_table_def image_iff tables indexes intro!: filter_True)
qed

subsection \<open>Rows and columns\<close>

datatype sql_value =
    V_null | V_uuid uuid | V_text string | V_decimal decimal | V_json dict | V_time time | V_int int | V_bool bool

text \<open>PostgreSQL stores no NUL character, neither in a text nor in a string of a JSON document.\<close>

definition has_nul :: "string \<Rightarrow> bool" where
  "has_nul s \<longleftrightarrow> CHR 0x00 \<in> set s"

fun json_has_nul :: "json \<Rightarrow> bool" where
  "json_has_nul (JStr s) = has_nul s"
| "json_has_nul (JArr js) = list_ex json_has_nul js"
| "json_has_nul (JObj fs) = list_ex (\<lambda>(k, v). has_nul k \<or> json_has_nul v) fs"
| "json_has_nul _ = False"

text \<open>What a column of a type takes: a \<open>numeric(p, 2)\<close> has room for \<open>p\<close> digits of hundredths, a
  text with a bound for that many characters, an \<open>integer\<close> for 32 bits.\<close>

fun type_fits :: "sql_type \<Rightarrow> sql_value \<Rightarrow> bool" where
  "type_fits SQL_UUID (V_uuid _) = True"
| "type_fits (SQL_Numeric p q) (V_decimal d) =
     (case exact_cents d of None \<Rightarrow> False | Some n \<Rightarrow> q = 2 \<and> \<bar>n\<bar> < 10 ^ p)"
| "type_fits (SQL_String n) (V_text s) = (length s \<le> n \<and> \<not> has_nul s)"
| "type_fits SQL_Text (V_text s) = (\<not> has_nul s)"
| "type_fits SQL_JSONB (V_json d) = (\<not> json_has_nul (JObj d))"
| "type_fits SQL_Timestamptz (V_time _) = True"
| "type_fits SQL_Integer (V_int i) = (- (2 ^ 31) \<le> i \<and> i < 2 ^ 31)"
| "type_fits SQL_Boolean (V_bool _) = True"
| "type_fits _ _ = False"

definition column_fits :: "sql_column \<Rightarrow> sql_value \<Rightarrow> bool" where
  "column_fits c v = (if v = V_null then sc_nullable c else type_fits (sc_type c) v)"

definition row_fits :: "sql_table \<Rightarrow> (string \<Rightarrow> sql_value) \<Rightarrow> bool" where
  "row_fits t row \<longleftrightarrow>
     list_all (\<lambda>c. column_fits c (row (sc_name c))) (st_columns t) \<and>
     (\<forall>(n, c, vs) \<in> st_checks t. row c \<in> V_text ` set vs)"

definition or_null :: "('a \<Rightarrow> sql_value) \<Rightarrow> 'a option \<Rightarrow> sql_value" where
  "or_null f x = (case x of None \<Rightarrow> V_null | Some a \<Rightarrow> f a)"

text \<open>The attributes of a \<open>Payment\<close> by the column they are mapped to.\<close>

definition payment_row :: "payment \<Rightarrow> string \<Rightarrow> sql_value" where
  "payment_row p =
     (\<lambda>c. case map_of
         [(''id'', V_uuid (p_id p)), (''amount'', V_decimal (p_amount p)),
          (''currency'', V_text (currency_value (p_currency p))), (''description'', or_null V_text (p_description p)),
          (''metadata'', V_json (p_metadata p)), (''status'', V_text (payment_status_value (p_status p))),
          (''idempotency_key'', V_text (p_idempotency_key p)),
          (''request_fingerprint'', V_text (p_request_fingerprint p)), (''webhook_url'', V_text (p_webhook_url p)),
          (''webhook_event_id'', or_null V_uuid (p_webhook_event_id p)),
          (''webhook_sent_at'', or_null V_time (p_webhook_sent_at p)),
          (''provider_payment_id'', or_null V_uuid (p_provider_payment_id p)),
          (''created_at'', V_time (p_created_at p)), (''updated_at'', V_time (p_updated_at p)),
          (''processed_at'', or_null V_time (p_processed_at p)),
          (''reconciliation_attempts'', V_int (p_reconciliation_attempts p)),
          (''requires_manual_review'', V_bool (p_requires_manual_review p)),
          (''reconciliation_lease_token'', or_null V_uuid (p_reconciliation_lease_token p)),
          (''reconciliation_lease_until'', or_null V_time (p_reconciliation_lease_until p))] c
       of None \<Rightarrow> V_null | Some v \<Rightarrow> v)"

lemma or_null_fits [simp]:
  "column_fits (sql_column n SQL_UUID d True) (or_null V_uuid i)"
  "column_fits (sql_column n SQL_Timestamptz d True) (or_null V_time t)"
  "column_fits (sql_column n SQL_Text d True) (or_null V_text s) = (\<forall>t. s = Some t \<longrightarrow> \<not> has_nul t)"
  by (simp_all add: column_fits_def sql_column_def or_null_def split: option.split)

text \<open>The texts of a row.\<close>

definition row_has_nul :: "payment \<Rightarrow> bool" where
  "row_has_nul p \<longleftrightarrow>
     (\<exists>t. p_description p = Some t \<and> has_nul t) \<or> json_has_nul (JObj (p_metadata p)) \<or>
     has_nul (p_idempotency_key p) \<or> has_nul (p_request_fingerprint p) \<or> has_nul (p_webhook_url p)"

lemma payment_columns_fit:
  "row_fits payments_table (payment_row p) \<longleftrightarrow>
     type_fits (SQL_Numeric 18 2) (V_decimal (p_amount p)) \<and> length (p_idempotency_key p) \<le> 255 \<and>
     length (p_request_fingerprint p) \<le> 64 \<and> type_fits SQL_Integer (V_int (p_reconciliation_attempts p)) \<and>
     \<not> row_has_nul p"
proof -
  have named: "sc_name (sql_column n t d b) = n" for n t d b by (simp add: sql_column_def)
  have fits: "column_fits (sql_column n t d b) v = type_fits t v" if "v \<noteq> V_null" for n t d b v
    using that by (simp add: column_fits_def sql_column_def)
  have short: "type_fits (SQL_String 3) (V_text (currency_value (p_currency p)))"
    "type_fits (SQL_String 20) (V_text (payment_status_value (p_status p)))"
    by (cases "p_currency p"; simp add: has_nul_def) (cases "p_status p"; simp add: has_nul_def)
  have checks: "currency_value (p_currency p) \<in> {''RUB'', ''USD'', ''EUR''}"
    "payment_status_value (p_status p) \<in> {''pending'', ''succeeded'', ''failed'', ''unknown''}"
    by (cases "p_currency p"; simp) (cases "p_status p"; simp)
  show ?thesis
    unfolding row_fits_def payments_table_def payment_row_def row_has_nul_def
    using short checks
    by (auto simp: named fits image_iff simp del: type_fits.simps(2,7) json_has_nul.simps)
qed

lemma set_strip: "set (strip s) \<subseteq> set s"
  by (auto simp: strip_def dest!: set_dropWhileD)

text \<open>C29. Whatever the API accepts fits the columns of the table: no row it inserts is refused for
  its length, its range or a check constraint. The one thing left unchecked is a NUL character in
  the description or the metadata: such a request is accepted, and its row is refused. (A header
  and a normalised URL hold no NUL; SHA-256 in hexadecimal has 64 digits.)\<close>

theorem accepted_payment_fits:
  assumes "payment_create_ok data" and "idempotency_header_ok key" and "length f = 64"
    and "\<not> has_nul key" and "\<not> has_nul f" and "\<not> has_nul (url_text (c_webhook_url data))"
  shows "row_fits payments_table (payment_row (new_row env now data (strip key) f)) \<longleftrightarrow>
    (\<forall>t. c_description data = Some t \<longrightarrow> \<not> has_nul t) \<and> \<not> json_has_nul (JObj (c_metadata data))"
proof -
  have "length (strip key) \<le> 255" using assms(2) length_strip [of key] by (simp add: idempotency_header_ok_def)
  moreover have "\<not> has_nul (strip key)" using assms(4) set_strip [of key] by (auto simp: has_nul_def)
  ultimately show ?thesis
    using assms(1,3,5,6)
    by (auto simp: payment_columns_fit row_has_nul_def new_row_def build_payment_def payment_create_ok_def
        amount_field_ok_def split: option.splits)
qed

theorem accepted_payment_fits_witness:
  "\<not> row_fits payments_table (payment_row (new_row sample_env 60
      (sample_request\<lparr>c_description := Some [CHR 0x00]\<rparr>) (strip '' order-1 '') (replicate 64 CHR ''a'')))"
proof -
  have "payment_create_ok (sample_request\<lparr>c_description := Some [CHR 0x00]\<rparr>)"
    using sample_requests_ok(1) by (simp add: payment_create_ok_def)
  from accepted_payment_fits [OF this sample_header(3), of "replicate 64 CHR ''a''" sample_env 60]
  show ?thesis by (simp add: has_nul_def sample_request_def)
qed

theorem downgrade_undoes_upgrade_witness:
  "Option.bind (run_ddl upgrade empty_schema) (run_ddl downgrade) = Some empty_schema"
  by (rule downgrade_undoes_upgrade) (simp_all add: empty_schema_def)

end
