(* ===== verification/Worker_Process.thy ===== *)
theory Worker_Process
  imports Worker_Main
begin

text \<open>
  The worker process while it runs: \<open>run_worker\<close>, the two background tasks, the shutdown event, the
  signal handlers and \<open>worker_main\<close> of \<open>app/worker/main.py\<close>, as a transition system.

  \<open>main_step\<close> takes the coroutine from one of its positions to the next, with the outcome of the
  call that is awaited there. asyncio switches between coroutines only where one of them waits
  (\<open>suspended\<close>), so the tasks and the scheduled callbacks take their steps only there; a signal may
  arrive at any time, and its handler only schedules \<open>shutdown_event.set\<close>. A task ends without an
  exception only once the stop event is set, and with one only if \<open>except Exception\<close> does not
  catch it (\<open>relay_run_ending\<close>, \<open>reconciliation_run_ending\<close>). The main task is not cancelled from
  outside: the handler replaces the one asyncio installs for SIGINT.
\<close>

subsection \<open>The coroutine\<close>

datatype task = Absent | Running | Done "unit outcome"

datatype final_at =
    Setting_stop | Check_outbox | Join_outbox | Check_reconciliation | Join_reconciliation
  | Check_broker | Stopping_broker | Closing_provider | Closing_webhook | Closing_database

datatype main_at =
    Checking | Connecting | Declaring | Starting | Creating | Awaiting_shutdown | Outbox_result
  | Reconciliation_result | Finally final_at "unit outcome" | Ended "unit outcome"

record worker_state =
  ps_main :: main_at
  ps_trace :: "worker_action list"
  ps_connected :: bool
  ps_started :: bool
  ps_outbox :: task
  ps_reconciliation :: task
  ps_shutdown_event :: bool
  ps_stop_event :: bool
  ps_scheduled :: nat

text \<open>\<open>ps_scheduled\<close> counts the calls of \<open>shutdown_event.set\<close> that are scheduled and have not run:
  those of the signal handler and the done-callbacks of the tasks.\<close>

definition new_process :: worker_state where
  "new_process =
     \<lparr>ps_main = Checking, ps_trace = [], ps_connected = False, ps_started = False, ps_outbox = Absent,
      ps_reconciliation = Absent, ps_shutdown_event = False, ps_stop_event = False, ps_scheduled = 0\<rparr>"

text \<open>A call of the \<open>try\<close> block ends: the next position, or the \<open>finally\<close> block with its exception.\<close>

definition in_try :: "worker_action \<Rightarrow> unit outcome \<Rightarrow> main_at \<Rightarrow> worker_state \<Rightarrow> worker_state" where
  "in_try a r later p =
     p\<lparr>ps_trace := ps_trace p @ [a],
       ps_main := (case r of Inl e \<Rightarrow> Finally Setting_stop (Inl e) | Inr _ \<Rightarrow> later)\<rparr>"

text \<open>A call of the \<open>finally\<close> block ends: an exception there ends the coroutine with it.\<close>

definition in_finally :: "worker_action \<Rightarrow> unit outcome \<Rightarrow> main_at \<Rightarrow> worker_state \<Rightarrow> worker_state" where
  "in_finally a r later p =
     p\<lparr>ps_trace := ps_trace p @ [a], ps_main := (case r of Inl e \<Rightarrow> Ended (Inl e) | Inr _ \<Rightarrow> later)\<rparr>"

definition final_step :: "unit outcome \<Rightarrow> final_at \<Rightarrow> unit outcome \<Rightarrow> worker_state \<Rightarrow> worker_state option" where
  "final_step r pos out p =
     (case pos of
        Setting_stop \<Rightarrow>
          Some (p\<lparr>ps_stop_event := True, ps_trace := ps_trace p @ [Set_stop], ps_main := Finally Check_outbox out\<rparr>)
      | Check_outbox \<Rightarrow>
          Some (p\<lparr>ps_main := Finally (if ps_outbox p = Running then Join_outbox else Check_reconciliation) out\<rparr>)
      | Join_outbox \<Rightarrow>
          (case ps_outbox p of
             Done q \<Rightarrow> Some (in_finally Await_outbox q (Finally Check_reconciliation out) p)
           | _ \<Rightarrow> None)
      | Check_reconciliation \<Rightarrow>
          Some (p\<lparr>ps_main := Finally (if ps_reconciliation p = Running then Join_reconciliation else Check_broker) out\<rparr>)
      | Join_reconciliation \<Rightarrow>
          (case ps_reconciliation p of
             Done q \<Rightarrow> Some (in_finally Await_reconciliation q (Finally Check_broker out) p)
           | _ \<Rightarrow> None)
      | Check_broker \<Rightarrow>
          Some (p\<lparr>ps_main := Finally (if ps_started p \<or> ps_connected p then Stopping_broker else Closing_provider) out\<rparr>)
      | Stopping_broker \<Rightarrow> Some (in_finally Broker_stop (suppressed r) (Finally Closing_provider out) p)
      | Closing_provider \<Rightarrow> Some (in_finally Close_provider_client r (Finally Closing_webhook out) p)
      | Closing_webhook \<Rightarrow> Some (in_finally Close_webhook_client r (Finally Closing_database out) p)
      | Closing_database \<Rightarrow> Some (in_finally Close_database r (Ended out) p))"

definition main_step :: "unit outcome \<Rightarrow> worker_state \<Rightarrow> worker_state option" where
  "main_step r p =
     (case ps_main p of
        Checking \<Rightarrow> Some (in_try Check_connection r Connecting p)
      | Connecting \<Rightarrow> Some (in_try Broker_connect r Declaring (p\<lparr>ps_connected := (r = Inr ())\<rparr>))
      | Declaring \<Rightarrow> Some (in_try Declare_topology r Starting p)
      | Starting \<Rightarrow> Some (in_try Broker_start r Creating (p\<lparr>ps_started := (r = Inr ())\<rparr>))
      | Creating \<Rightarrow>
          Some (p\<lparr>ps_trace := ps_trace p @ [Start_outbox, Start_reconciliation], ps_outbox := Running,
                  ps_reconciliation := Running, ps_main := Awaiting_shutdown\<rparr>)
      | Awaiting_shutdown \<Rightarrow>
          if ps_shutdown_event p then Some (in_try Wait_shutdown (Inr ()) Outbox_result p) else None
      | Outbox_result \<Rightarrow>
          (case ps_outbox p of
             Done q \<Rightarrow> Some (in_try Await_outbox q Reconciliation_result p)
           | _ \<Rightarrow> Some (p\<lparr>ps_main := Reconciliation_result\<rparr>))
      | Reconciliation_result \<Rightarrow>
          (case ps_reconciliation p of
             Done q \<Rightarrow> Some (in_try Await_reconciliation q (Finally Setting_stop (Inr ())) p)
           | _ \<Rightarrow> Some (p\<lparr>ps_main := Finally Setting_stop (Inr ())\<rparr>))
      | Finally pos out \<Rightarrow> final_step r pos out p
      | Ended _ \<Rightarrow> None)"

subsection \<open>The process\<close>

text \<open>Where the coroutine waits, so that others run.\<close>

definition suspended :: "main_at \<Rightarrow> bool" where
  "suspended m \<longleftrightarrow>
     (case m of
        Checking \<Rightarrow> True | Connecting \<Rightarrow> True | Declaring \<Rightarrow> True | Starting \<Rightarrow> True | Awaiting_shutdown \<Rightarrow> True
      | Finally pos _ \<Rightarrow>
          pos \<in> {Join_outbox, Join_reconciliation, Stopping_broker, Closing_provider, Closing_webhook, Closing_database}
      | _ \<Rightarrow> False)"

definition task_ending :: "bool \<Rightarrow> unit outcome \<Rightarrow> bool" where
  "task_ending stopped r \<longleftrightarrow> (case r of Inr _ \<Rightarrow> stopped | Inl e \<Rightarrow> \<not> is_exception e)"

text \<open>How the loops the tasks run end: the model of a loop has no more turns once the stop event is set.\<close>

lemma relay_run_ending: "relay_run relay turns b d = (r, b', d') \<Longrightarrow> task_ending True r"
  by (induction turns arbitrary: b d) (auto simp: task_ending_def split: prod.splits sum.splits if_splits)

lemma reconciliation_run_ending: "reconciliation_run worker turns b d = (r, b', d') \<Longrightarrow> task_ending True r"
  by (induction turns arbitrary: b d) (auto simp: task_ending_def split: prod.splits sum.splits if_splits)

text \<open>A task that ends schedules its done-callback \<open>request_shutdown\<close>.\<close>

inductive own_step :: "worker_state \<Rightarrow> worker_state \<Rightarrow> bool" where
  main: "main_step r p = Some p' \<Longrightarrow> own_step p p'"
| request_shutdown: "suspended (ps_main p) \<Longrightarrow> ps_scheduled p = Suc n \<Longrightarrow>
     own_step p (p\<lparr>ps_scheduled := n, ps_shutdown_event := True\<rparr>)"
| outbox_ends: "suspended (ps_main p) \<Longrightarrow> ps_outbox p = Running \<Longrightarrow> task_ending (ps_stop_event p) r \<Longrightarrow>
     own_step p (p\<lparr>ps_outbox := Done r, ps_scheduled := Suc (ps_scheduled p)\<rparr>)"
| reconciliation_ends: "suspended (ps_main p) \<Longrightarrow> ps_reconciliation p = Running \<Longrightarrow>
     task_ending (ps_stop_event p) r \<Longrightarrow>
     own_step p (p\<lparr>ps_reconciliation := Done r, ps_scheduled := Suc (ps_scheduled p)\<rparr>)"

text \<open>\<open>handle_signal\<close>.\<close>

definition handle_signal :: "worker_state \<Rightarrow> worker_state" where
  "handle_signal p = p\<lparr>ps_scheduled := Suc (ps_scheduled p)\<rparr>"

inductive process_step :: "worker_state \<Rightarrow> worker_state \<Rightarrow> bool" where
  own: "own_step p p' \<Longrightarrow> process_step p p'"
| signal: "\<forall>r. ps_main p \<noteq> Ended r \<Longrightarrow> process_step p (handle_signal p)"

abbreviation process_run :: "worker_state \<Rightarrow> worker_state \<Rightarrow> bool" where
  "process_run \<equiv> process_step\<^sup>*\<^sup>*"

inductive_cases own_stepE: "own_step p p'"
inductive_cases process_stepE: "process_step p p'"

lemmas main_steps = main_step_def final_step_def in_try_def in_finally_def

subsection \<open>Termination\<close>

fun final_rank :: "final_at \<Rightarrow> nat" where
  "final_rank Setting_stop = 10"
| "final_rank Check_outbox = 9"
| "final_rank Join_outbox = 8"
| "final_rank Check_reconciliation = 7"
| "final_rank Join_reconciliation = 6"
| "final_rank Check_broker = 5"
| "final_rank Stopping_broker = 4"
| "final_rank Closing_provider = 3"
| "final_rank Closing_webhook = 2"
| "final_rank Closing_database = 1"

fun main_rank :: "main_at \<Rightarrow> nat" where
  "main_rank Checking = 22"
| "main_rank Connecting = 21"
| "main_rank Declaring = 20"
| "main_rank Starting = 19"
| "main_rank Creating = 18"
| "main_rank Awaiting_shutdown = 13"
| "main_rank Outbox_result = 12"
| "main_rank Reconciliation_result = 11"
| "main_rank (Finally pos _) = final_rank pos"
| "main_rank (Ended _) = 0"

definition effort :: "worker_state \<Rightarrow> nat" where
  "effort p =
     main_rank (ps_main p) + ps_scheduled p + (if ps_outbox p = Running then 2 else 0) +
     (if ps_reconciliation p = Running then 2 else 0)"

lemma effort_decreases:
  assumes "own_step p p'"
  shows "effort p' < effort p"
  using assms
proof cases
  case (main r)
  then show ?thesis
    by (auto simp: main_steps effort_def split: main_at.splits final_at.splits task.splits sum.splits if_splits)
qed (auto simp: effort_def)

lemma own_steps_bounded: "(own_step ^^ n) p q \<Longrightarrow> n + effort q \<le> effort p"
proof (induction n arbitrary: q)
  case (Suc n)
  then obtain q' where "(own_step ^^ n) p q'" "own_step q' q" by auto
  with Suc.IH effort_decreases show ?case by fastforce
qed simp

subsection \<open>The invariant\<close>

text \<open>The position at which a release or a closing is reached comes after the joins.\<close>

fun releases :: "worker_action \<Rightarrow> bool" where
  "releases Broker_stop = True"
| "releases Close_provider_client = True"
| "releases Close_webhook_client = True"
| "releases Close_database = True"
| "releases _ = False"

definition joined :: "worker_state \<Rightarrow> bool" where
  "joined p \<longleftrightarrow>
     (list_ex releases (ps_trace p) \<longrightarrow> ps_outbox p \<noteq> Running \<and> ps_reconciliation p \<noteq> Running) \<and>
     (11 \<le> main_rank (ps_main p) \<longrightarrow> \<not> list_ex releases (ps_trace p)) \<and>
     (case ps_main p of
        Finally pos _ \<Rightarrow>
          (final_rank pos \<le> 7 \<longrightarrow> ps_outbox p \<noteq> Running) \<and> (final_rank pos \<le> 5 \<longrightarrow> ps_reconciliation p \<noteq> Running)
      | _ \<Rightarrow> True)"

lemma joined_main: "main_step r p = Some p' \<Longrightarrow> joined p \<Longrightarrow> joined p'"
proof (cases "ps_main p")
  case (Finally pos out)
  then show "main_step r p = Some p' \<Longrightarrow> joined p \<Longrightarrow> joined p'"
    by (cases pos) (auto simp: joined_def main_steps split: task.splits sum.splits if_splits)
qed (auto simp: joined_def main_steps split: task.splits sum.splits if_splits)

lemma joined_step:
  assumes "process_step p p'" and "joined p"
  shows "joined p'"
  using assms(1)
proof cases
  case own
  then show ?thesis
  proof cases
    case (main r)
    with assms(2) show ?thesis by (simp add: joined_main)
  qed (use assms(2) in \<open>auto simp: joined_def split: main_at.splits\<close>)
next
  case signal
  with assms(2) show ?thesis by (auto simp: joined_def handle_signal_def split: main_at.splits)
qed

text \<open>No crash of the relay is passed over, and one of the reconciliation only while the relay is
  waited for.\<close>

abbreviation crashed :: "task \<Rightarrow> bool" where
  "crashed t \<equiv> \<exists>e. t = Done (Inl e)"

definition crashes_seen :: "worker_state \<Rightarrow> bool" where
  "crashes_seen p \<longleftrightarrow>
     (case ps_main p of
        Reconciliation_result \<Rightarrow> \<not> crashed (ps_outbox p)
      | Finally pos (Inr _) \<Rightarrow>
          (pos \<noteq> Join_outbox \<longrightarrow> \<not> crashed (ps_outbox p)) \<and>
          (crashed (ps_reconciliation p) \<longrightarrow>
             Await_outbox \<in> set (ps_trace p) \<or> pos = Join_outbox \<or> pos = Join_reconciliation)
      | Ended (Inr _) \<Rightarrow>
          \<not> crashed (ps_outbox p) \<and> (crashed (ps_reconciliation p) \<longrightarrow> Await_outbox \<in> set (ps_trace p))
      | _ \<Rightarrow> True)"

lemma crashes_main: "main_step r p = Some p' \<Longrightarrow> crashes_seen p \<Longrightarrow> crashes_seen p'"
proof (cases "ps_main p")
  case (Finally pos out)
  then show "main_step r p = Some p' \<Longrightarrow> crashes_seen p \<Longrightarrow> crashes_seen p'"
    by (cases pos; cases out) (auto simp: crashes_seen_def main_steps split: task.splits sum.splits if_splits)
qed (auto simp: crashes_seen_def main_steps split: task.splits sum.splits if_splits)

lemma crashes_step:
  assumes "process_step p p'" and "joined p" and "crashes_seen p"
  shows "crashes_seen p'"
  using assms(1)
proof cases
  case own
  then show ?thesis
  proof cases
    case (main r)
    with assms(3) show ?thesis by (simp add: crashes_main)
  next
    case (outbox_ends r)
    with assms(2,3) show ?thesis
      by (auto simp: joined_def crashes_seen_def suspended_def split: main_at.splits sum.splits)
  next
    case (reconciliation_ends r)
    with assms(2,3) show ?thesis
      by (auto simp: joined_def crashes_seen_def suspended_def split: main_at.splits sum.splits)
  qed (use assms(3) in \<open>auto simp: crashes_seen_def split: main_at.splits sum.splits\<close>)
next
  case signal
  with assms(3) show ?thesis by (auto simp: crashes_seen_def handle_signal_def split: main_at.splits sum.splits)
qed

text \<open>While no shutdown is requested the tasks run, and a task that is to be joined has been told to
  stop.\<close>

definition shutdown_requested :: "worker_state \<Rightarrow> bool" where
  "shutdown_requested p \<longleftrightarrow> ps_shutdown_event p \<or> 0 < ps_scheduled p"

definition watched :: "worker_state \<Rightarrow> bool" where
  "watched p \<longleftrightarrow>
     (case ps_main p of
        Awaiting_shutdown \<Rightarrow> shutdown_requested p \<or> ps_outbox p = Running \<and> ps_reconciliation p = Running
      | Finally pos _ \<Rightarrow>
          (pos \<noteq> Setting_stop \<longrightarrow> ps_stop_event p) \<and> (pos = Join_outbox \<longrightarrow> ps_outbox p \<noteq> Absent) \<and>
          (pos = Join_reconciliation \<longrightarrow> ps_reconciliation p \<noteq> Absent)
      | _ \<Rightarrow> True)"

lemma watched_main: "main_step r p = Some p' \<Longrightarrow> watched p \<Longrightarrow> watched p'"
proof (cases "ps_main p")
  case (Finally pos out)
  then show "main_step r p = Some p' \<Longrightarrow> watched p \<Longrightarrow> watched p'"
    by (cases pos) (auto simp: watched_def main_steps split: task.splits sum.splits if_splits)
qed (auto simp: watched_def shutdown_requested_def main_steps split: task.splits sum.splits if_splits)

lemma watched_step:
  assumes "process_step p p'" and "watched p"
  shows "watched p'"
  using assms(1)
proof cases
  case own
  then show ?thesis
  proof cases
    case (main r)
    with assms(2) show ?thesis by (simp add: watched_main)
  qed (use assms(2) in \<open>auto simp: watched_def shutdown_requested_def split: main_at.splits\<close>)
next
  case signal
  with assms(2) show ?thesis
    by (auto simp: watched_def shutdown_requested_def handle_signal_def split: main_at.splits)
qed

lemma process_invariants:
  assumes "process_run new_process p"
  shows "joined p \<and> crashes_seen p \<and> watched p"
  using assms
proof (induction rule: rtranclp_induct)
  case base
  show ?case by (simp add: new_process_def joined_def crashes_seen_def watched_def)
next
  case (step p q)
  then show ?case by (blast intro: joined_step crashes_step watched_step)
qed

text \<open>Once a shutdown is requested, the process can always go on until it has ended.\<close>

lemma requested_own_step: "own_step p q \<Longrightarrow> shutdown_requested p \<Longrightarrow> shutdown_requested q"
  by (erule own_stepE)
    (auto simp: shutdown_requested_def main_steps split: main_at.splits final_at.splits task.splits sum.splits if_splits)

lemma not_stuck:
  assumes "joined p" and "watched p" and "shutdown_requested p" and "\<forall>r. ps_main p \<noteq> Ended r"
  shows "\<exists>q. own_step p q"
proof (cases "\<exists>q. main_step (Inr ()) p = Some q")
  case True
  then show ?thesis by (blast intro: own_step.main)
next
  case False
  then consider (waiting) "ps_main p = Awaiting_shutdown" "\<not> ps_shutdown_event p"
    | (relay) out where "ps_main p = Finally Join_outbox out" "ps_outbox p = Running"
    | (rec) out where "ps_main p = Finally Join_reconciliation out" "ps_reconciliation p = Running"
    using assms(2,4)
    by (auto simp: main_steps watched_def split: main_at.splits final_at.splits task.splits if_splits)
  then show ?thesis
  proof cases
    case waiting
    then obtain n where "ps_scheduled p = Suc n"
      using assms(3) by (auto simp: shutdown_requested_def gr0_conv_Suc)
    with waiting own_step.request_shutdown [of p n] show ?thesis by (auto simp: suspended_def)
  next
    case relay
    with assms(2) own_step.outbox_ends [of p "Inr ()"] show ?thesis
      by (auto simp: suspended_def watched_def task_ending_def)
  next
    case rec
    with assms(2) own_step.reconciliation_ends [of p "Inr ()"] show ?thesis
      by (auto simp: suspended_def watched_def task_ending_def)
  qed
qed

subsection \<open>What the process guarantees\<close>

text \<open>C18. No task outlives what it uses. In every reachable state, under any order of signals, crashes
  and failures, the broker is stopped and the clients and the database are closed only after both
  background tasks have ended; the worker waits for a shutdown only while both tasks run, so that a
  crash always ends it; and it ends normally only if the relay did not crash, nor the reconciliation,
  unless that happened while the worker was already waiting for the relay to stop.\<close>

theorem tasks_end_before_release:
  assumes "process_run new_process p"
  shows "(list_ex releases (ps_trace p) \<longrightarrow> ps_outbox p \<noteq> Running \<and> ps_reconciliation p \<noteq> Running) \<and>
    (ps_main p = Awaiting_shutdown \<and> \<not> shutdown_requested p \<longrightarrow>
       ps_outbox p = Running \<and> ps_reconciliation p = Running) \<and>
    (ps_main p = Ended (Inr ()) \<longrightarrow>
       \<not> crashed (ps_outbox p) \<and> (crashed (ps_reconciliation p) \<longrightarrow> Await_outbox \<in> set (ps_trace p)))"
  using process_invariants [OF assms] by (auto simp: joined_def watched_def crashes_seen_def)


subsection \<open>The process runs \<open>run_worker\<close>\<close>

text \<open>The blocks as the lists of calls at each position: all calls before the position have ended
  normally.\<close>

definition ok_calls :: "(worker_action \<times> unit outcome) list \<Rightarrow> bool" where
  "ok_calls xs \<longleftrightarrow> list_all (\<lambda>(a, r). r = Inr ()) xs"

definition outbox_part :: "process_env \<Rightarrow> worker_action list \<Rightarrow> (worker_action \<times> unit outcome) list" where
  "outbox_part env tried =
     (if Start_outbox \<in> set tried \<and> \<not> pe_outbox_done_later env then [(Await_outbox, pe_outbox env)] else [])"

definition reconciliation_part :: "process_env \<Rightarrow> worker_action list \<Rightarrow> (worker_action \<times> unit outcome) list" where
  "reconciliation_part env tried =
     (if Start_reconciliation \<in> set tried \<and> \<not> pe_reconciliation_done_later env
      then [(Await_reconciliation, pe_reconciliation env)] else [])"

definition broker_part :: "process_env \<Rightarrow> (worker_action \<times> unit outcome) list" where
  "broker_part env = (if broker_connected env then [(Broker_stop, suppressed (pe_stop env))] else [])"

definition final_parts ::
  "process_env \<Rightarrow> worker_action list \<Rightarrow> (worker_action \<times> unit outcome) list list" where
  "final_parts env tried =
     [[(Set_stop, Inr ())], outbox_part env tried, reconciliation_part env tried, broker_part env,
      [(Close_provider_client, pe_close_provider env)], [(Close_webhook_client, pe_close_webhook env)],
      [(Close_database, pe_close_database env)]]"

fun final_index :: "final_at \<Rightarrow> nat" where
  "final_index Setting_stop = 0"
| "final_index Check_outbox = 1"
| "final_index Join_outbox = 1"
| "final_index Check_reconciliation = 2"
| "final_index Join_reconciliation = 2"
| "final_index Check_broker = 3"
| "final_index Stopping_broker = 3"
| "final_index Closing_provider = 4"
| "final_index Closing_webhook = 5"
| "final_index Closing_database = 6"

definition final_calls ::
  "final_at \<Rightarrow> process_env \<Rightarrow> worker_action list \<Rightarrow> (worker_action \<times> unit outcome) list" where
  "final_calls pos env tried = concat (take (final_index pos) (final_parts env tried))"

definition try_calls :: "main_at \<Rightarrow> process_env \<Rightarrow> (worker_action \<times> unit outcome) list" where
  "try_calls m env =
     concat (take (case m of Checking \<Rightarrow> 0 | Connecting \<Rightarrow> 1 | Declaring \<Rightarrow> 2 | Starting \<Rightarrow> 3 | Creating \<Rightarrow> 4
         | Awaiting_shutdown \<Rightarrow> 5 | Outbox_result \<Rightarrow> 6 | _ \<Rightarrow> 7)
       [[(Check_connection, pe_check env)], [(Broker_connect, pe_connect env)],
        [(Declare_topology, pe_declare env)], [(Broker_start, pe_start env)],
        [(Start_outbox, Inr ()), (Start_reconciliation, Inr ())], [(Wait_shutdown, pe_wait env)],
        (if pe_outbox_done env then [(Await_outbox, pe_outbox env)] else [])])"

text \<open>What the environment says of the tasks it was asked about.\<close>

definition seen_done :: "process_env \<Rightarrow> worker_state \<Rightarrow> bool" where
  "seen_done env p \<longleftrightarrow>
     (pe_outbox_done env \<longrightarrow> ps_outbox p = Done (pe_outbox env)) \<and>
     (pe_reconciliation_done env \<longrightarrow> ps_reconciliation p = Done (pe_reconciliation env)) \<and>
     pe_wait env = Inr ()"

definition follows :: "process_env \<Rightarrow> worker_state \<Rightarrow> bool" where
  "follows env p \<longleftrightarrow> seen_done env p \<and>
     (case ps_main p of
        Ended r \<Rightarrow>
          \<exists>tried q fin q'. perform (try_block env) = (tried, q) \<and> perform (finally_block env tried) = (fin, q') \<and>
            ps_trace p = tried @ fin \<and> r = (case q' of Inl e \<Rightarrow> Inl e | Inr _ \<Rightarrow> q)
      | Finally pos out \<Rightarrow>
          \<exists>tried. perform (try_block env) = (tried, out) \<and>
            ps_trace p = tried @ map fst (final_calls pos env tried) \<and> ok_calls (final_calls pos env tried) \<and>
            (Start_outbox \<in> set tried \<longleftrightarrow> ps_outbox p \<noteq> Absent) \<and>
            (Start_reconciliation \<in> set tried \<longleftrightarrow> ps_reconciliation p \<noteq> Absent) \<and>
            (ps_started p \<or> ps_connected p \<longleftrightarrow> broker_connected env) \<and>
            (pos = Join_outbox \<longrightarrow> \<not> pe_outbox_done_later env) \<and>
            (pos = Join_reconciliation \<longrightarrow> \<not> pe_reconciliation_done_later env) \<and>
            (pos = Stopping_broker \<longrightarrow> broker_connected env)
      | m \<Rightarrow>
          ps_trace p = map fst (try_calls m env) \<and> ok_calls (try_calls m env) \<and>
          (13 \<le> main_rank m \<longrightarrow> \<not> pe_outbox_done env) \<and> \<not> pe_reconciliation_done env \<and>
          (ps_outbox p \<noteq> Absent \<longleftrightarrow> main_rank m \<le> 13) \<and> (ps_reconciliation p \<noteq> Absent \<longleftrightarrow> main_rank m \<le> 13) \<and>
          (ps_connected p \<longleftrightarrow> main_rank m \<le> 20) \<and> (ps_started p \<longrightarrow> ps_connected p))"

lemmas follow_defs = follows_def seen_done_def try_calls_def ok_calls_def final_calls_def final_parts_def main_steps
  try_block_def  broker_connected_def perform_single

lemma follows_try:
  assumes "follows env p" and "main_step r p = Some p'" and "\<forall>pos out. ps_main p \<noteq> Finally pos out"
  shows "\<exists>env'. follows env' p'"
proof (cases "ps_main p")
  case Checking
  with assms show ?thesis
    by (intro exI [of _ "env\<lparr>pe_check := r\<rparr>"])
      (auto simp: follow_defs split: sum.splits)
next
  case Connecting
  with assms show ?thesis
    by (intro exI [of _ "env\<lparr>pe_connect := r\<rparr>"])
      (auto simp: follow_defs split: sum.splits)
next
  case Declaring
  with assms show ?thesis
    by (intro exI [of _ "env\<lparr>pe_declare := r\<rparr>"])
      (auto simp: follow_defs split: sum.splits)
next
  case Starting
  with assms show ?thesis
    by (intro exI [of _ "env\<lparr>pe_start := r\<rparr>"])
      (auto simp: follow_defs split: sum.splits)
next
  case Creating
  with assms show ?thesis
    by (intro exI [of _ env])
      (auto simp: follow_defs split: sum.splits)
next
  case Awaiting_shutdown
  with assms show ?thesis
    by (intro exI [of _ env])
      (auto simp: follow_defs split: sum.splits if_splits)
next
  case Outbox_result
  show ?thesis
  proof (cases "\<exists>q. ps_outbox p = Done q")
    case True
    then obtain q where "ps_outbox p = Done q" by blast
    with Outbox_result assms show ?thesis
      by (intro exI [of _ "env\<lparr>pe_outbox_done := True, pe_outbox := q\<rparr>"])
        (auto simp: follow_defs split: sum.splits)
  next
    case False
    with Outbox_result assms show ?thesis
      by (intro exI [of _ "env\<lparr>pe_outbox_done := False\<rparr>"]) (auto simp: follow_defs split: task.splits)
  qed
next
  case Reconciliation_result
  show ?thesis
  proof (cases "\<exists>q. ps_reconciliation p = Done q")
    case True
    then obtain q where "ps_reconciliation p = Done q" by blast
    with Reconciliation_result assms show ?thesis
      by (intro exI [of _ "env\<lparr>pe_reconciliation_done := True, pe_reconciliation := q\<rparr>"])
        (auto simp: follow_defs split: sum.splits if_splits)
  next
    case False
    with Reconciliation_result assms show ?thesis
      by (intro exI [of _ env]) (auto simp: follow_defs split: task.splits if_splits)
  qed
qed (use assms in \<open>auto simp: main_steps\<close>)

text \<open>The \<open>finally\<close> block, call by call.\<close>

lemma finally_parts: "finally_block env tried = concat (final_parts env tried)"
  by (simp add: finally_block_def final_parts_def outbox_part_def reconciliation_part_def broker_part_def)

lemma perform_stops: "ok_calls xs \<Longrightarrow> perform (xs @ (a, Inl e) # ys) = (map fst xs @ [a], Inl e)"
  by (induction xs rule: perform.induct) (auto simp: ok_calls_def)

lemma try_block_simps [simp]:
  "try_block (env\<lparr>pe_outbox_done_later := b\<rparr>) = try_block env"
  "try_block (env\<lparr>pe_reconciliation_done_later := b\<rparr>) = try_block env"
  "try_block (env\<lparr>pe_stop := r\<rparr>) = try_block env"
  "try_block (env\<lparr>pe_close_provider := r\<rparr>) = try_block env"
  "try_block (env\<lparr>pe_close_webhook := r\<rparr>) = try_block env"
  "try_block (env\<lparr>pe_close_database := r\<rparr>) = try_block env"
  "pe_outbox_done env \<longrightarrow> pe_outbox env = r \<Longrightarrow> try_block (env\<lparr>pe_outbox := r\<rparr>) = try_block env"
  "pe_reconciliation_done env \<longrightarrow> pe_reconciliation env = r \<Longrightarrow>
     try_block (env\<lparr>pe_reconciliation := r\<rparr>) = try_block env"
  by (auto simp: try_block_def)

lemmas part_defs = final_calls_def final_parts_def outbox_part_def reconciliation_part_def broker_part_def
  ok_calls_def numeral_eq_Suc

text \<open>A step of the \<open>finally\<close> block with the environment in which its call ends as it does.\<close>

definition final_view :: "process_env \<Rightarrow> worker_action list \<Rightarrow> worker_state \<Rightarrow> bool" where
  "final_view env tried p \<longleftrightarrow> seen_done env p \<and>
     (Start_outbox \<in> set tried \<longleftrightarrow> ps_outbox p \<noteq> Absent) \<and>
     (Start_reconciliation \<in> set tried \<longleftrightarrow> ps_reconciliation p \<noteq> Absent) \<and>
     (ps_started p \<or> ps_connected p \<longleftrightarrow> broker_connected env)"

lemma env_simps [simp]:
  "broker_connected (env\<lparr>pe_outbox := r\<rparr>) = broker_connected env"
  "broker_connected (env\<lparr>pe_reconciliation := r\<rparr>) = broker_connected env"
  "broker_connected (env\<lparr>pe_outbox_done_later := b\<rparr>) = broker_connected env"
  "broker_connected (env\<lparr>pe_reconciliation_done_later := b\<rparr>) = broker_connected env"
  "broker_connected (env\<lparr>pe_stop := r\<rparr>) = broker_connected env"
  "broker_connected (env\<lparr>pe_close_provider := r\<rparr>) = broker_connected env"
  "broker_connected (env\<lparr>pe_close_webhook := r\<rparr>) = broker_connected env"
  "broker_connected (env\<lparr>pe_close_database := r\<rparr>) = broker_connected env"
  "final_view (env\<lparr>pe_stop := r\<rparr>) tried p = final_view env tried p"
  "final_view (env\<lparr>pe_close_provider := r\<rparr>) tried p = final_view env tried p"
  "final_view (env\<lparr>pe_close_webhook := r\<rparr>) tried p = final_view env tried p"
  "final_view (env\<lparr>pe_close_database := r\<rparr>) tried p = final_view env tried p"
  "pe_outbox_done env \<longrightarrow> pe_outbox env = r \<Longrightarrow> final_view (env\<lparr>pe_outbox := r\<rparr>) tried p = final_view env tried p"
  "pe_reconciliation_done env \<longrightarrow> pe_reconciliation env = r \<Longrightarrow>
     final_view (env\<lparr>pe_reconciliation := r\<rparr>) tried p = final_view env tried p"
  by (auto simp: broker_connected_def final_view_def seen_done_def)

lemma seen_done_simps [simp]:
  "seen_done env (p\<lparr>ps_trace := tr, ps_main := m\<rparr>) = seen_done env p"
  by (simp add: seen_done_def)

lemma follows_call:
  assumes "perform (try_block env) = (tried, out)" and "final_view env tried p"
    and "ps_trace p = tried @ map fst (final_calls pos env tried)" and "ok_calls (final_calls pos env tried)"
    and "final_index pos < 7" and "final_parts env tried ! final_index pos = [(a, r)]"
    and "final_index pos = 6 \<and> later = Ended out \<or> (\<exists>pos'. later = Finally pos' out \<and>
      final_index pos' = Suc (final_index pos) \<and> pos' \<notin> {Join_outbox, Join_reconciliation, Stopping_broker})"
  shows "follows env (in_finally a r later p)"
proof -
  let ?calls = "final_calls pos env tried" and ?rest = "concat (drop (Suc (final_index pos)) (final_parts env tried))"
  have len: "length (final_parts env tried) = 7" by (simp add: final_parts_def)
  have all: "finally_block env tried = ?calls @ (a, r) # ?rest"
    using id_take_nth_drop [of "final_index pos" "final_parts env tried"] assms(5,6) len
    unfolding finally_parts final_calls_def by (metis append_Cons append_Nil concat.simps(2) concat_append)
  have up_to: "final_calls pos' env tried = ?calls @ [(a, r)]" if "final_index pos' = Suc (final_index pos)" for pos'
    using assms(5,6) len that by (simp add: final_calls_def take_Suc_conv_app_nth)
  show ?thesis
  proof (cases r)
    case (Inl e)
    with perform_stops [OF assms(4), of a e ?rest] all
    have "perform (finally_block env tried) = (map fst ?calls @ [a], Inl e)" by simp
    with Inl assms(1-3) show ?thesis by (simp add: follows_def in_finally_def final_view_def)
  next
    case (Inr u)
    from assms(7) show ?thesis
    proof (elim disjE exE conjE)
      assume six: "final_index pos = 6" "later = Ended out"
      with Inr all assms(4) len have "perform (finally_block env tried) = (map fst ?calls @ [a], Inr ())"
        using perform_all [of "finally_block env tried"] by (simp add: ok_calls_def)
      with six Inr assms(1-3) show ?thesis by (simp add: follows_def in_finally_def final_view_def)
    next
      fix pos'
      assume "later = Finally pos' out" "final_index pos' = Suc (final_index pos)"
        "pos' \<notin> {Join_outbox, Join_reconciliation, Stopping_broker}"
      with Inr assms(1-4) up_to [of pos'] show ?thesis
        by (simp add: follows_def in_finally_def final_view_def ok_calls_def)
    qed
  qed
qed

lemma follows_final:
  assumes "follows env p" and "main_step r p = Some p'" and "ps_main p = Finally pos out"
  shows "\<exists>env'. follows env' p'"
proof -
  obtain tried where t: "perform (try_block env) = (tried, out)" "final_view env tried p"
    "ps_trace p = tried @ map fst (final_calls pos env tried)" "ok_calls (final_calls pos env tried)"
    and extra: "pos = Join_outbox \<longrightarrow> \<not> pe_outbox_done_later env" "pos = Join_reconciliation \<longrightarrow> \<not> pe_reconciliation_done_later env"
      "pos = Stopping_broker \<longrightarrow> broker_connected env"
    using assms(1,3) by (auto simp: follows_def final_view_def)
  have step: "final_step r pos out p = Some p'" using assms(2,3) by (simp add: main_step_def)
  show ?thesis
  proof (cases pos)
    case Setting_stop
    with t step show ?thesis
      by (intro exI [of _ env]) (auto simp: final_step_def follows_def final_view_def seen_done_def part_defs)
  next
    case Check_outbox
    with t step show ?thesis
      by (intro exI [of _ "env\<lparr>pe_outbox_done_later := (ps_outbox p \<noteq> Running)\<rparr>"])
        (auto simp: final_step_def follows_def final_view_def seen_done_def part_defs)
  next
    case Join_outbox
    then obtain q where q: "ps_outbox p = Done q" and p': "p' = in_finally Await_outbox q (Finally Check_reconciliation out) p"
      using step by (auto simp: final_step_def split: task.splits)
    have same: "pe_outbox_done env \<longrightarrow> pe_outbox env = q" using t(2) q by (simp add: final_view_def seen_done_def)
    have "Start_outbox \<in> set tried" using t(2) q by (simp add: final_view_def)
    then show ?thesis unfolding p' using t q same extra Join_outbox
      by (intro exI [of _ "env\<lparr>pe_outbox := q\<rparr>"] follows_call [where pos = Join_outbox and tried = tried and out = out])
        (auto simp: part_defs)
  next
    case Check_reconciliation
    with t step show ?thesis
      by (intro exI [of _ "env\<lparr>pe_reconciliation_done_later := (ps_reconciliation p \<noteq> Running)\<rparr>"])
        (auto simp: final_step_def follows_def final_view_def seen_done_def part_defs)
  next
    case Join_reconciliation
    then obtain q where q: "ps_reconciliation p = Done q"
      and p': "p' = in_finally Await_reconciliation q (Finally Check_broker out) p"
      using step by (auto simp: final_step_def split: task.splits)
    have same: "pe_reconciliation_done env \<longrightarrow> pe_reconciliation env = q"
      using t(2) q by (simp add: final_view_def seen_done_def)
    have "Start_reconciliation \<in> set tried" using t(2) q by (simp add: final_view_def)
    then show ?thesis unfolding p' using t q same extra Join_reconciliation
      by (intro exI [of _ "env\<lparr>pe_reconciliation := q\<rparr>"]
          follows_call [where pos = Join_reconciliation and tried = tried and out = out])
        (auto simp: part_defs)
  next
    case Check_broker
    with t step show ?thesis
      by (intro exI [of _ env]) (auto simp: final_step_def follows_def final_view_def seen_done_def part_defs)
  next
    case Stopping_broker
    then have p': "p' = in_finally Broker_stop (suppressed r) (Finally Closing_provider out) p"
      using step by (simp add: final_step_def)
    show ?thesis unfolding p' using t extra Stopping_broker
      by (intro exI [of _ "env\<lparr>pe_stop := r\<rparr>"]
          follows_call [where pos = Stopping_broker and tried = tried and out = out])
        (auto simp: part_defs)
  next
    case Closing_provider
    then have p': "p' = in_finally Close_provider_client r (Finally Closing_webhook out) p"
      using step by (simp add: final_step_def)
    show ?thesis unfolding p' using t Closing_provider
      by (intro exI [of _ "env\<lparr>pe_close_provider := r\<rparr>"]
          follows_call [where pos = Closing_provider and tried = tried and out = out])
        (auto simp: part_defs)
  next
    case Closing_webhook
    then have p': "p' = in_finally Close_webhook_client r (Finally Closing_database out) p"
      using step by (simp add: final_step_def)
    show ?thesis unfolding p' using t Closing_webhook
      by (intro exI [of _ "env\<lparr>pe_close_webhook := r\<rparr>"]
          follows_call [where pos = Closing_webhook and tried = tried and out = out])
        (auto simp: part_defs)
  next
    case Closing_database
    then have p': "p' = in_finally Close_database r (Ended out) p"
      using step by (simp add: final_step_def)
    show ?thesis unfolding p' using t Closing_database
      by (intro exI [of _ "env\<lparr>pe_close_database := r\<rparr>"]
          follows_call [where pos = Closing_database and tried = tried and out = out])
        (auto simp: part_defs)
  qed
qed

lemma follows_same:
  assumes "follows env p" and "seen_done env p'" and "ps_main p' = ps_main p" and "ps_trace p' = ps_trace p"
    and "ps_connected p' = ps_connected p" and "ps_started p' = ps_started p"
    and "ps_outbox p' = Absent \<longleftrightarrow> ps_outbox p = Absent"
    and "ps_reconciliation p' = Absent \<longleftrightarrow> ps_reconciliation p = Absent"
  shows "follows env p'"
  using assms by (auto simp: follows_def split: main_at.splits)

lemma follows_step:
  assumes "process_step p p'" and "follows env p"
  shows "\<exists>env'. follows env' p'"
  using assms(1)
proof cases
  case own
  have seen: "seen_done env p" using assms(2) by (simp add: follows_def)
  from own show ?thesis
  proof cases
    case (main r)
    then show ?thesis
      using follows_try [OF assms(2)] follows_final [OF assms(2)] by blast
  next
    case (request_shutdown n)
    with assms(2) seen show ?thesis by (intro exI [of _ env] follows_same [OF assms(2)]) (simp_all add: seen_done_def)
  next
    case (outbox_ends r)
    with assms(2) seen show ?thesis by (intro exI [of _ env] follows_same [OF assms(2)]) (auto simp: seen_done_def)
  next
    case (reconciliation_ends r)
    with assms(2) seen show ?thesis by (intro exI [of _ env] follows_same [OF assms(2)]) (auto simp: seen_done_def)
  qed
next
  case signal
  then show ?thesis using assms(2)
    by (intro exI [of _ env] follows_same [OF assms(2)]) (auto simp: handle_signal_def seen_done_def follows_def)
qed


subsection \<open>Concrete runs\<close>

datatype move = Main "unit outcome" | Callback | Outbox_end "unit outcome" | Reconciliation_end "unit outcome" | Signal

definition apply_move :: "move \<Rightarrow> worker_state \<Rightarrow> worker_state option" where
  "apply_move a p =
     (case a of
        Main r \<Rightarrow> main_step r p
      | Callback \<Rightarrow>
          if suspended (ps_main p) \<and> 0 < ps_scheduled p
          then Some (p\<lparr>ps_scheduled := ps_scheduled p - 1, ps_shutdown_event := True\<rparr>) else None
      | Outbox_end r \<Rightarrow>
          if suspended (ps_main p) \<and> ps_outbox p = Running \<and> task_ending (ps_stop_event p) r
          then Some (p\<lparr>ps_outbox := Done r, ps_scheduled := Suc (ps_scheduled p)\<rparr>) else None
      | Reconciliation_end r \<Rightarrow>
          if suspended (ps_main p) \<and> ps_reconciliation p = Running \<and> task_ending (ps_stop_event p) r
          then Some (p\<lparr>ps_reconciliation := Done r, ps_scheduled := Suc (ps_scheduled p)\<rparr>) else None
      | Signal \<Rightarrow> (case ps_main p of Ended _ \<Rightarrow> None | _ \<Rightarrow> Some (handle_signal p)))"

fun run_moves :: "move list \<Rightarrow> worker_state \<Rightarrow> worker_state option" where
  "run_moves [] p = Some p"
| "run_moves (a # moves) p = Option.bind (apply_move a p) (run_moves moves)"

lemma apply_move_own: "apply_move a p = Some q \<Longrightarrow> a \<noteq> Signal \<Longrightarrow> own_step p q"
proof (cases a)
  case Callback
  then show "apply_move a p = Some q \<Longrightarrow> own_step p q"
    using own_step.request_shutdown [of p "ps_scheduled p - 1"] by (auto simp: apply_move_def split: if_splits)
qed (auto simp: apply_move_def intro: own_step.intros split: if_splits)

lemma apply_move_step: "apply_move a p = Some q \<Longrightarrow> process_step p q"
proof (cases "a = Signal")
  case True
  then show "apply_move a p = Some q \<Longrightarrow> process_step p q"
    by (auto simp: apply_move_def intro!: process_step.signal split: main_at.splits)
qed (blast intro: process_step.own apply_move_own)

lemma run_moves_run: "run_moves moves p = Some q \<Longrightarrow> process_run p q"
  by (induction moves arbitrary: p)
    (auto simp: Option.bind_eq_Some_conv intro: apply_move_step converse_rtranclp_into_rtranclp)

lemma run_moves_own: "run_moves moves p = Some q \<Longrightarrow> Signal \<notin> set moves \<Longrightarrow> (own_step ^^ length moves) p q"
proof (induction moves arbitrary: p)
  case (Cons a moves)
  then obtain p' where "apply_move a p = Some p'" "run_moves moves p' = Some q"
    by (auto simp: Option.bind_eq_Some_conv)
  with Cons have "own_step p p'" "(own_step ^^ length moves) p' q" by (auto intro: apply_move_own)
  from relpowp_Suc_I2 [OF this] show ?case by (simp only: length_Cons)
qed simp

text \<open>A signal, the callback it schedules, and an orderly end; and a crash of the reconciliation.\<close>

definition signalled_moves :: "move list" where
  "signalled_moves = replicate 5 (Main (Inr ())) @ [Signal]"

definition orderly_moves :: "move list" where
  "orderly_moves = Callback # replicate 5 (Main (Inr ())) @
     [Outbox_end (Inr ()), Main (Inr ()), Main (Inr ()), Reconciliation_end (Inr ())] @ replicate 6 (Main (Inr ()))"

definition crash_moves :: "move list" where
  "crash_moves = replicate 5 (Main (Inr ())) @ [Reconciliation_end (Inl CancelledError), Callback] @
     replicate 5 (Main (Inr ())) @ [Outbox_end (Inr ())] @ replicate 7 (Main (Inr ()))"

lemmas move_defs = signalled_moves_def orderly_moves_def crash_moves_def numeral_eq_Suc apply_move_def main_step_def
  final_step_def in_try_def in_finally_def suspended_def task_ending_def handle_signal_def new_process_def suppressed_def

lemma signalled:
  obtains p where "run_moves signalled_moves new_process = Some p" "shutdown_requested p" "ps_scheduled p = 1"
    "map_option ps_main (run_moves orderly_moves p) = Some (Ended (Inr ()))"
    "map_option ps_trace (run_moves orderly_moves p) =
      Some [Check_connection, Broker_connect, Declare_topology, Broker_start, Start_outbox, Start_reconciliation,
        Wait_shutdown, Set_stop, Await_outbox, Await_reconciliation, Broker_stop, Close_provider_client,
        Close_webhook_client, Close_database]"
proof
  show "run_moves signalled_moves new_process = Some (the (run_moves signalled_moves new_process))"
    by (simp add: move_defs)
qed (simp_all add: move_defs shutdown_requested_def)

lemma crash_run:
  "map_option (\<lambda>p. (ps_main p, list_ex releases (ps_trace p))) (run_moves crash_moves new_process) =
     Some (Ended (Inl CancelledError), True)"
  by (simp add: move_defs)

theorem tasks_end_before_release_witness:
  "\<exists>p. process_run new_process p \<and> ps_main p = Ended (Inl CancelledError) \<and> list_ex releases (ps_trace p) \<and>
     ps_outbox p \<noteq> Running"
proof -
  obtain p where "run_moves crash_moves new_process = Some p" "ps_main p = Ended (Inl CancelledError)"
    "list_ex releases (ps_trace p)" using crash_run by auto
  with tasks_end_before_release [of p] run_moves_run show ?thesis by blast
qed



end
