(* ===== verification/Request_Log.thy ===== *)
theory Request_Log
  imports Http_Api Config
begin

text \<open>
  \<open>app/core/logging.py\<close> and the whole of \<open>app/core/middleware.py\<close>: the level the log is configured
  with, the context variables that structlog merges into every entry, and the request middleware
  that clears, binds and clears them.

  \<open>request_log_middleware\<close> extends \<open>request_id_middleware\<close> of \<open>Http_Api\<close>, which keeps of the
  middleware what the client sees. An entry has its level, its event and its fields; the timestamp,
  the traceback and the JSON text are structlog's. A clock is an exact real.
\<close>

subsection \<open>Levels\<close>

text \<open>\<open>logging.getLevelNamesMapping()\<close> of the standard library.\<close>

definition getLevelNamesMapping :: "string \<rightharpoonup> int" where
  "getLevelNamesMapping =
     map_of [(''CRITICAL'', 50), (''FATAL'', 50), (''ERROR'', 40), (''WARN'', 30), (''WARNING'', 30), (''INFO'', 20),
       (''DEBUG'', 10), (''NOTSET'', 0)]"

text \<open>The level below which the bound logger drops an entry.\<close>

definition configure_logging :: "string \<Rightarrow> int outcome" where
  "configure_logging level_name =
     (case getLevelNamesMapping level_name of
        None \<Rightarrow> Inl (OtherException ''KeyError'')
      | Some level \<Rightarrow> Inr level)"

subsection \<open>Entries\<close>

datatype log_value = Text string | Number real | Code int

type_synonym log_fields = "string \<rightharpoonup> log_value"

record log_entry =
  lg_level :: int
  lg_event :: string
  lg_fields :: log_fields

text \<open>\<open>merge_contextvars\<close>: a field of the call hides a context variable of its name.\<close>

definition emit :: "int \<Rightarrow> log_fields \<Rightarrow> int \<Rightarrow> string \<Rightarrow> log_fields \<Rightarrow> log_entry list" where
  "emit minimum context level event kw =
     (if level < minimum then [] else [\<lparr>lg_level = level, lg_event = event, lg_fields = context ++ kw\<rparr>])"

subsection \<open>The middleware\<close>

record request_head =
  rq_method :: string
  rq_path :: string
  rq_request_id :: "string option"

text \<open>\<open>headers.get("X-Request-ID") or str(uuid4())\<close>.\<close>

definition request_id_of :: "string option \<Rightarrow> uuid \<Rightarrow> string" where
  "request_id_of x_request_id new_id =
     (case x_request_id of Some s \<Rightarrow> if s = [] then uuid_str new_id else s | None \<Rightarrow> uuid_str new_id)"

definition bound_context :: "request_head \<Rightarrow> uuid \<Rightarrow> log_fields" where
  "bound_context request new_id =
     [''request_id'' \<mapsto> Text (request_id_of (rq_request_id request) new_id),
      ''method'' \<mapsto> Text (rq_method request), ''path'' \<mapsto> Text (rq_path request)]"

text \<open>\<open>round((end - start) * 1000, 2)\<close>.\<close>

definition duration_ms :: "real \<Rightarrow> real \<Rightarrow> real" where
  "duration_ms started ended = of_int (round_half_even ((ended - started) * 1000 * 100)) / 100"

text \<open>What \<open>call_next\<close> does: how it ends, and what it logs, each as level, event and fields.\<close>

record call_next =
  cn_result :: "api_response outcome"
  cn_log :: "(int \<times> string \<times> log_fields) list"
  cn_new_id :: uuid
  cn_started :: real
  cn_ended :: real

definition inner_entries :: "int \<Rightarrow> log_fields \<Rightarrow> (int \<times> string \<times> log_fields) list \<Rightarrow> log_entry list" where
  "inner_entries minimum context calls =
     concat (map (\<lambda>(level, event, kw). emit minimum context level event kw) calls)"

text \<open>The response, the entries and the context variables afterwards; \<open>inherited\<close> are those before.\<close>

definition request_log_middleware ::
  "int \<Rightarrow> request_head \<Rightarrow> call_next \<Rightarrow> log_fields \<Rightarrow> api_response outcome \<times> log_entry list \<times> log_fields" where
  "request_log_middleware minimum request n inherited =
     (let cleared = Map.empty;
          context = cleared ++ bound_context request (cn_new_id n);
          started = emit minimum context 20 ''request_started'' Map.empty;
          inner = inner_entries minimum context (cn_log n);
          duration = Number (duration_ms (cn_started n) (cn_ended n))
      in case cn_result n of
           Inl e \<Rightarrow>
             (Inl e,
              started @ inner @
                (if is_exception e then emit minimum context 40 ''request_failed'' [''duration_ms'' \<mapsto> duration] else []),
              Map.empty)
         | Inr resp \<Rightarrow>
             (Inr (resp\<lparr>ar_request_id := Some (request_id_of (rq_request_id request) (cn_new_id n))\<rparr>),
              started @ inner @
                emit minimum context 20 ''request_finished''
                  [''status_code'' \<mapsto> Code (ar_status_code resp), ''duration_ms'' \<mapsto> duration],
              Map.empty))"

text \<open>Requests that share their context variables, one after the other.\<close>

fun serve_requests ::
  "int \<Rightarrow> (request_head \<times> call_next) list \<Rightarrow> log_fields \<Rightarrow>
     (api_response outcome \<times> log_entry list) list \<times> log_fields" where
  "serve_requests minimum [] context = ([], context)"
| "serve_requests minimum ((request, n) # rest) context =
     (case request_log_middleware minimum request n context of
        (r, entries, context1) \<Rightarrow>
          (case serve_requests minimum rest context1 of
             (served, context2) \<Rightarrow> ((r, entries) # served, context2)))"

subsection \<open>Lemmas\<close>

text \<open>A level the settings allow is one the standard library knows.\<close>

lemma configure_logging_ok:
  assumes "Settings s = Inr s'"
  obtains level where "configure_logging (log_level s') = Inr level" "10 \<le> level" "level \<le> 50"
  using Settings_ok [OF assms] that
  by (auto simp: settings_fields_ok_def configure_logging_def getLevelNamesMapping_def)

lemma middleware_response:
  "fst (request_log_middleware minimum request n inherited) =
     request_id_middleware (rq_request_id request) (cn_new_id n) (cn_result n)"
  by (auto simp: request_log_middleware_def request_id_middleware_def request_id_of_def Let_def
      split: sum.splits option.splits)

text \<open>A field that the calls of the endpoint do not set themselves has the value that is bound.\<close>

lemma emit_field: "x \<in> set (emit minimum context level event kw) \<Longrightarrow> kw k = None \<Longrightarrow> lg_fields x k = context k"
  by (auto simp: emit_def map_add_def split: if_splits)

lemma inner_field:
  "x \<in> set (inner_entries minimum context calls) \<Longrightarrow> \<forall>(level, event, kw) \<in> set calls. kw k = None \<Longrightarrow>
     lg_fields x k = context k"
  by (auto simp: inner_entries_def dest!: emit_field)

lemma middleware_fields:
  assumes "x \<in> set (fst (snd (request_log_middleware minimum request n inherited)))"
    and "k \<in> {''request_id'', ''method'', ''path''}" and "\<forall>(level, event, kw) \<in> set (cn_log n). kw k = None"
  shows "lg_fields x k = bound_context request (cn_new_id n) k"
  using assms
  by (auto simp: request_log_middleware_def Let_def split: sum.splits if_splits
      dest!: inner_field [of _ _ _ _ k] emit_field [of _ _ _ _ _ _ k])

definition own_log :: "request_head \<times> call_next \<Rightarrow> bool" where
  "own_log = (\<lambda>(request, n). \<forall>(level, event, kw) \<in> set (cn_log n). kw ''request_id'' = None)"

text \<open>What the log of one request says of it.\<close>

definition logged_as :: "int \<Rightarrow> request_head \<times> call_next \<Rightarrow> api_response outcome \<times> log_entry list \<Rightarrow> bool" where
  "logged_as minimum = (\<lambda>(request, n) (r, entries).
     (\<forall>x \<in> set entries. lg_fields x ''request_id'' = Some (Text (request_id_of (rq_request_id request) (cn_new_id n)))) \<and>
     (\<forall>resp. r = Inr resp \<longrightarrow> ar_request_id resp = Some (request_id_of (rq_request_id request) (cn_new_id n))) \<and>
     (minimum \<le> 20 \<longrightarrow>
        (\<exists>first last. entries = first # inner_entries minimum (bound_context request (cn_new_id n)) (cn_log n) @ last \<and>
           lg_event first = ''request_started'' \<and>
           map lg_event last =
             (case r of
                Inr _ \<Rightarrow> [''request_finished'']
              | Inl e \<Rightarrow> if is_exception e then [''request_failed''] else []))))"

lemma middleware_logged:
  assumes "own_log (request, n)" and "request_log_middleware minimum request n inherited = (r, entries, context)"
  shows "logged_as minimum (request, n) (r, entries) \<and> context = Map.empty"
proof -
  let ?ctx = "bound_context request (cn_new_id n)" and ?id = "request_id_of (rq_request_id request) (cn_new_id n)"
  have "lg_fields x ''request_id'' = Some (Text ?id)" if "x \<in> set entries" for x
    using middleware_fields [of x minimum request n inherited "''request_id''"] assms that
    by (auto simp: own_log_def bound_context_def)
  moreover have "ar_request_id resp = Some ?id" if "r = Inr resp" for resp
    using assms(2) that by (auto simp: request_log_middleware_def Let_def split: sum.splits)
  moreover have "\<exists>first last. entries = first # inner_entries minimum ?ctx (cn_log n) @ last \<and> lg_event first = ''request_started'' \<and>
      map lg_event last = (case r of Inr _ \<Rightarrow> [''request_finished'']
        | Inl e \<Rightarrow> if is_exception e then [''request_failed''] else [])" if "minimum \<le> 20"
    using assms(2) that
    by (auto simp: request_log_middleware_def Let_def emit_def split: sum.splits)
  moreover have "context = Map.empty"
    using assms(2) by (auto simp: request_log_middleware_def Let_def split: sum.splits)
  ultimately show ?thesis by (auto simp: logged_as_def)
qed

subsection \<open>The log of the service\<close>


subsection \<open>Concrete runs\<close>

definition sample_head :: request_head where
  "sample_head = \<lparr>rq_method = ''GET'', rq_path = ''/health/live'', rq_request_id = Some ''abc''\<rparr>"

definition sample_next :: "api_response outcome \<Rightarrow> call_next" where
  "sample_next r = \<lparr>cn_result = r, cn_log = [(20, ''inner'', [''code'' \<mapsto> Code 1])], cn_new_id = UUID 1, cn_started = 1,
     cn_ended = 2\<rparr>"


end
