(* ===== verification/Application.thy ===== *)
theory Application
  imports Request_Log
begin

text \<open>
  The HTTP service as a whole: the route table of \<open>app/api/router.py\<close> and its routers, \<open>get_settings\<close>
  with its cache, \<open>app/core/database.py\<close>, and \<open>app/main.py\<close> with its lifespan.

  \<open>handle_request\<close> finds the route of a request and runs its endpoint of \<open>Http_Api\<close>. How a path
  matches the template of a route is Starlette's, a parameter; the routes FastAPI adds itself (the
  OpenAPI document and its two viewers) are not in the table.
\<close>

subsection \<open>Routes\<close>

datatype endpoint = Create_payment | Get_payment | Live | Ready

datatype dependency = Verify_api_key

record route =
  ro_method :: string
  ro_path :: string
  ro_dependencies :: "dependency list"
  ro_endpoint :: endpoint

record api_router =
  ar_prefix :: string
  ar_dependencies :: "dependency list"
  ar_routes :: "route list"

text \<open>A route declared on a router has its prefix and its dependencies.\<close>

definition APIRouter :: "string \<Rightarrow> dependency list \<Rightarrow> api_router" where
  "APIRouter prefix dependencies = \<lparr>ar_prefix = prefix, ar_dependencies = dependencies, ar_routes = []\<rparr>"

definition add_route :: "string \<Rightarrow> string \<Rightarrow> endpoint \<Rightarrow> api_router \<Rightarrow> api_router" where
  "add_route method path endpoint r =
     r\<lparr>ar_routes := ar_routes r @
         [\<lparr>ro_method = method, ro_path = ar_prefix r @ path, ro_dependencies = ar_dependencies r,
           ro_endpoint = endpoint\<rparr>]\<rparr>"

definition include_router :: "api_router \<Rightarrow> string \<Rightarrow> api_router \<Rightarrow> api_router" where
  "include_router included prefix r =
     r\<lparr>ar_routes := ar_routes r @
         map (\<lambda>x. x\<lparr>ro_path := ar_prefix r @ prefix @ ro_path x,
                    ro_dependencies := ar_dependencies r @ ro_dependencies x\<rparr>) (ar_routes included)\<rparr>"

definition payments_router :: api_router where
  "payments_router =
     add_route ''GET'' ''/{payment_id}'' Get_payment
       (add_route ''POST'' '''' Create_payment (APIRouter ''/payments'' [Verify_api_key]))"

definition health_router :: api_router where
  "health_router =
     add_route ''GET'' ''/ready'' Ready
       (add_route ''GET'' ''/live'' Live (APIRouter ''/health'' [Verify_api_key]))"

definition router :: api_router where
  "router = include_router health_router '''' (include_router payments_router ''/api/v1'' (APIRouter '''' []))"

text \<open>The application's own routes: \<open>app.include_router(router)\<close>.\<close>

definition app_routes :: "route list" where
  "app_routes = ar_routes (include_router router '''' (APIRouter '''' []))"

lemma app_routes_table:
  "map (\<lambda>r. (ro_method r, ro_path r, ro_endpoint r)) app_routes =
     [(''POST'', ''/api/v1/payments'', Create_payment), (''GET'', ''/api/v1/payments/{payment_id}'', Get_payment),
      (''GET'', ''/health/live'', Live), (''GET'', ''/health/ready'', Ready)]"
  by (simp add: app_routes_def router_def payments_router_def health_router_def include_router_def add_route_def
      APIRouter_def)

lemma routes_need_key: "r \<in> set app_routes \<Longrightarrow> ro_dependencies r = [Verify_api_key]"
  by (auto simp: app_routes_def router_def payments_router_def health_router_def include_router_def add_route_def
      APIRouter_def)

subsection \<open>Database\<close>

text \<open>\<open>Database(settings)\<close>: what the engine and the session factory are made with.\<close>

record database_handle =
  db_url :: string
  db_pool_pre_ping :: bool
  db_expire_on_commit :: bool

definition Database :: "settings \<Rightarrow> database_handle" where
  "Database s = \<lparr>db_url = database_url s, db_pool_pre_ping = True, db_expire_on_commit = False\<rparr>"

text \<open>\<open>check_connection\<close>: how connecting, \<open>SELECT 1\<close> and the release of the connection end. An
  exception of the release replaces one of the statement.\<close>

definition check_connection :: "unit outcome \<Rightarrow> unit outcome \<Rightarrow> unit outcome \<Rightarrow> unit outcome" where
  "check_connection connect execute release =
     (case connect of
        Inl e \<Rightarrow> Inl e
      | Inr _ \<Rightarrow> (case release of Inl e \<Rightarrow> Inl e | Inr _ \<Rightarrow> execute))"

subsection \<open>Requests\<close>

record http_request =
  hr_head :: request_head
  hr_api_key :: "string option"
  hr_idempotency_key :: "string option"
  hr_body :: request_body
  hr_payment_id :: "uuid option"

text \<open>What the request meets: the outcome of the creation's inputs, the connection and the health check.\<close>

record service_env =
  se_sha256 :: "string \<Rightarrow> string"
  se_parse_url :: "string \<Rightarrow> url option"
  se_creation :: creation_env
  se_connection :: connection
  se_caught :: "exn \<Rightarrow> bool"
  se_check :: "unit outcome"

definition run_endpoint ::
  "service_env \<Rightarrow> string \<Rightarrow> endpoint \<Rightarrow> http_request \<Rightarrow> database \<Rightarrow> api_response outcome \<times> database" where
  "run_endpoint env expected_api_key endpoint request d =
     (case endpoint of
        Create_payment \<Rightarrow>
          post_payments (se_sha256 env) expected_api_key (se_creation env)
            \<lparr>g_api_key = hr_api_key request, g_idempotency_key = hr_idempotency_key request, g_body = hr_body request\<rparr>
            (se_connection env) d
      | Get_payment \<Rightarrow>
          get_payments (se_parse_url env) expected_api_key (hr_api_key request) (hr_payment_id request)
            (se_connection env) d
      | Live \<Rightarrow> (get_live expected_api_key (hr_api_key request), d)
      | Ready \<Rightarrow> (get_ready (se_caught env) expected_api_key (hr_api_key request) (se_check env), d))"

text \<open>The first route whose template matches the path and whose method is the request's; \<open>fallback\<close>
  is what Starlette answers when there is none (404, 405 or a redirect to the path without its last
  slash).\<close>

definition find_route :: "(string \<Rightarrow> string \<Rightarrow> bool) \<Rightarrow> request_head \<Rightarrow> route option" where
  "find_route matches head =
     List.find (\<lambda>r. matches (ro_path r) (rq_path head) \<and> ro_method r = rq_method head) app_routes"

definition handle_request ::
  "(string \<Rightarrow> string \<Rightarrow> bool) \<Rightarrow> (request_head \<Rightarrow> api_response outcome) \<Rightarrow> service_env \<Rightarrow> string \<Rightarrow>
     http_request \<Rightarrow> database \<Rightarrow> api_response outcome \<times> database" where
  "handle_request matches fallback env expected_api_key request d =
     (case find_route matches (hr_head request) of
        Some r \<Rightarrow> run_endpoint env expected_api_key (ro_endpoint r) request d
      | None \<Rightarrow> (fallback (hr_head request), d))"

subsection \<open>Lifespan\<close>

text \<open>\<open>get_settings\<close> with its \<open>lru_cache\<close>: only a result is cached. \<open>environ\<close> is what
  pydantic-settings reads at that moment.\<close>

definition get_settings :: "settings option \<Rightarrow> settings \<Rightarrow> settings outcome \<times> settings option" where
  "get_settings cached environ =
     (case cached of
        Some s \<Rightarrow> (Inr s, cached)
      | None \<Rightarrow> (case Settings environ of Inl e \<Rightarrow> (Inl e, None) | Inr s \<Rightarrow> (Inr s, Some s)))"

datatype service_action = Open_database database_handle | Log_started environment | Serve_requests | Dispose_engine | Log_stopped

text \<open>\<open>lifespan\<close>: how serving ends (the exception thrown in at the \<open>yield\<close>) and how closing ends.\<close>

definition lifespan ::
  "settings option \<Rightarrow> settings \<Rightarrow> unit outcome \<Rightarrow> unit outcome \<Rightarrow> service_action list \<times> unit outcome" where
  "lifespan cached environ serving closing =
     (case fst (get_settings cached environ) of
        Inl e \<Rightarrow> ([], Inl e)
      | Inr s \<Rightarrow>
          (case configure_logging (log_level s) of
             Inl e \<Rightarrow> ([], Inl e)
           | Inr _ \<Rightarrow>
               (let opened = [Open_database (Database s), Log_started (environment s), Serve_requests]
                in case perform [(Dispose_engine, closing), (Log_stopped, Inr ())] of
                     (finished, r) \<Rightarrow> (opened @ finished, case r of Inl e \<Rightarrow> Inl e | Inr _ \<Rightarrow> serving))))"

lemma get_settings_stable:
  assumes "get_settings cached environ = (Inr s, cached')"
  shows "get_settings cached' environ' = (Inr s, cached')"
  using assms by (auto simp: get_settings_def split: option.splits sum.splits)

text \<open>Valid settings always bring the service up, and what it opened is closed however serving ends.\<close>

lemma lifespan_closes:
  assumes "Settings environ = Inr s"
  shows "fst (lifespan None environ serving (Inr ())) =
      [Open_database (Database s), Log_started (environment s), Serve_requests, Dispose_engine, Log_stopped] \<and>
    snd (lifespan None environ serving (Inr ())) = serving"
proof -
  obtain level where "configure_logging (log_level s) = Inr level" by (rule configure_logging_ok [OF assms])
  with assms show ?thesis by (simp add: lifespan_def get_settings_def)
qed

subsection \<open>Authentication\<close>

lemma refused_response:
  assumes "sent \<noteq> Some expected"
  obtains (refused) "verify_api_key expected sent = Inl (HTTPException 401 ''Invalid or missing API key'')"
  | (failed) "verify_api_key expected sent = Inl (Internal (OtherException ''TypeError''))"
  using assms by (cases rule: verify_cases [of sent expected]) auto

text \<open>What a caller without the API key can get.\<close>

definition refusal :: "api_response outcome \<Rightarrow> bool" where
  "refusal r \<longleftrightarrow>
     (case r of
        Inr resp \<Rightarrow> ar_status_code resp \<in> {401, 422} \<and> (\<exists>detail. ar_body resp = Error_detail detail)
      | Inl e \<Rightarrow> e = OtherException ''TypeError'')"

lemma endpoint_needs_key:
  assumes "hr_api_key request \<noteq> Some expected"
  shows "\<exists>r. run_endpoint env expected endpoint request d = (r, d) \<and> refusal r"
  by (cases rule: refused_response [OF assms]; cases endpoint; cases "hr_body request")
    (simp_all add: run_endpoint_def post_payments_def get_payments_def get_live_def get_ready_def refusal_def
      refuse_validation_def)


subsection \<open>Concrete runs\<close>

definition sample_get :: http_request where
  "sample_get =
     \<lparr>hr_head = \<lparr>rq_method = ''GET'', rq_path = ''/health/live'', rq_request_id = None\<rparr>, hr_api_key = Some ''guess'',
      hr_idempotency_key = None, hr_body = Not_json, hr_payment_id = None\<rparr>"

lemma sample_route: "map_option ro_endpoint (find_route (=) (hr_head sample_get)) = Some Live"
  by (simp add: find_route_def sample_get_def app_routes_def router_def payments_router_def health_router_def
      include_router_def add_route_def APIRouter_def)


end
